(* ===== verification/Prelude.thy ===== *)
theory Prelude
  imports Main "HOL-Library.Sublist" "HOL-Library.Word" "HOL-Library.Char_ord"
    "HOL-Library.List_Lexorder"
begin

text \<open>
  What every component shares: the exceptions of the C++ code as values, bytes and their
  codes, and the operations of \<open>std::string\<close> and \<open>std::vector\<close> that the sources call, written
  over lists.  A \<open>std::string\<close> is a \<open>string\<close> (a list of bytes), a position is a \<open>nat\<close>, and
  \<open>std::string::npos\<close> is \<open>None\<close>.
\<close>

section \<open>Lemma collections\<close>

named_theorems str_simps \<open>equations of the string operations\<close>
named_theorems eval_simps \<open>definitions that the simplifier unfolds to evaluate closed terms\<close>
named_theorems ctype_defs \<open>definitions of the character classes\<close>

section \<open>Exceptions as values\<close>

text \<open>
  \<open>Undefined_behaviour\<close> marks a read or an erase outside the bounds of a container, which the
  C++ standard leaves undefined; the other constructors are the exceptions the sources throw or
  let pass from the standard library.
\<close>

datatype exn = Out_of_range | Runtime_error | Invalid_argument | Logic_error
  | Bad_alloc | Undefined_behaviour

type_synonym 'a outcome = "exn + 'a"

definition bind_outcome :: "'a outcome \<Rightarrow> ('a \<Rightarrow> 'b outcome) \<Rightarrow> 'b outcome" where
  [eval_simps]: "bind_outcome m f = (case m of Inl e \<Rightarrow> Inl e | Inr x \<Rightarrow> f x)"

lemma bind_outcome_simps [simp]:
  "bind_outcome (Inl e) f = Inl e"
  "bind_outcome (Inr x) f = f x"
  by (simp_all add: bind_outcome_def)

lemma bind_outcome_Inr_iff:
  "bind_outcome m f = Inr y \<longleftrightarrow> (\<exists>x. m = Inr x \<and> f x = Inr y)"
  by (cases m) simp_all

lemma bind_outcome_cong [fundef_cong]:
  "m = m' \<Longrightarrow> (\<And>x. m' = Inr x \<Longrightarrow> f x = g x) \<Longrightarrow> bind_outcome m f = bind_outcome m' g"
  by (cases m') simp_all

text \<open>A loop that makes one value of each element and stops at the first exception.\<close>

fun map_outcomes :: "('a \<Rightarrow> 'b outcome) \<Rightarrow> 'a list \<Rightarrow> 'b list outcome" where
  "map_outcomes f [] = Inr []"
| "map_outcomes f (x # xs) =
     bind_outcome (f x) (\<lambda>y. bind_outcome (map_outcomes f xs) (\<lambda>ys. Inr (y # ys)))"

lemma map_outcomes_Inr_iff:
  "map_outcomes f xs = Inr ys \<longleftrightarrow> list_all2 (\<lambda>x y. f x = Inr y) xs ys"
  by (induction xs arbitrary: ys) (auto simp: bind_outcome_Inr_iff list_all2_Cons1)

section \<open>Bytes\<close>

definition code :: "char \<Rightarrow> nat" where
  [eval_simps]: "code c = of_char c"

abbreviation NUL :: char where "NUL \<equiv> CHR 0x00"
abbreviation HT :: char where "HT \<equiv> CHR 0x09"
abbreviation LF :: char where "LF \<equiv> CHR 0x0A"
abbreviation CR :: char where "CR \<equiv> CHR 0x0D"
abbreviation SP :: char where "SP \<equiv> CHR 0x20"

lemma code_less: "code c < 256"
  by (simp add: code_def)

lemma code_eq_iff [simp]: "code c = code d \<longleftrightarrow> c = d"
  by (simp add: code_def)

lemma char_of_code [simp]: "char_of (code c) = c"
  by (simp add: code_def)

lemma code_char_of: "n < 256 \<Longrightarrow> code (char_of n) = n"
  by (simp add: code_def of_char_of)

declare char_of_def [eval_simps] bit_0 [eval_simps]

section \<open>Machine sizes\<close>

text \<open>
  A \<open>ssize_t\<close> value read as a \<open>size_t\<close> (64 bits), and the difference of two \<open>size_t\<close>
  values, which wraps around below zero.
\<close>

definition size_of_ssize :: "int \<Rightarrow> nat" where
  [eval_simps]: "size_of_ssize i = (if 0 \<le> i then nat i else nat (2 ^ 64 + i))"

definition size_minus :: "nat \<Rightarrow> nat \<Rightarrow> nat" where
  [eval_simps]: "size_minus a b = (if b \<le> a then a - b else 2 ^ 64 - (b - a))"

lemma size_of_ssize_nonneg [simp]: "0 \<le> i \<Longrightarrow> size_of_ssize i = nat i"
  by (simp add: size_of_ssize_def)

section \<open>Searching and cutting strings\<close>

primrec find_idx :: "('a \<Rightarrow> bool) \<Rightarrow> 'a list \<Rightarrow> nat option" where
  "find_idx P [] = None"
| "find_idx P (x # xs) = (if P x then Some 0 else map_option Suc (find_idx P xs))"

lemma find_idx_None_iff: "find_idx P xs = None \<longleftrightarrow> (\<forall>x\<in>set xs. \<not> P x)"
  by (induction xs) auto

lemma find_idx_Some:
  "find_idx P xs = Some n \<Longrightarrow> n < length xs \<and> P (xs ! n) \<and> (\<forall>i<n. \<not> P (xs ! i))"
proof (induction xs arbitrary: n)
  case Nil
  then show ?case by simp
next
  case (Cons x xs)
  then show ?case
    by (cases n) (auto split: if_splits simp: less_Suc_eq_0_disj)
qed

lemma find_idx_Some_take:
  "find_idx P xs = Some n \<Longrightarrow> take n xs = takeWhile (\<lambda>x. \<not> P x) xs"
  by (induction xs arbitrary: n) (auto split: if_splits)

lemma find_idx_Some_drop:
  "find_idx P xs = Some n \<Longrightarrow> drop n xs = dropWhile (\<lambda>x. \<not> P x) xs"
  by (induction xs arbitrary: n) (auto split: if_splits)

lemma find_idx_append_hit:
  "\<forall>x\<in>set xs. \<not> P x \<Longrightarrow> P y \<Longrightarrow> find_idx P (xs @ y # ys) = Some (length xs)"
  by (induction xs) auto

lemma find_idx_eq_Some_iff:
  "find_idx P xs = Some n \<longleftrightarrow> n < length xs \<and> P (xs ! n) \<and> (\<forall>i<n. \<not> P (xs ! i))"
proof
  assume "n < length xs \<and> P (xs ! n) \<and> (\<forall>i<n. \<not> P (xs ! i))"
  then show "find_idx P xs = Some n"
  proof (induction xs arbitrary: n)
    case (Cons x xs)
    show ?case
    proof (cases n)
      case 0
      with Cons.prems show ?thesis by simp
    next
      case (Suc m)
      have "\<forall>i<m. \<not> P (xs ! i)"
      proof (intro allI impI)
        fix i assume "i < m"
        with Cons.prems Suc have "\<not> P ((x # xs) ! Suc i)" by blast
        then show "\<not> P (xs ! i)" by simp
      qed
      with Cons Suc show ?thesis by auto
    qed
  qed simp
qed (rule find_idx_Some)

text \<open>\<open>find_sub p s\<close> is the position of the first occurrence of \<open>p\<close> in \<open>s\<close>.\<close>

fun find_sub :: "string \<Rightarrow> string \<Rightarrow> nat option" where
  "find_sub p s =
     (if prefix p s then Some 0
      else case s of [] \<Rightarrow> None | _ # t \<Rightarrow> map_option Suc (find_sub p t))"

declare find_sub.simps [simp del]

lemma find_sub_Cons [str_simps]:
  "find_sub p (c # s) = (if prefix p (c # s) then Some 0 else map_option Suc (find_sub p s))"
  by (simp add: find_sub.simps [of p "c # s"])

lemma find_sub_Nil [str_simps]: "find_sub p [] = (if p = [] then Some 0 else None)"
  by (simp add: find_sub.simps [of p "[]"])

lemma find_sub_Some:
  "find_sub p s = Some n \<Longrightarrow> n + length p \<le> length s \<and> prefix p (drop n s)"
proof (induction s arbitrary: n)
  case Nil
  then show ?case by (auto simp: find_sub_Nil split: if_splits)
next
  case (Cons c s)
  then show ?case
    by (auto simp: find_sub_Cons prefix_length_le split: if_splits
        dest!: prefix_length_le)
qed

lemma find_sub_None_iff: "find_sub p s = None \<longleftrightarrow> \<not> sublist p s"
proof (induction s)
  case Nil
  then show ?case by (auto simp: find_sub_Nil)
next
  case (Cons c s)
  then show ?case by (auto simp: find_sub_Cons sublist_Cons_right)
qed

text \<open>\<open>s.find(p, pos)\<close>, \<open>s.find_first_of(cs, pos)\<close>, \<open>s.find_last_of(c)\<close>.\<close>

definition str_find :: "string \<Rightarrow> string \<Rightarrow> nat \<Rightarrow> nat option" where
  [eval_simps]: "str_find s p pos =
     (if pos \<le> length s then map_option (\<lambda>i. pos + i) (find_sub p (drop pos s)) else None)"

definition str_find_first_of :: "string \<Rightarrow> string \<Rightarrow> nat \<Rightarrow> nat option" where
  [eval_simps]: "str_find_first_of s cs pos =
     map_option (\<lambda>i. pos + i) (find_idx (\<lambda>c. c \<in> set cs) (drop pos s))"

definition find_last_idx :: "('a \<Rightarrow> bool) \<Rightarrow> 'a list \<Rightarrow> nat option" where
  [eval_simps]: "find_last_idx P s = map_option (\<lambda>i. length s - 1 - i) (find_idx P (rev s))"

definition str_find_last_of :: "string \<Rightarrow> char \<Rightarrow> nat option" where
  [eval_simps]: "str_find_last_of s c = find_last_idx (\<lambda>d. d = c) s"

lemma str_find_first_of_bounds:
  "str_find_first_of s cs pos = Some n \<Longrightarrow> pos \<le> n \<and> n < length s \<and> s ! n \<in> set cs"
  by (auto simp: str_find_first_of_def dest!: find_idx_Some)

lemma str_find_first_of_None:
  "str_find_first_of s cs pos = None \<Longrightarrow> pos \<le> i \<Longrightarrow> i < length s \<Longrightarrow> s ! i \<notin> set cs"
proof -
  assume "str_find_first_of s cs pos = None" and i: "pos \<le> i" "i < length s"
  then have *: "\<forall>x\<in>set (drop pos s). x \<notin> set cs"
    by (simp add: str_find_first_of_def find_idx_None_iff)
  have "drop pos s ! (i - pos) \<in> set (drop pos s)"
    using i by (intro nth_mem) simp
  with * i show ?thesis by simp
qed

lemma find_last_idx_None_iff: "find_last_idx P s = None \<longleftrightarrow> (\<forall>x\<in>set s. \<not> P x)"
  by (auto simp: find_last_idx_def find_idx_None_iff)

lemma find_last_idx_Some:
  assumes "find_last_idx P s = Some n"
  shows "n < length s \<and> P (s ! n) \<and> (\<forall>i. n < i \<and> i < length s \<longrightarrow> \<not> P (s ! i))"
proof -
  from assms obtain j where j: "find_idx P (rev s) = Some j"
    and n: "n = length s - 1 - j"
    by (auto simp: find_last_idx_def)
  note js = find_idx_Some [OF j]
  from js have jl: "j < length s" by simp
  have "P (s ! n)"
    using js jl by (simp add: n rev_nth)
  moreover have "\<not> P (s ! i)" if "n < i" "i < length s" for i
  proof -
    have "length s - 1 - i < j" using that n jl by simp
    with js have "\<not> P (rev s ! (length s - 1 - i))" by blast
    with that show ?thesis by (simp add: rev_nth)
  qed
  ultimately show ?thesis using jl n by auto
qed

lemma find_last_idx_snoc [str_simps]:
  "find_last_idx P (s @ [x]) = (if P x then Some (length s) else find_last_idx P s)"
proof (cases "find_idx P (rev s)")
  case (Some j)
  then have "j < length s" by (auto dest: find_idx_Some)
  with Some show ?thesis by (simp add: find_last_idx_def)
qed (simp add: find_last_idx_def)

lemma find_last_idx_append_hit:
  "P x \<Longrightarrow> \<forall>y\<in>set ys. \<not> P y \<Longrightarrow> find_last_idx P (xs @ x # ys) = Some (length xs)"
  by (simp add: find_last_idx_def find_idx_append_hit)

lemma str_find_last_of_None_iff: "str_find_last_of s c = None \<longleftrightarrow> c \<notin> set s"
  by (auto simp: str_find_last_of_def find_last_idx_None_iff)

lemma str_find_last_of_Some:
  "str_find_last_of s c = Some n \<Longrightarrow>
     n < length s \<and> s ! n = c \<and> (\<forall>i. n < i \<and> i < length s \<longrightarrow> s ! i \<noteq> c)"
  by (auto simp: str_find_last_of_def dest: find_last_idx_Some)

text \<open>
  \<open>s.substr(pos, n)\<close> with a count, and \<open>s.substr(pos)\<close>: both throw \<open>std::out_of_range\<close> when
  \<open>pos\<close> is beyond the end.  \<open>cut\<close> is the same where the position is known to be in range.
\<close>

definition cut :: "nat \<Rightarrow> nat \<Rightarrow> 'a list \<Rightarrow> 'a list" where
  [eval_simps]: "cut pos n s = take n (drop pos s)"

definition substr_from :: "string \<Rightarrow> nat \<Rightarrow> string outcome" where
  [eval_simps]: "substr_from s pos = (if pos \<le> length s then Inr (drop pos s) else Inl Out_of_range)"

text \<open>\<open>strchr(set, c)\<close> finds the terminating NUL too.\<close>

definition in_cstr :: "char \<Rightarrow> string \<Rightarrow> bool" where
  [eval_simps]: "in_cstr c cs \<longleftrightarrow> c \<in> set cs \<or> c = NUL"

text \<open>\<open>s.c_str()[i]\<close>: the byte at \<open>i\<close>, NUL at the end of the string.\<close>

definition c_at :: "string \<Rightarrow> nat \<Rightarrow> char" where
  [eval_simps]: "c_at s i = (if i < length s then s ! i else NUL)"

lemma c_at_simps [str_simps]:
  "c_at [] i = NUL"
  "c_at (c # s) 0 = c"
  "c_at (c # s) (Suc i) = c_at s i"
  by (simp_all add: c_at_def)

section \<open>Splitting at a separator\<close>

text \<open>The specification of a split: the fields between the separators, empty ones included.\<close>

fun split_on :: "'a \<Rightarrow> 'a list \<Rightarrow> 'a list list" where
  "split_on c [] = [[]]"
| "split_on c (x # xs) =
     (if x = c then [] # split_on c xs
      else case split_on c xs of [] \<Rightarrow> [[x]] | w # ws \<Rightarrow> (x # w) # ws)"

lemma split_on_nonempty [simp]: "split_on c xs \<noteq> []"
  by (cases xs) (auto split: list.splits)

lemma split_on_no_sep: "c \<notin> set xs \<Longrightarrow> split_on c xs = [xs]"
  by (induction xs) auto

lemma split_on_append:
  "c \<notin> set xs \<Longrightarrow> split_on c (xs @ c # ys) = xs # split_on c ys"
  by (induction xs) auto

lemma split_on_append_sep:
  "split_on c (xs @ c # ys) = split_on c xs @ split_on c ys"
proof (induction xs)
  case (Cons x xs)
  then show ?case by (cases "split_on c xs") auto
qed simp

lemma split_on_elem: "w \<in> set (split_on c xs) \<Longrightarrow> c \<notin> set w \<and> set w \<subseteq> set xs"
proof (induction xs arbitrary: w)
  case (Cons x xs)
  show ?case
  proof (cases "x = c")
    case False
    obtain v vs where v: "split_on c xs = v # vs"
      by (cases "split_on c xs") auto
    with Cons.prems False have "w = x # v \<or> w \<in> set vs" by auto
    then show ?thesis
    proof
      assume "w = x # v"
      with Cons.IH [of v] v False show ?thesis by auto
    next
      assume "w \<in> set vs"
      with Cons.IH [of w] v show ?thesis by auto
    qed
  qed (use Cons in auto)
qed simp

end
