(* ===== verification/StrUtils.thy ===== *)
theory StrUtils
  imports Prelude
begin

text \<open>
  The character classes of the C locale that the sources call, \<open>src/utils/str_utils.cpp\<close>, and
  the two operations of \<open>std::stringstream\<close> the request builder uses, \<open>getline\<close> and \<open>peek\<close>/
  \<open>ignore\<close>.  A \<open>char\<close> above 127 is a negative argument of the \<open>ctype\<close> functions: it is in no
  class and has no other case.
\<close>

section \<open>Character classes of the C locale\<close>

definition isdigit :: "char \<Rightarrow> bool" where
  [ctype_defs, eval_simps]: "isdigit c \<longleftrightarrow> 48 \<le> code c \<and> code c \<le> 57"

definition isupper :: "char \<Rightarrow> bool" where
  [ctype_defs, eval_simps]: "isupper c \<longleftrightarrow> 65 \<le> code c \<and> code c \<le> 90"

definition islower :: "char \<Rightarrow> bool" where
  [ctype_defs, eval_simps]: "islower c \<longleftrightarrow> 97 \<le> code c \<and> code c \<le> 122"

definition isalnum :: "char \<Rightarrow> bool" where
  [ctype_defs, eval_simps]: "isalnum c \<longleftrightarrow> isdigit c \<or> isupper c \<or> islower c"

definition isxdigit :: "char \<Rightarrow> bool" where
  [ctype_defs, eval_simps]: "isxdigit c \<longleftrightarrow> isdigit c \<or> 65 \<le> code c \<and> code c \<le> 70 \<or> 97 \<le> code c \<and> code c \<le> 102"

definition isspace :: "char \<Rightarrow> bool" where
  [ctype_defs, eval_simps]: "isspace c \<longleftrightarrow> code c = 32 \<or> 9 \<le> code c \<and> code c \<le> 13"

definition isprint :: "char \<Rightarrow> bool" where
  [ctype_defs, eval_simps]: "isprint c \<longleftrightarrow> 32 \<le> code c \<and> code c \<le> 126"

definition tolower :: "char \<Rightarrow> char" where
  [eval_simps]: "tolower c = (if isupper c then char_of (code c + 32) else c)"

definition toupper :: "char \<Rightarrow> char" where
  [eval_simps]: "toupper c = (if islower c then char_of (code c - 32) else c)"

lemma code_tolower: "code (tolower c) = (if isupper c then code c + 32 else code c)"
  by (simp add: tolower_def isupper_def code_char_of)

lemma code_toupper: "code (toupper c) = (if islower c then code c - 32 else code c)"
  using code_less [of c] by (simp add: toupper_def islower_def code_char_of)

lemma not_isupper_tolower [simp]: "\<not> isupper (tolower c)"
  by (auto simp: isupper_def code_tolower)

lemma tolower_id: "\<not> isupper c \<Longrightarrow> tolower c = c"
  by (simp add: tolower_def)

lemma tolower_idem [simp]: "tolower (tolower c) = tolower c"
  by (simp add: tolower_id)

lemma isxdigit_toupper [simp]: "isxdigit (toupper c) = isxdigit c"
  by (auto simp: isxdigit_def isdigit_def code_toupper islower_def)

section \<open>ToLowerCase\<close>

text \<open>\<open>utils::ToLowerCase\<close>: the loop lower-cases each byte in place.\<close>

definition ToLowerCase :: "string \<Rightarrow> string" where
  [eval_simps]: "ToLowerCase str = map tolower str"

lemma ToLowerCase_idem [simp]: "ToLowerCase (ToLowerCase s) = ToLowerCase s"
  by (simp add: ToLowerCase_def comp_def)

lemma length_ToLowerCase [simp]: "length (ToLowerCase s) = length s"
  by (simp add: ToLowerCase_def)

section \<open>String streams\<close>

record sstream =
  ss_rest :: string
  ss_eof :: bool
  ss_fail :: bool

definition ss_of :: "string \<Rightarrow> sstream" where
  [eval_simps]: "ss_of s = \<lparr>ss_rest = s, ss_eof = False, ss_fail = False\<rparr>"

definition ss_good :: "sstream \<Rightarrow> bool" where
  [eval_simps]: "ss_good ss \<longleftrightarrow> \<not> ss_eof ss \<and> \<not> ss_fail ss"

text \<open>
  \<open>std::getline(ss, dest, delim)\<close>: on a stream that is not good it sets failbit and leaves the
  destination; otherwise it takes the bytes before the delimiter, which it consumes, or all of
  them with eofbit, and failbit too when there were none.
\<close>

definition getline :: "sstream \<Rightarrow> char \<Rightarrow> string \<Rightarrow> sstream \<times> string" where
  [eval_simps]: "getline ss delim dest =
     (if \<not> ss_good ss then (ss\<lparr>ss_fail := True\<rparr>, dest)
      else case find_idx (\<lambda>c. c = delim) (ss_rest ss) of
        Some n \<Rightarrow> (ss\<lparr>ss_rest := drop (Suc n) (ss_rest ss)\<rparr>, take n (ss_rest ss))
      | None \<Rightarrow> (ss\<lparr>ss_rest := [], ss_eof := True, ss_fail := (ss_rest ss = [])\<rparr>, ss_rest ss))"

text \<open>
  \<open>utils::EatSpacesAndHTabs\<close>: \<open>peek\<close> at the end sets eofbit, and the second \<open>peek\<close> of the
  condition then finds the stream not good and sets failbit.
\<close>

fun eat_spaces_and_htabs :: "string \<Rightarrow> string" where
  "eat_spaces_and_htabs [] = []"
| "eat_spaces_and_htabs (c # cs) = (if c = SP \<or> c = HT then eat_spaces_and_htabs cs else c # cs)"

definition EatSpacesAndHTabs :: "sstream \<Rightarrow> sstream" where
  [eval_simps]: "EatSpacesAndHTabs ss =
     (if \<not> ss_good ss then ss\<lparr>ss_fail := True\<rparr>
      else let rest = eat_spaces_and_htabs (ss_rest ss)
        in if rest = [] then ss\<lparr>ss_rest := [], ss_eof := True, ss_fail := True\<rparr>
           else ss\<lparr>ss_rest := rest\<rparr>)"

lemma eat_spaces_and_htabs_eq:
  "eat_spaces_and_htabs s = dropWhile (\<lambda>c. c = SP \<or> c = HT) s"
  by (induction s) auto

lemma getline_hit [str_simps]:
  "ss_good ss \<Longrightarrow> find_idx (\<lambda>c. c = d) (ss_rest ss) = Some n \<Longrightarrow>
     getline ss d dest = (ss\<lparr>ss_rest := drop (Suc n) (ss_rest ss)\<rparr>, take n (ss_rest ss))"
  by (simp add: getline_def)

section \<open>Trim\<close>

text \<open>\<open>utils::Trim\<close>: from the first to the last byte that is not in \<open>trim_chars\<close>.\<close>

definition Trim :: "string \<Rightarrow> string \<Rightarrow> string" where
  [eval_simps]: "Trim str trim_chars =
     (case find_idx (\<lambda>c. c \<notin> set trim_chars) str of
        None \<Rightarrow> []
      | Some first \<Rightarrow>
          (case find_last_idx (\<lambda>c. c \<notin> set trim_chars) str of
             None \<Rightarrow> []
           | Some lst \<Rightarrow> cut first (lst - first + 1) str))"

lemma Trim_unique:
  assumes "str = pre @ mid @ post" and "set pre \<subseteq> set cs" and "set post \<subseteq> set cs"
    and "mid \<noteq> []" and "hd mid \<notin> set cs" and "last mid \<notin> set cs"
  shows "Trim str cs = mid"
proof -
  obtain h t where mid: "mid = h # t" using assms(4) by (cases mid) auto
  have 1: "find_idx (\<lambda>c. c \<notin> set cs) str = Some (length pre)"
    using assms(2,5) by (auto simp: assms(1) mid intro!: find_idx_append_hit)
  have s: "str = (pre @ butlast mid) @ last mid # post"
    using assms(4) by (simp add: assms(1))
  have 2: "find_last_idx (\<lambda>c. c \<notin> set cs) str = Some (length (pre @ butlast mid))"
    unfolding s using assms(3,6) by (intro find_last_idx_append_hit) auto
  have "length (pre @ butlast mid) - length pre + 1 = length mid"
    using assms(4) by simp
  then have "Trim str cs = cut (length pre) (length mid) str"
    unfolding Trim_def 1 2 by (simp only: option.case)
  then show ?thesis
    by (simp add: cut_def assms(1))
qed

lemma Trim_ends:
  assumes "Trim s cs = mid" and "mid \<noteq> []"
  shows "hd mid \<notin> set cs \<and> last mid \<notin> set cs \<and> sublist mid s"
proof -
  from assms obtain f l where f: "find_idx (\<lambda>c. c \<notin> set cs) s = Some f"
    and l: "find_last_idx (\<lambda>c. c \<notin> set cs) s = Some l" and m: "mid = cut f (l - f + 1) s"
    by (auto simp: Trim_def split: option.splits)
  note fs = find_idx_Some [OF f] and ls = find_last_idx_Some [OF l]
  have le: "f \<le> l"
    using fs ls by (metis not_le)
  have "hd mid = s ! f"
    using fs by (simp add: m cut_def hd_conv_nth)
  moreover have "last mid = s ! l"
  proof -
    have len: "length mid = l - f + 1"
      using ls le by (auto simp: m cut_def min_def)
    then have "last mid = mid ! (l - f)"
      using assms(2) by (simp add: last_conv_nth)
    with fs ls le show ?thesis by (simp add: m cut_def)
  qed
  moreover have "sublist mid s"
    by (simp add: m cut_def sublist_order.order_trans [OF sublist_take sublist_drop])
  ultimately show ?thesis using fs ls by simp
qed

section \<open>SplitLine\<close>

text \<open>\<open>utils::SplitLine\<close>: the loop over the start positions, keeping the non-empty pieces.\<close>

function split_line_from :: "string \<Rightarrow> nat \<Rightarrow> string list" where
  "split_line_from line start =
     (if start < length line then
        let stop = (case str_find line [SP] start of None \<Rightarrow> length line | Some e \<Rightarrow> e);
            elem = cut start (stop - start) line
        in (if elem = [] then [] else [elem]) @ split_line_from line (Suc stop)
      else [])"
  by pat_completeness auto
termination
proof (relation "measure (\<lambda>(line, start). length line - start)", goal_cases)
  case (2 line start stop)
  have "start \<le> stop"
    using 2 by (auto simp: str_find_def split: option.splits if_splits)
  with 2(1) show ?case by auto
qed simp

declare split_line_from.simps [simp del]

definition SplitLine :: "string \<Rightarrow> string list" where
  [eval_simps]: "SplitLine line = split_line_from line 0"

lemma find_sub_single: "find_sub [c] s = find_idx (\<lambda>d. d = c) s"
  by (induction s) (auto simp: str_simps)

lemma split_line_from_spec:
  "split_line_from line start = filter (\<lambda>w. w \<noteq> []) (split_on SP (drop start line))"
proof (induction line start rule: split_line_from.induct)
  case (1 line start)
  show ?case
  proof (cases "start < length line")
    case True
    show ?thesis
    proof (cases "find_idx (\<lambda>d. d = SP) (drop start line)")
      case None
      then have "SP \<notin> set (drop start line)" by (auto simp: find_idx_None_iff)
      then have "split_on SP (drop start line) = [drop start line]" by (rule split_on_no_sep)
      then show ?thesis
        using "1.IH" True None
        by (simp add: split_line_from.simps [of line start] str_find_def find_sub_single cut_def)
    next
      case (Some n)
      then have n: "take n (drop start line) = takeWhile (\<lambda>d. d \<noteq> SP) (drop start line)"
        and nl: "n < length (drop start line)" and nsp: "drop start line ! n = SP"
        by (auto dest: find_idx_Some_take find_idx_Some)
      have "SP \<notin> set (take n (drop start line))"
        unfolding n by (auto dest: set_takeWhileD)
      moreover have "drop start line
          = take n (drop start line) @ SP # drop (Suc (start + n)) line"
        using nl nsp id_take_nth_drop [OF nl] by (simp add: add.commute)
      ultimately have "split_on SP (drop start line)
          = take n (drop start line) # split_on SP (drop (Suc (start + n)) line)"
        by (metis split_on_append)
      then show ?thesis
        using "1.IH" True Some
        by (simp add: split_line_from.simps [of line start] str_find_def find_sub_single cut_def)
    qed
  next
    case False
    then show ?thesis by (simp add: split_line_from.simps [of line start])
  qed
qed

text \<open>Splitting a configuration value at blanks yields exactly its non-empty fields, in order.\<close>

lemma SplitLine_fields: "SplitLine line = filter (\<lambda>w. w \<noteq> []) (split_on SP line)"
  by (simp add: SplitLine_def split_line_from_spec)

end
