(* ===== verification/NumericUtils.thy ===== *)
theory NumericUtils
  imports StrUtils
begin

text \<open>
  \<open>src/utils/numeric_utils.h\<close>: reading and printing numbers through \<open>std::stringstream\<close>.  The
  extraction \<open>ss >> num\<close> of the standard library is \<open>num_get\<close>: an optional sign, for base 16 an
  optional \<open>0x\<close>, the longest run of digits; it fails when there is no digit or the value does
  not fit, and an unsigned type reads \<open>-n\<close> as the negation of \<open>n\<close> modulo \<open>2 ^ w\<close>.
\<close>

section \<open>Digits\<close>

definition digit_val :: "char \<Rightarrow> nat" where
  [eval_simps]: "digit_val c =
     (if isdigit c then code c - 48
      else if 97 \<le> code c then code c - 87 else code c - 55)"

definition num_of :: "nat \<Rightarrow> string \<Rightarrow> nat" where
  [eval_simps]: "num_of base ds = foldl (\<lambda>a c. a * base + digit_val c) 0 ds"

definition is_base_digit :: "nat \<Rightarrow> char \<Rightarrow> bool" where
  [eval_simps]: "is_base_digit base c \<longleftrightarrow> (if base = 16 then isxdigit c else isdigit c)"

lemma num_of_snoc [simp]: "num_of b (ds @ [d]) = num_of b ds * b + digit_val d"
  by (simp add: num_of_def)

lemma num_of_Nil [simp]: "num_of b [] = 0"
  by (simp add: num_of_def)

lemma digit_val_less: "isxdigit c \<Longrightarrow> digit_val c < 16"
  by (auto simp: digit_val_def ctype_defs)

lemma num_of_bound: "list_all isxdigit ds \<Longrightarrow> num_of 16 ds < 16 ^ length ds"
proof (induction ds rule: rev_induct)
  case (snoc d ds)
  then have "num_of 16 ds + 1 \<le> 16 ^ length ds" "digit_val d < 16"
    by (auto intro: digit_val_less)
  then have "num_of 16 ds * 16 + digit_val d < 16 * 16 ^ length ds" by linarith
  then show ?case by simp
qed simp

section \<open>Extraction from a stream\<close>

text \<open>
  The steps of the extraction: the sign, the prefix of base 16, and whether the value fits the
  type.  The result is the value read, if any, and what is left of the stream.
\<close>

definition read_sign :: "string \<Rightarrow> bool \<times> string" where
  [eval_simps]: "read_sign s =
     (case s of
        [] \<Rightarrow> (False, [])
      | c # cs \<Rightarrow> if c = CHR ''-'' then (True, cs) else if c = CHR ''+'' then (False, cs)
          else (False, c # cs))"

definition skip_0x :: "nat \<Rightarrow> string \<Rightarrow> string" where
  [eval_simps]: "skip_0x base s =
     (case s of
        a # b # cs \<Rightarrow>
          if base = 16 \<and> a = CHR ''0'' \<and> (b = CHR ''x'' \<or> b = CHR ''X'') then cs else a # b # cs
      | _ \<Rightarrow> s)"

lemma skip_0x_10 [simp]: "skip_0x 10 s = s"
  by (simp add: skip_0x_def split: list.splits)

definition num_store :: "bool \<Rightarrow> nat \<Rightarrow> bool \<Rightarrow> nat \<Rightarrow> int option" where
  [eval_simps]: "num_store sg w neg n =
     (if sg then
        (if (if neg then n \<le> 2 ^ (w - 1) else n < 2 ^ (w - 1))
         then Some (if neg then - int n else int n) else None)
      else
        (if n < 2 ^ w then Some (if neg then (- int n) mod 2 ^ w else int n) else None))"

text \<open>For evaluation: the bounds are compared as integers, which have a binary representation.\<close>

lemma num_store_code [code]:
  "num_store sg w neg n =
     (if sg then
        (if (if neg then int n \<le> 2 ^ (w - 1) else int n < 2 ^ (w - 1))
         then Some (if neg then - int n else int n) else None)
      else
        (if int n < 2 ^ w then Some (if neg then (- int n) mod 2 ^ w else int n) else None))"
proof -
  have "int n \<le> 2 ^ k \<longleftrightarrow> n \<le> 2 ^ k" "int n < 2 ^ k \<longleftrightarrow> n < 2 ^ k" for k
    by (metis of_nat_le_iff of_nat_numeral of_nat_power) (metis of_nat_less_iff of_nat_numeral of_nat_power)
  then show ?thesis by (simp add: num_store_def)
qed

definition num_digits :: "bool \<Rightarrow> nat \<Rightarrow> nat \<Rightarrow> bool \<Rightarrow> string \<Rightarrow> int option" where
  [eval_simps]: "num_digits sg w base neg ds =
     (if ds = [] then None else num_store sg w neg (num_of base ds))"

definition num_body :: "nat \<Rightarrow> bool \<Rightarrow> nat \<Rightarrow> bool \<Rightarrow> string \<Rightarrow> int option \<times> string" where
  [eval_simps]: "num_body base sg w neg s =
     (num_digits sg w base neg (takeWhile (is_base_digit base) s),
      dropWhile (is_base_digit base) s)"

definition num_get :: "nat \<Rightarrow> bool \<Rightarrow> nat \<Rightarrow> string \<Rightarrow> int option \<times> string" where
  [eval_simps]: "num_get base sg w s =
     (case read_sign s of (neg, s1) \<Rightarrow> num_body base sg w neg (skip_0x base s1))"

text \<open>
  \<open>utils::StrToNumericNoThrow<NumType>\<close>: \<open>w\<close> is the width of the type and \<open>sg\<close> whether it is
  signed.  The sign test looks at the first byte of the whole string, \<open>ss.str()\<close>, also when
  blanks have been skipped before it.
\<close>

definition StrToNumericNoThrow :: "bool \<Rightarrow> nat \<Rightarrow> string \<Rightarrow> int option" where
  [eval_simps]: "StrToNumericNoThrow sg w str =
     (if str = [] \<or> (\<not> sg \<and> hd str = CHR ''-'') then None
      else case num_get 10 sg w (dropWhile isspace str) of
        (None, _) \<Rightarrow> None
      | (Some num, rest) \<Rightarrow> if dropWhile isspace rest = [] then Some num else None)"

text \<open>
  \<open>utils::StrToNumeric<NumType>\<close>: the same with \<open>std::invalid_argument\<close>; the function returns
  \<open>int\<close> whatever the type it parses, so the value is cut to 32 bits.
\<close>

definition to_int32 :: "int \<Rightarrow> int" where
  [eval_simps]: "to_int32 v = (v + 2 ^ 31) mod 2 ^ 32 - 2 ^ 31"

definition StrToNumeric :: "bool \<Rightarrow> nat \<Rightarrow> string \<Rightarrow> int outcome" where
  [eval_simps]: "StrToNumeric sg w str =
     (case StrToNumericNoThrow sg w str of
        None \<Rightarrow> Inl Invalid_argument
      | Some num \<Rightarrow> Inr (to_int32 num))"

text \<open>\<open>utils::HexToUnsignedNumericNoThrow<NumType>\<close> for an unsigned type of width \<open>w\<close>.\<close>

definition HexToUnsignedNumericNoThrow :: "nat \<Rightarrow> string \<Rightarrow> nat option" where
  [eval_simps]: "HexToUnsignedNumericNoThrow w str =
     (if str = [] then None
      else if \<not> isxdigit (hd str) then None
      else case num_get 16 False w str of
        (None, _) \<Rightarrow> None
      | (Some num, rest) \<Rightarrow> if rest = [] then Some (nat num) else None)"

section \<open>Printing\<close>

definition digit_char :: "nat \<Rightarrow> char" where
  [eval_simps]: "digit_char d = (if d < 10 then char_of (48 + d) else char_of (55 + d))"

fun print_base :: "nat \<Rightarrow> nat \<Rightarrow> string" where
  "print_base b n =
     (if b < 2 \<or> n < b then [digit_char n]
      else print_base b (n div b) @ [digit_char (n mod b)])"

declare print_base.simps [simp del]

text \<open>\<open>utils::NumericToString\<close>: \<open>ss << num\<close>.\<close>

definition NumericToString :: "int \<Rightarrow> string" where
  [eval_simps]: "NumericToString num =
     (if num < 0 then CHR ''-'' # print_base 10 (nat (- num)) else print_base 10 (nat num))"

text \<open>\<open>utils::NumericToHexStr\<close>: upper case, padded with \<open>0\<close> to a width of two.\<close>

definition NumericToHexStr :: "nat \<Rightarrow> string" where
  [eval_simps]: "NumericToHexStr c =
     (let s = print_base 16 c in replicate (2 - length s) (CHR ''0'') @ s)"

section \<open>Printing and reading back\<close>

lemma code_digit_char:
  "d < 16 \<Longrightarrow> code (digit_char d) = (if d < 10 then 48 + d else 55 + d)"
  by (simp add: digit_char_def code_char_of)

lemma digit_val_digit_char [simp]: "d < 16 \<Longrightarrow> digit_val (digit_char d) = d"
  by (simp add: digit_val_def isdigit_def code_digit_char)

lemma digit_char_0: "digit_char 0 = CHR ''0''"
  by code_simp

lemma isxdigit_digit_char: "d < 16 \<Longrightarrow> isxdigit (digit_char d)"
  by (simp add: ctype_defs code_digit_char)

lemma isdigit_digit_char: "d < 10 \<Longrightarrow> isdigit (digit_char d)"
  by (simp add: ctype_defs code_digit_char)

lemma print_base_nonempty [simp]: "print_base b n \<noteq> []"
  by (simp add: print_base.simps [of b n])

lemma num_of_print_base:
  "2 \<le> b \<Longrightarrow> b \<le> 16 \<Longrightarrow> num_of b (print_base b n) = n"
proof (induction b n rule: print_base.induct)
  case (1 b n)
  show ?case
  proof (cases "n < b")
    case True
    with 1 show ?thesis
      using num_of_snoc [of b "[]"] by (simp add: print_base.simps [of b n])
  next
    case False
    have "n mod b < b" using 1 by simp
    with 1 have "n mod b < 16" by linarith
    with False 1 show ?thesis by (simp add: print_base.simps [of b n])
  qed
qed

lemma print_base_digits:
  "2 \<le> b \<Longrightarrow> b \<le> 16 \<Longrightarrow> list_all (\<lambda>c. \<exists>d<b. c = digit_char d) (print_base b n)"
proof (induction b n rule: print_base.induct)
  case (1 b n)
  then have "n mod b < b" by simp
  with 1 show ?case by (subst print_base.simps) (auto simp: not_less intro: exI [of _ "n mod b"])
qed

lemma print_base_isdigit: "list_all isdigit (print_base 10 n)"
  using print_base_digits [of 10 n] by (auto simp: list_all_iff isdigit_digit_char)

lemma isdigit_not_special:
  "isdigit c \<Longrightarrow> \<not> isspace c \<and> c \<noteq> CHR ''-'' \<and> c \<noteq> CHR ''+'' \<and> is_base_digit 10 c"
  by (auto simp: ctype_defs is_base_digit_def code_def)

lemma takeWhile_all: "list_all P xs \<Longrightarrow> takeWhile P xs = xs \<and> dropWhile P xs = []"
  by (simp add: list_all_iff)

lemma num_get_dec:
  assumes "list_all isdigit ds" and "ds \<noteq> []"
  shows "num_get 10 sg w ds
      = (if num_of 10 ds < 2 ^ (if sg then w - 1 else w) then Some (int (num_of 10 ds)) else None, [])"
proof -
  have "isdigit (hd ds)" using assms by (cases ds) auto
  then have h: "hd ds \<noteq> CHR ''-''" "hd ds \<noteq> CHR ''+''"
    by (auto dest: isdigit_not_special)
  have "list_all (is_base_digit 10) ds"
    using assms(1) by (auto simp: list_all_iff dest: isdigit_not_special)
  with h assms(2) show ?thesis
    by (cases ds) (simp_all add: num_get_def num_body_def num_digits_def num_store_def
        read_sign_def takeWhile_all del: takeWhile.simps dropWhile.simps)
qed

lemma StrToNumericNoThrow_digits:
  assumes "list_all isdigit ds" and "ds \<noteq> []"
  shows "StrToNumericNoThrow sg w ds
      = (if num_of 10 ds < 2 ^ (if sg then w - 1 else w) then Some (int (num_of 10 ds)) else None)"
proof -
  have "isdigit (hd ds)" using assms by (cases ds) auto
  then have "\<not> isspace (hd ds)" and m: "hd ds \<noteq> CHR ''-''"
    by (auto dest: isdigit_not_special)
  then have "dropWhile isspace ds = ds" using assms(2) by (cases ds) auto
  then show ?thesis
    using m assms by (simp add: StrToNumericNoThrow_def num_get_dec)
qed

text \<open>A length printed with \<open>NumericToString\<close> (the \<open>Content-Length\<close> headers of the responses)
  reads back as the same number with the parser used on request headers, for every value of
  an unsigned type of width \<open>w\<close>.
\<close>

lemma StrToNumeric_print:
  "n < 2 ^ w \<Longrightarrow> StrToNumericNoThrow False w (NumericToString (int n)) = Some (int n)"
  by (simp add: NumericToString_def StrToNumericNoThrow_digits print_base_isdigit
      num_of_print_base)

lemma StrToNumeric_print_example:
  "StrToNumericNoThrow False 16 (NumericToString (int 8080)) = Some (int 8080)"
  by (rule StrToNumeric_print) simp

section \<open>Hexadecimal numbers\<close>

lemma HexToUnsigned_eq:
  assumes "str \<noteq> []" and "list_all isxdigit str"
  shows "HexToUnsignedNumericNoThrow w str
      = (if num_of 16 str < 2 ^ w then Some (num_of 16 str) else None)"
proof -
  have x: "isxdigit (hd str)" using assms by (cases str) auto
  then have h: "hd str \<noteq> CHR ''-''" "hd str \<noteq> CHR ''+''"
    by (auto simp: ctype_defs code_def)
  have nx: "\<not> isxdigit (CHR ''x'')" "\<not> isxdigit (CHR ''X'')"
    by (simp_all add: ctype_defs code_def)
  have p: "skip_0x 16 str = str"
    using assms(2) nx by (auto simp: skip_0x_def split: list.splits)
  have "is_base_digit 16 = isxdigit" by (simp add: is_base_digit_def fun_eq_iff)
  with assms x h p show ?thesis
    by (cases str) (simp_all add: HexToUnsignedNumericNoThrow_def num_get_def num_body_def
        num_digits_def num_store_def read_sign_def takeWhile_all
        del: takeWhile.simps dropWhile.simps)
qed

lemma print_base_isxdigit: "list_all isxdigit (print_base 16 n)"
  using print_base_digits [of 16 n] by (auto simp: list_all_iff isxdigit_digit_char)

lemma HexToUnsigned_print:
  "n < 2 ^ w \<Longrightarrow> HexToUnsignedNumericNoThrow w (print_base 16 n) = Some n"
  by (simp add: HexToUnsigned_eq print_base_isxdigit num_of_print_base)

lemma NumericToHexStr_byte:
  "n < 256 \<Longrightarrow> NumericToHexStr n = [digit_char (n div 16), digit_char (n mod 16)]"
  using less_mult_imp_div_less [of n 16 16]
  by (simp add: NumericToHexStr_def print_base.simps [of 16 n] print_base.simps [of 16 "n div 16"]
      digit_char_0)

lemma HexToUnsigned_byte:
  assumes "n < 256" "8 \<le> w"
  shows "HexToUnsignedNumericNoThrow w (NumericToHexStr n) = Some n"
proof -
  have "(2::nat) ^ 8 \<le> 2 ^ w" using assms(2) by (intro power_increasing) auto
  moreover have "num_of 16 [digit_char (n div 16), digit_char (n mod 16)] = n"
    using assms(1) num_of_snoc [of 16 "[digit_char (n div 16)]"] num_of_snoc [of 16 "[]"]
    by simp
  ultimately show ?thesis
    using assms(1) by (simp add: NumericToHexStr_byte HexToUnsigned_eq isxdigit_digit_char)
qed

end
