(* ===== verification/Maybe.thy ===== *)
theory Maybe
  imports Prelude
begin

text \<open>
  \<open>utils::maybe<T>\<close> (\<open>src/utils/maybe.h\<close>): a flag and a value that is always there.
  \<open>reset()\<close> clears the flag and keeps the value, and \<open>operator==\<close> compares both, so two unset
  values can differ; the record keeps them apart.  Where only \<open>ok()\<close> and the value of a set
  \<open>maybe\<close> are observed the other theories use \<open>option\<close>, which is what \<open>maybe_opt\<close> reads.
\<close>

record 'a maybe =
  maybe_ok :: bool
  maybe_val :: 'a

text \<open>The three constructors; the value of an unset one is the default value of the type.\<close>

definition maybe_unset :: "'a \<Rightarrow> 'a maybe" where
  [eval_simps]: "maybe_unset dflt = \<lparr>maybe_ok = False, maybe_val = dflt\<rparr>"

definition maybe_of :: "'a \<Rightarrow> 'a maybe" where
  [eval_simps]: "maybe_of v = \<lparr>maybe_ok = True, maybe_val = v\<rparr>"

text \<open>\<open>value()\<close>, \<open>operator*\<close> and \<open>operator->\<close> throw \<open>std::runtime_error\<close> on an unset value.\<close>

definition maybe_value :: "'a maybe \<Rightarrow> 'a outcome" where
  [eval_simps]: "maybe_value m = (if \<not> maybe_ok m then Inl Runtime_error else Inr (maybe_val m))"

definition maybe_eq :: "'a maybe \<Rightarrow> 'a maybe \<Rightarrow> bool" where
  [eval_simps]: "maybe_eq l r \<longleftrightarrow> maybe_ok l = maybe_ok r \<and> maybe_val l = maybe_val r"

definition maybe_reset :: "'a maybe \<Rightarrow> 'a maybe" where
  [eval_simps]: "maybe_reset m = m\<lparr>maybe_ok := False\<rparr>"

definition maybe_reset_to :: "'a \<Rightarrow> 'a maybe \<Rightarrow> 'a maybe" where
  [eval_simps]: "maybe_reset_to v m = m\<lparr>maybe_ok := True, maybe_val := v\<rparr>"

definition maybe_opt :: "'a maybe \<Rightarrow> 'a option" where
  [eval_simps]: "maybe_opt m = (if maybe_ok m then Some (maybe_val m) else None)"

lemma maybe_simps [simp]:
  "\<not> maybe_ok (maybe_unset d)" "maybe_ok (maybe_of v)" "maybe_val (maybe_of v) = v"
  "\<not> maybe_ok (maybe_reset m)" "maybe_val (maybe_reset m) = maybe_val m"
  "maybe_ok (maybe_reset_to v m)" "maybe_val (maybe_reset_to v m) = v"
  by (simp_all add: maybe_unset_def maybe_of_def maybe_reset_def maybe_reset_to_def)

lemma maybe_eq_iff: "maybe_eq l r \<longleftrightarrow> l = r"
  by (cases l, cases r) (simp add: maybe_eq_def)

lemma maybe_opt_simps [simp]:
  "maybe_opt (maybe_unset d) = None" "maybe_opt (maybe_of v) = Some v"
  "maybe_opt (maybe_reset m) = None" "maybe_opt (maybe_reset_to v m) = Some v"
  by (simp_all add: maybe_opt_def)

lemma maybe_value_opt:
  "maybe_value m = (case maybe_opt m of None \<Rightarrow> Inl Runtime_error | Some v \<Rightarrow> Inr v)"
  by (simp add: maybe_value_def maybe_opt_def)

end
