(* ===== verification/Http.thy ===== *)
theory Http
  imports NumericUtils Maybe
begin

text \<open>
  \<open>src/http/http.h\<close> and \<open>http.cpp\<close>: methods, versions, their names, and percent encoding.
  Response codes are the enumerators of \<open>src/http/http_response_codes.src\<close>, as integers, since
  the code also casts any \<open>int\<close> to \<open>ResponseCode\<close>.
\<close>

section \<open>Limits\<close>

definition RQ_LINE_LEN_LIMIT :: nat where [eval_simps]: "RQ_LINE_LEN_LIMIT = 8192"
definition RQ_TARGET_LEN_LIMIT :: nat where [eval_simps]: "RQ_TARGET_LEN_LIMIT = 8192"
definition RQ_HEADER_SECTION_LIMIT :: nat where [eval_simps]: "RQ_HEADER_SECTION_LIMIT = 32768"
definition RQ_MAX_HEADER_COUNT :: nat where [eval_simps]: "RQ_MAX_HEADER_COUNT = 100"

section \<open>Methods and versions\<close>

datatype http_method = HTTP_NO_METHOD | HTTP_GET | HTTP_POST | HTTP_DELETE

datatype http_version = HTTP_NO_VERSION | HTTP_0_9 | HTTP_1_0 | HTTP_1_1 | HTTP_2 | HTTP_3

text \<open>The number of an enumerator, as a stream prints it.\<close>

fun method_number :: "http_method \<Rightarrow> int" where
  "method_number HTTP_NO_METHOD = 0"
| "method_number HTTP_GET = 1"
| "method_number HTTP_POST = 2"
| "method_number HTTP_DELETE = 3"

fun HttpVerToStr :: "http_version \<Rightarrow> string" where
  "HttpVerToStr HTTP_0_9 = ''HTTP/0.9''"
| "HttpVerToStr HTTP_1_0 = ''HTTP/1.0''"
| "HttpVerToStr HTTP_1_1 = ''HTTP/1.1''"
| "HttpVerToStr HTTP_2 = ''HTTP/2''"
| "HttpVerToStr HTTP_3 = ''HTTP/3''"
| "HttpVerToStr HTTP_NO_VERSION = ''UNKNOWN VERSION''"

fun HttpMethodToStr :: "http_method \<Rightarrow> string" where
  "HttpMethodToStr HTTP_GET = ''GET''"
| "HttpMethodToStr HTTP_POST = ''POST''"
| "HttpMethodToStr HTTP_DELETE = ''DELETE''"
| "HttpMethodToStr HTTP_NO_METHOD = ''UNKNOWN METHOD''"

definition HttpMethodFromStr :: "string \<Rightarrow> http_method option" where
  [eval_simps]: "HttpMethodFromStr raw =
     (if raw = ''GET'' then Some HTTP_GET
      else if raw = ''POST'' then Some HTTP_POST
      else if raw = ''DELETE'' then Some HTTP_DELETE
      else None)"

definition HttpVersionFromStr :: "string \<Rightarrow> http_version option" where
  [eval_simps]: "HttpVersionFromStr raw =
     (if raw = ''HTTP/0.9'' then Some HTTP_0_9
      else if raw = ''HTTP/1.0'' then Some HTTP_1_0
      else if raw = ''HTTP/1.1'' then Some HTTP_1_1
      else if raw = ''HTTP/2'' then Some HTTP_2
      else if raw = ''HTTP/3'' then Some HTTP_3
      else None)"

lemma HttpMethodFromStr_iff:
  "HttpMethodFromStr raw = Some m \<longleftrightarrow> m \<noteq> HTTP_NO_METHOD \<and> raw = HttpMethodToStr m"
  by (cases m) (auto simp: HttpMethodFromStr_def)

lemma HttpVersionFromStr_iff:
  "HttpVersionFromStr raw = Some v \<longleftrightarrow> v \<noteq> HTTP_NO_VERSION \<and> raw = HttpVerToStr v"
  by (cases v) (auto simp: HttpVersionFromStr_def)

section \<open>Response codes\<close>

type_synonym response_code = int

abbreviation HTTP_OK :: response_code where "HTTP_OK \<equiv> 200"
abbreviation HTTP_CREATED :: response_code where "HTTP_CREATED \<equiv> 201"
abbreviation HTTP_NO_CONTENT :: response_code where "HTTP_NO_CONTENT \<equiv> 204"
abbreviation HTTP_MOVED_PERMANENTLY :: response_code where "HTTP_MOVED_PERMANENTLY \<equiv> 301"
abbreviation HTTP_BAD_REQUEST :: response_code where "HTTP_BAD_REQUEST \<equiv> 400"
abbreviation HTTP_FORBIDDEN :: response_code where "HTTP_FORBIDDEN \<equiv> 403"
abbreviation HTTP_NOT_FOUND :: response_code where "HTTP_NOT_FOUND \<equiv> 404"
abbreviation HTTP_METHOD_NOT_ALLOWED :: response_code where "HTTP_METHOD_NOT_ALLOWED \<equiv> 405"
abbreviation HTTP_CONFLICT :: response_code where "HTTP_CONFLICT \<equiv> 409"
abbreviation HTTP_LENGTH_REQUIRED :: response_code where "HTTP_LENGTH_REQUIRED \<equiv> 411"
abbreviation HTTP_PAYLOAD_TOO_LARGE :: response_code where "HTTP_PAYLOAD_TOO_LARGE \<equiv> 413"
abbreviation HTTP_URI_TOO_LONG :: response_code where "HTTP_URI_TOO_LONG \<equiv> 414"
abbreviation HTTP_REQUEST_HEADER_FIELDS_TOO_LARGE :: response_code where
  "HTTP_REQUEST_HEADER_FIELDS_TOO_LARGE \<equiv> 431"
abbreviation HTTP_INTERNAL_SERVER_ERROR :: response_code where
  "HTTP_INTERNAL_SERVER_ERROR \<equiv> 500"
abbreviation HTTP_NOT_IMPLEMENTED :: response_code where "HTTP_NOT_IMPLEMENTED \<equiv> 501"

section \<open>Percent encoding\<close>

definition kUnreserved :: string where
  [eval_simps]: "kUnreserved = ''ABCDEFGHIJKLMNOPQRSTUVWXYZabcdefghijklmnopqrstuvwxyz0123456789-._~''"

definition kSubDelims :: string where
  [eval_simps]: "kSubDelims = [CHR ''!'', CHR ''$'', CHR ''&'', CHR 0x27, CHR ''('', CHR '')'', CHR ''*'',
     CHR ''+'', CHR '','', CHR '';'', CHR ''='']"

text \<open>
  \<open>PercentDecode\<close>: the loop over the bytes, as recursion over the rest of the string.  The test
  \<open>i + 2 >= str.size()\<close> is that fewer than two bytes follow the \<open>%\<close>.  \<open>strchr\<close> on the
  \<open>dont_decode_set\<close> finds the terminator, so \<open>%00\<close> stays encoded whenever a set is given.
\<close>

fun PercentDecode :: "string \<Rightarrow> string option \<Rightarrow> string option" where
  "PercentDecode [] dont = Some []"
| "PercentDecode (c # cs) dont =
     (if c = CHR ''%'' then
        (case cs of
           h # l # rest \<Rightarrow>
             (case HexToUnsignedNumericNoThrow 16 [h, l] of
                None \<Rightarrow> None
              | Some ascii \<Rightarrow>
                  (case PercentDecode rest dont of
                     None \<Rightarrow> None
                   | Some d \<Rightarrow>
                       Some (if (case dont of None \<Rightarrow> False
                                  | Some ks \<Rightarrow> in_cstr (char_of ascii) ks)
                             then CHR ''%'' # h # l # d
                             else char_of ascii # d)))
         | _ \<Rightarrow> None)
      else (case PercentDecode cs dont of None \<Rightarrow> None | Some d \<Rightarrow> Some (c # d)))"

definition kept_by_encode :: "string option \<Rightarrow> char \<Rightarrow> bool" where
  [eval_simps]: "kept_by_encode dont c \<longleftrightarrow>
     in_cstr c kUnreserved \<or> (case dont of None \<Rightarrow> False | Some ks \<Rightarrow> in_cstr c ks)"

definition PercentEncode :: "string \<Rightarrow> string option \<Rightarrow> string" where
  "PercentEncode str dont =
     concat (map (\<lambda>c. if kept_by_encode dont c then [c]
                      else CHR ''%'' # NumericToHexStr (code c)) str)"

lemma PercentEncode_simps [simp]:
  "PercentEncode [] dont = []"
  "PercentEncode (c # cs) dont =
     (if kept_by_encode dont c then [c] else CHR ''%'' # NumericToHexStr (code c))
       @ PercentEncode cs dont"
  by (simp_all add: PercentEncode_def)

lemma percent_not_unreserved: "CHR ''%'' \<notin> set kUnreserved"
  by (simp add: kUnreserved_def)

lemma kept_by_encode_percent:
  "(case dont of None \<Rightarrow> True | Some ks \<Rightarrow> CHR ''%'' \<notin> set ks) \<Longrightarrow>
     \<not> kept_by_encode dont (CHR ''%'')"
  by (auto simp: kept_by_encode_def in_cstr_def percent_not_unreserved split: option.splits)

text \<open>Decoding undoes encoding.  A string encoded with the bytes of \<open>dont\<close> left as they are is
  decoded to itself, also by a decoder that leaves the bytes of another set encoded, as long
  as that decoder leaves only bytes the encoder never encodes, and \<open>%\<close> itself is encoded.
\<close>

lemma percent_roundtrip:
  assumes "case dont of None \<Rightarrow> True | Some ks \<Rightarrow> CHR ''%'' \<notin> set ks"
    and "case dec of None \<Rightarrow> True | Some ks \<Rightarrow> \<forall>c. in_cstr c ks \<longrightarrow> kept_by_encode dont c"
  shows "PercentDecode (PercentEncode s dont) dec = Some s"
proof (induction s)
  case (Cons c s)
  show ?case
  proof (cases "kept_by_encode dont c")
    case True
    then have "c \<noteq> CHR ''%''" using kept_by_encode_percent [OF assms(1)] by auto
    with True Cons show ?thesis by simp
  next
    case False
    have "HexToUnsignedNumericNoThrow 16
        [digit_char (code c div 16), digit_char (code c mod 16)] = Some (code c)"
      using HexToUnsigned_byte [of "code c" 16] code_less [of c]
      by (simp add: NumericToHexStr_byte)
    moreover have "\<not> (case dec of None \<Rightarrow> False | Some ks \<Rightarrow> in_cstr c ks)"
      using assms(2) False by (auto split: option.splits)
    ultimately show ?thesis
      using False Cons code_less [of c]
      by (simp add: NumericToHexStr_byte split: option.splits)
  qed
qed simp

lemma percent_roundtrip_example:
  "PercentDecode (PercentEncode ''/a b'' (Some ''/'')) (Some ''/'') = Some ''/a b''"
  by (rule percent_roundtrip) (simp_all add: kept_by_encode_def)

end
