(* ===== verification/RqTarget.thy ===== *)
theory RqTarget
  imports Http
begin

text \<open>
  \<open>src/http/RqTarget.h\<close> and \<open>RqTarget.cpp\<close>: parsing, validation and normalisation of the
  request target.  A position in the raw target is \<open>Some p\<close>, or \<open>None\<close> for \<open>npos\<close>.  The
  validity flags are kept as the bits of a 32-bit word.
\<close>

unbundle bit_operations_syntax

section \<open>State\<close>

type_synonym flags = "32 word"

definition RQ_TARGET_GOOD :: flags where [eval_simps]: "RQ_TARGET_GOOD = 0"
definition RQ_TARGET_TOO_LONG :: flags where [eval_simps]: "RQ_TARGET_TOO_LONG = 8"
definition RQ_TARGET_BAD_SCHEME :: flags where [eval_simps]: "RQ_TARGET_BAD_SCHEME = 16"
definition RQ_TARGET_HAS_USER_INFO :: flags where [eval_simps]: "RQ_TARGET_HAS_USER_INFO = 32"
definition RQ_TARGET_BAD_HOST :: flags where [eval_simps]: "RQ_TARGET_BAD_HOST = 64"
definition RQ_TARGET_BAD_PORT :: flags where [eval_simps]: "RQ_TARGET_BAD_PORT = 128"
definition RQ_TARGET_BAD_PATH :: flags where [eval_simps]: "RQ_TARGET_BAD_PATH = 256"
definition RQ_TARGET_BAD_QUERY :: flags where [eval_simps]: "RQ_TARGET_BAD_QUERY = 512"
definition RQ_TARGET_HAS_FRAGMENT :: flags where [eval_simps]: "RQ_TARGET_HAS_FRAGMENT = 1024"

lemmas rq_target_flags = RQ_TARGET_GOOD_def RQ_TARGET_TOO_LONG_def RQ_TARGET_BAD_SCHEME_def
  RQ_TARGET_HAS_USER_INFO_def RQ_TARGET_BAD_HOST_def RQ_TARGET_BAD_PORT_def
  RQ_TARGET_BAD_PATH_def RQ_TARGET_BAD_QUERY_def RQ_TARGET_HAS_FRAGMENT_def

record rq_target =
  validity_state :: flags
  rt_scheme :: "string maybe"
  rt_user_info :: "string maybe"
  rt_host :: "string maybe"
  rt_port :: "string maybe"
  rt_path :: "string maybe"
  rt_query :: "string maybe"
  rt_fragment :: "string maybe"

definition RqTarget_empty :: rq_target where
  [eval_simps]: "RqTarget_empty = \<lparr>validity_state = RQ_TARGET_GOOD, rt_scheme = maybe_unset [],
     rt_user_info = maybe_unset [], rt_host = maybe_unset [], rt_port = maybe_unset [],
     rt_path = maybe_unset [], rt_query = maybe_unset [], rt_fragment = maybe_unset []\<rparr>"

definition add_flag :: "flags \<Rightarrow> rq_target \<Rightarrow> rq_target" where
  [eval_simps]: "add_flag f t = t\<lparr>validity_state := validity_state t OR f\<rparr>"

definition Good :: "rq_target \<Rightarrow> bool" where
  [eval_simps]: "Good t \<longleftrightarrow> validity_state t = RQ_TARGET_GOOD"

text \<open>The accessors \<open>path()\<close>, \<open>host()\<close>, \<dots>: the value, or the empty string when unset.\<close>

definition get_component :: "string maybe \<Rightarrow> string" where
  [eval_simps]: "get_component m = (if maybe_ok m then maybe_val m else [])"

section \<open>Comparison and printing\<close>

definition RqTarget_eq :: "rq_target \<Rightarrow> rq_target \<Rightarrow> bool" where
  [eval_simps]: "RqTarget_eq l r \<longleftrightarrow>
     maybe_eq (rt_scheme l) (rt_scheme r) \<and> maybe_eq (rt_user_info l) (rt_user_info r) \<and>
     maybe_eq (rt_host l) (rt_host r) \<and> maybe_eq (rt_port l) (rt_port r) \<and>
     maybe_eq (rt_path l) (rt_path r) \<and> maybe_eq (rt_query l) (rt_query r) \<and>
     maybe_eq (rt_fragment l) (rt_fragment r)"

definition ToStr :: "rq_target \<Rightarrow> string" where
  [eval_simps]: "ToStr t =
     (if maybe_ok (rt_scheme t) then maybe_val (rt_scheme t) @ ''://'' else []) @
     (if maybe_ok (rt_user_info t) then maybe_val (rt_user_info t) @ ''@'' else []) @
     (if maybe_ok (rt_host t) then maybe_val (rt_host t) else []) @
     (if maybe_ok (rt_port t) then '':'' @ maybe_val (rt_port t) else []) @
     (if maybe_ok (rt_path t) then PercentEncode (maybe_val (rt_path t)) (Some ''/'') else []) @
     (if maybe_ok (rt_query t) then ''?'' @ PercentEncode (maybe_val (rt_query t)) (Some ''&='')
      else []) @
     (if maybe_ok (rt_fragment t) then ''#'' @ maybe_val (rt_fragment t) else [])"

text \<open>
  \<open>AddTrailingSlashToPath\<close>: the last byte of an empty path would be read out of bounds.
\<close>

definition AddTrailingSlashToPath :: "rq_target \<Rightarrow> rq_target outcome" where
  [eval_simps]: "AddTrailingSlashToPath t =
     (if \<not> maybe_ok (rt_path t) then Inr t
      else if maybe_val (rt_path t) = [] then Inl Undefined_behaviour
      else if last (maybe_val (rt_path t)) \<noteq> CHR ''/'' then
        Inr (t\<lparr>rt_path := maybe_of (maybe_val (rt_path t) @ ''/'')\<rparr>)
      else Inr t)"

section \<open>Parsing\<close>

definition in_range :: "string \<Rightarrow> nat option \<Rightarrow> bool" where
  [eval_simps]: "in_range raw pos = (case pos of None \<Rightarrow> False | Some p \<Rightarrow> p < length raw)"

definition at_char :: "string \<Rightarrow> nat option \<Rightarrow> char \<Rightarrow> bool" where
  [eval_simps]: "at_char raw pos c = (case pos of None \<Rightarrow> False | Some p \<Rightarrow> p < length raw \<and> raw ! p = c)"

definition ParseScheme :: "string \<Rightarrow> rq_target \<times> nat option \<Rightarrow> rq_target \<times> nat option" where
  [eval_simps]: "ParseScheme raw = (\<lambda>(t, pos).
     case str_find raw ''://'' 0 of
       None \<Rightarrow> (t\<lparr>rt_scheme := maybe_reset (rt_scheme t)\<rparr>, pos)
     | Some end_pos \<Rightarrow>
         (t\<lparr>rt_scheme := maybe_of (ToLowerCase (cut 0 end_pos raw))\<rparr>, Some (end_pos + 3)))"

definition ParseUserInfo :: "string \<Rightarrow> rq_target \<times> nat option \<Rightarrow> rq_target \<times> nat option" where
  [eval_simps]: "ParseUserInfo raw = (\<lambda>(t, pos).
     if \<not> maybe_ok (rt_scheme t) \<or> \<not> in_range raw pos then (t, pos)
     else let start_pos = the pos in
       case str_find raw ''@'' start_pos of
         None \<Rightarrow> (t\<lparr>rt_user_info := maybe_reset (rt_user_info t)\<rparr>, pos)
       | Some end_pos \<Rightarrow>
           (t\<lparr>rt_user_info := maybe_of (cut start_pos (end_pos - start_pos) raw)\<rparr>,
            Some (end_pos + 1)))"

definition ParseHost :: "string \<Rightarrow> rq_target \<times> nat option \<Rightarrow> rq_target \<times> nat option" where
  [eval_simps]: "ParseHost raw = (\<lambda>(t, pos).
     if \<not> maybe_ok (rt_scheme t) \<or> \<not> in_range raw pos then (t, pos)
     else let start_pos = the pos in
       case str_find_first_of raw '':/'' start_pos of
         None \<Rightarrow> (t\<lparr>rt_host := maybe_of (ToLowerCase (drop start_pos raw))\<rparr>, None)
       | Some p \<Rightarrow>
           (t\<lparr>rt_host := maybe_of (ToLowerCase (cut start_pos (p - start_pos) raw))\<rparr>, Some p))"

definition ParsePort :: "string \<Rightarrow> rq_target \<times> nat option \<Rightarrow> rq_target \<times> nat option" where
  [eval_simps]: "ParsePort raw = (\<lambda>(t, pos).
     if \<not> maybe_ok (rt_host t) \<or> \<not> at_char raw pos (CHR '':'') then (t, pos)
     else let start_pos = the pos + 1 in
       case str_find_first_of raw ''/?#'' start_pos of
         None \<Rightarrow> (t\<lparr>rt_port := maybe_of (drop start_pos raw)\<rparr>, None)
       | Some p \<Rightarrow> (t\<lparr>rt_port := maybe_of (cut start_pos (p - start_pos) raw)\<rparr>, Some p))"

text \<open>\<open>ParsePath_\<close> overwrites the validity state instead of adding a flag to it.\<close>

definition ParsePath :: "string \<Rightarrow> rq_target \<times> nat option \<Rightarrow> rq_target \<times> nat option" where
  [eval_simps]: "ParsePath raw = (\<lambda>(t, pos).
     if \<not> at_char raw pos (CHR ''/'') then (t\<lparr>validity_state := RQ_TARGET_BAD_PATH\<rparr>, pos)
     else let start_pos = the pos in
       case str_find_first_of raw ''?#'' start_pos of
         None \<Rightarrow> (t\<lparr>rt_path := maybe_of (drop start_pos raw)\<rparr>, None)
       | Some p \<Rightarrow> (t\<lparr>rt_path := maybe_of (cut start_pos (p - start_pos) raw)\<rparr>, Some p))"

text \<open>
  \<open>ParseQuery_\<close> has no return after the branch for \<open>npos\<close>; the assignment that follows takes
  the rest of the string again.
\<close>

definition ParseQuery :: "string \<Rightarrow> rq_target \<times> nat option \<Rightarrow> rq_target \<times> nat option" where
  [eval_simps]: "ParseQuery raw = (\<lambda>(t, pos).
     if \<not> at_char raw pos (CHR ''?'') then (t, pos)
     else let start_pos = the pos + 1 in
       case str_find raw ''#'' start_pos of
         None \<Rightarrow> (t\<lparr>rt_query := maybe_of (drop start_pos raw)\<rparr>, None)
       | Some p \<Rightarrow> (t\<lparr>rt_query := maybe_of (cut start_pos (p - start_pos) raw)\<rparr>, Some p))"

definition ParseFragment :: "string \<Rightarrow> rq_target \<times> nat option \<Rightarrow> rq_target \<times> nat option" where
  [eval_simps]: "ParseFragment raw = (\<lambda>(t, pos).
     if \<not> at_char raw pos (CHR ''#'') then (t, pos)
     else (t\<lparr>rt_fragment := maybe_of (drop (the pos + 1) raw)\<rparr>, pos))"

section \<open>Validation\<close>

text \<open>\<open>IsEncodedOctet_\<close>: the argument is the rest of the C string.\<close>

definition IsEncodedOctet :: "string \<Rightarrow> bool" where
  [eval_simps]: "IsEncodedOctet str =
     (if c_at str 0 \<noteq> CHR ''%'' then False
      else if c_at str 1 = NUL \<or> c_at str 2 = NUL then False
      else if \<not> isxdigit (c_at str 1) \<or> \<not> isxdigit (c_at str 2) then False
      else True)"

definition ValidateScheme :: "rq_target \<Rightarrow> rq_target" where
  [eval_simps]: "ValidateScheme t =
     (if \<not> maybe_ok (rt_scheme t) then t
      else if maybe_val (rt_scheme t) \<noteq> ''http'' then add_flag RQ_TARGET_BAD_SCHEME t
      else t)"

text \<open>The loops over the bytes skip the two bytes after the \<open>%\<close> of an encoded octet.\<close>

function host_chars_ok :: "string \<Rightarrow> bool" where
  "host_chars_ok [] = True"
| "host_chars_ok (c # cs) =
     (if IsEncodedOctet (c # cs) then host_chars_ok (drop 2 cs)
      else if in_cstr c kUnreserved then host_chars_ok cs
      else False)"
  by pat_completeness auto
termination by (relation "measure length") auto

text \<open>
  \<open>ValidateHost_\<close> goes on after a bad byte; the flag it adds is the same each time, so the
  result is whether there is one.
\<close>

definition ValidateHost :: "rq_target \<Rightarrow> rq_target" where
  [eval_simps]: "ValidateHost t =
     (if \<not> maybe_ok (rt_host t) then t
      else if \<not> maybe_ok (rt_scheme t) then add_flag RQ_TARGET_BAD_SCHEME t
      else let t1 = (if maybe_val (rt_host t) = [] then add_flag RQ_TARGET_BAD_HOST t else t)
        in if host_chars_ok (maybe_val (rt_host t)) then t1
           else add_flag RQ_TARGET_BAD_HOST t1)"

definition ValidatePort :: "rq_target \<Rightarrow> rq_target" where
  [eval_simps]: "ValidatePort t =
     (if \<not> maybe_ok (rt_port t) then t
      else if \<not> maybe_ok (rt_scheme t) then add_flag RQ_TARGET_BAD_SCHEME t
      else if \<not> maybe_ok (rt_host t) then add_flag RQ_TARGET_BAD_HOST t
      else if maybe_val (rt_port t) = [] \<or>
          StrToNumericNoThrow False 16 (maybe_val (rt_port t)) = None
        then add_flag RQ_TARGET_BAD_PORT t
      else t)"

function path_chars_ok :: "nat \<Rightarrow> string \<Rightarrow> bool" where
  "path_chars_ok i [] = True"
| "path_chars_ok i (c # cs) =
     (if i = 1 \<and> c = CHR ''/'' then False
      else if IsEncodedOctet (c # cs) then path_chars_ok (i + 3) (drop 2 cs)
      else if in_cstr c kUnreserved \<or> in_cstr c kSubDelims \<or> in_cstr c '':@/'' then
        path_chars_ok (i + 1) cs
      else False)"
  by pat_completeness auto
termination by (relation "measure (\<lambda>(i, s). length s)") auto

text \<open>
  Every way out of \<open>ValidatePath_\<close> but the last adds the same flag, and a bad byte does not
  stop the loop, so the state afterwards depends only on whether some byte is bad.
\<close>

definition ValidatePath :: "rq_target \<Rightarrow> rq_target" where
  [eval_simps]: "ValidatePath t =
     (if \<not> maybe_ok (rt_path t) \<or> maybe_val (rt_path t) = [] \<or>
         hd (maybe_val (rt_path t)) \<noteq> CHR ''/''
      then add_flag RQ_TARGET_BAD_PATH t
      else if path_chars_ok 0 (maybe_val (rt_path t)) then t
      else add_flag RQ_TARGET_BAD_PATH t)"

function query_chars_ok :: "string \<Rightarrow> bool" where
  "query_chars_ok [] = True"
| "query_chars_ok (c # cs) =
     (if IsEncodedOctet (c # cs) then query_chars_ok (drop 2 cs)
      else if in_cstr c kUnreserved \<or> in_cstr c kSubDelims \<or> in_cstr c '':@/?'' then
        query_chars_ok cs
      else False)"
  by pat_completeness auto
termination by (relation "measure length") auto

definition ValidateQuery :: "rq_target \<Rightarrow> rq_target" where
  [eval_simps]: "ValidateQuery t =
     (if \<not> maybe_ok (rt_query t) then t
      else if query_chars_ok (maybe_val (rt_query t)) then t
      else add_flag RQ_TARGET_BAD_QUERY t)"

definition Validate :: "rq_target \<Rightarrow> rq_target" where
  [eval_simps]: "Validate t0 =
     (let t1 = (if maybe_ok (rt_scheme t0) then ValidateScheme t0 else t0);
          t2 = (if maybe_ok (rt_user_info t1) then add_flag RQ_TARGET_HAS_USER_INFO t1 else t1);
          t3 = (if maybe_ok (rt_host t2) then ValidateHost t2 else t2);
          t4 = (if maybe_ok (rt_port t3) then ValidatePort t3 else t3);
          t5 = (if maybe_ok (rt_path t4) then ValidatePath t4 else t4);
          t6 = (if maybe_ok (rt_query t5) then ValidateQuery t5 else t5)
      in if maybe_ok (rt_fragment t6) then add_flag RQ_TARGET_HAS_FRAGMENT t6 else t6)"

section \<open>Normalisation\<close>

fun ConvertEncodedHexToUpper :: "string \<Rightarrow> string" where
  "ConvertEncodedHexToUpper (c # d # e # cs) =
     (if c = CHR ''%'' then c # ConvertEncodedHexToUpper (toupper d # toupper e # cs)
      else c # ConvertEncodedHexToUpper (d # e # cs))"
| "ConvertEncodedHexToUpper cs = cs"

text \<open>The loop keeps the first byte, and drops a later slash that another slash follows.\<close>

fun collapse_rest :: "string \<Rightarrow> string" where
  "collapse_rest (c # d # cs) =
     (if c = CHR ''/'' \<and> d = CHR ''/'' then collapse_rest (d # cs)
      else c # collapse_rest (d # cs))"
| "collapse_rest cs = cs"

definition CollapseSlashes :: "string \<Rightarrow> string" where
  [eval_simps]: "CollapseSlashes str = (case str of [] \<Rightarrow> [] | c # cs \<Rightarrow> c # collapse_rest cs)"

definition RemoveLastSegment :: "string \<Rightarrow> string" where
  [eval_simps]: "RemoveLastSegment path =
     (case str_find_last_of path (CHR ''/'') of
        None \<Rightarrow> path
      | Some last_slash \<Rightarrow> take last_slash path)"

text \<open>\<open>MoveSegmentToOutput_\<close> returns the new input and the new output.\<close>

definition MoveSegmentToOutput :: "string \<Rightarrow> string \<Rightarrow> string \<times> string" where
  [eval_simps]: "MoveSegmentToOutput input output =
     (case str_find input ''/'' 1 of
        None \<Rightarrow> ([], output @ input)
      | Some end_of_segment \<Rightarrow>
          (drop end_of_segment input, output @ cut 0 end_of_segment input))"

text \<open>\<open>input.erase(pos, n)\<close>.\<close>

definition erase_at :: "nat \<Rightarrow> nat \<Rightarrow> string \<Rightarrow> string" where
  [eval_simps]: "erase_at pos n s = take pos s @ drop (pos + n) s"

text \<open>One turn of the loop: the input, the output and the directory level after it.\<close>

definition dot_segment_step :: "string \<times> string \<times> int \<Rightarrow> string \<times> string \<times> int" where
  [eval_simps]: "dot_segment_step = (\<lambda>(input, output, dir_level).
     if take 3 input = ''../'' then (erase_at 0 3 input, output, dir_level - 1)
     else if take 2 input = ''./'' then (erase_at 0 2 input, output, dir_level)
     else if input = ''/..'' \<or> take 4 input = ''/../'' then
       (erase_at 1 (if input = ''/..'' then 2 else 3) input, RemoveLastSegment output,
        dir_level - 1)
     else if take 3 input = ''/./'' then (erase_at 1 2 input, output, dir_level)
     else if input = ''/.'' then (erase_at 1 1 input, output, dir_level)
     else if input = ''.'' then ([], output, dir_level)
     else if input = ''..'' then ([], output, dir_level - 1)
     else (case MoveSegmentToOutput input output of (i, out) \<Rightarrow> (i, out, dir_level + 1)))"

lemma MoveSegmentToOutput_shorter:
  assumes "input \<noteq> []"
  shows "length (fst (MoveSegmentToOutput input output)) < length input"
  using assms by (cases input)
    (auto simp: MoveSegmentToOutput_def str_find_def split: option.splits)

lemma length_erase_at: "length (erase_at pos n s) = length s - min n (length s - pos)"
  by (auto simp: erase_at_def)

lemma dot_segment_step_shorter:
  assumes "input \<noteq> []"
  shows "length (fst (dot_segment_step (input, output, lvl))) < length input"
proof -
  have len: "length (erase_at p n input) < length input"
    if "take k input = pat" "length pat = k" "p < k" "0 < n" for p n k and pat :: string
  proof -
    have "k \<le> length input" using that by (metis length_take min_def nat_le_linear)
    with that show ?thesis by (simp add: length_erase_at)
  qed
  show ?thesis
    using assms len [of 3 "''../''" 0 3] len [of 2 "''./''" 0 2] len [of 4 "''/../''" 1 3]
      len [of 3 "''/./''" 1 2] MoveSegmentToOutput_shorter [OF assms, of "output"]
    by (auto simp: dot_segment_step_def length_erase_at split: prod.splits)
qed

function remove_dots :: "string \<times> string \<times> int \<Rightarrow> string option" where
  "remove_dots (input, output, dir_level) =
     (if input = [] then Some output
      else if snd (snd (dot_segment_step (input, output, dir_level))) < 0 then None
      else remove_dots (dot_segment_step (input, output, dir_level)))"
  by pat_completeness auto
termination
  by (relation "measure (\<lambda>(input, _, _). length input)")
    (use dot_segment_step_shorter in \<open>auto split: prod.splits simp: case_prod_beta\<close>)

declare remove_dots.simps [simp del]

definition RemoveDotSegments :: "string \<Rightarrow> string option" where
  [eval_simps]: "RemoveDotSegments str = remove_dots (str, [], 0)"

definition normalize_host :: "rq_target \<Rightarrow> rq_target" where
  [eval_simps]: "normalize_host t =
     (if \<not> maybe_ok (rt_host t) then t
      else let host = maybe_val (rt_host t);
               (h, t1) = (case PercentDecode host None of
                   Some decoded \<Rightarrow> (decoded, t)
                 | None \<Rightarrow> (host, add_flag RQ_TARGET_BAD_HOST t))
           in t1\<lparr>rt_host := maybe_of (ConvertEncodedHexToUpper h)\<rparr>)"

definition normalize_port :: "rq_target \<Rightarrow> rq_target outcome" where
  [eval_simps]: "normalize_port t =
     (if maybe_ok (rt_port t) \<and> maybe_val (rt_port t) = ''80'' then
        (case maybe_value (rt_scheme t) of
           Inl e \<Rightarrow> Inl e
         | Inr scheme \<Rightarrow>
             Inr (if scheme = ''http'' then t\<lparr>rt_port := maybe_reset (rt_port t)\<rparr> else t))
      else Inr t)"

definition normalize_path :: "rq_target \<Rightarrow> rq_target" where
  [eval_simps]: "normalize_path t =
     (if \<not> maybe_ok (rt_path t) then t
      else let path = maybe_val (rt_path t);
               (p, t1) = (case PercentDecode path (Some ''/'') of
                   Some decoded \<Rightarrow> (decoded, t)
                 | None \<Rightarrow> (path, add_flag RQ_TARGET_BAD_PATH t));
               p2 = CollapseSlashes (ConvertEncodedHexToUpper p)
           in case RemoveDotSegments p2 of
                Some q \<Rightarrow> t1\<lparr>rt_path := maybe_of q\<rparr>
              | None \<Rightarrow> (add_flag RQ_TARGET_BAD_PATH t1)\<lparr>rt_path := maybe_of p2\<rparr>)"

definition normalize_query :: "rq_target \<Rightarrow> rq_target" where
  [eval_simps]: "normalize_query t =
     (if \<not> maybe_ok (rt_query t) then t
      else let query = maybe_val (rt_query t);
               (q, t1) = (case PercentDecode query (Some ''&='') of
                   Some decoded \<Rightarrow> (decoded, t)
                 | None \<Rightarrow> (query, add_flag RQ_TARGET_BAD_QUERY t))
           in t1\<lparr>rt_query := maybe_of (ConvertEncodedHexToUpper q)\<rparr>)"

definition Normalize :: "rq_target \<Rightarrow> rq_target outcome" where
  [eval_simps]: "Normalize t =
     bind_outcome (normalize_port (normalize_host t))
       (\<lambda>t1. Inr (normalize_query (normalize_path t1)))"

section \<open>Constructors\<close>

definition parse_components :: "string \<Rightarrow> rq_target" where
  [eval_simps]: "parse_components raw =
     (let s0 = (RqTarget_empty, Some 0);
          s1 = ParseScheme raw s0;
          s2 = ParseUserInfo raw s1;
          s3 = ParseHost raw s2;
          s4 = ParsePort raw s3;
          s5 = ParsePath raw s4;
          s6 = ParseQuery raw s5;
          s7 = ParseFragment raw s6
      in fst s7)"

definition RqTarget_of_raw :: "string \<Rightarrow> rq_target outcome" where
  [eval_simps]: "RqTarget_of_raw raw =
     (if RQ_TARGET_LEN_LIMIT < length raw then Inr (add_flag RQ_TARGET_TOO_LONG RqTarget_empty)
      else Normalize (Validate (parse_components raw)))"

text \<open>
  The constructor from components leaves \<open>validity_state_\<close> uninitialised before it adds the
  flags; \<open>garbage\<close> is the value found there.
\<close>

definition RqTarget_of_parts ::
  "flags \<Rightarrow> string \<Rightarrow> string \<Rightarrow> string \<Rightarrow> string \<Rightarrow> string \<Rightarrow> string \<Rightarrow> string \<Rightarrow>
     rq_target outcome" where
  [eval_simps]: "RqTarget_of_parts garbage sch usr hst prt pth qry frg =
     (let set_if = (\<lambda>s. if s \<noteq> [] then maybe_of s else maybe_unset [])
      in Normalize (Validate \<lparr>validity_state = garbage, rt_scheme = set_if sch,
           rt_user_info = set_if usr, rt_host = set_if hst, rt_port = set_if prt,
           rt_path = set_if pth, rt_query = set_if qry, rt_fragment = set_if frg\<rparr>))"

end
