(* ===== verification/StdMap.thy ===== *)
theory StdMap
  imports Prelude
begin

text \<open>
  \<open>std::map\<close> as the sources use it: an association list in the order of its keys, without
  duplicates, since the code iterates over maps and prints them in key order.  The interface
  the clients rely on is the locale \<open>dictionary\<close>; the sorted association list interprets it.
\<close>

section \<open>The interface\<close>

locale dictionary =
  fixes empty :: "'m"
    and assign :: "'k \<Rightarrow> 'v \<Rightarrow> 'm \<Rightarrow> 'm"
    and erase :: "'k \<Rightarrow> 'm \<Rightarrow> 'm"
    and lookup :: "'m \<Rightarrow> 'k \<Rightarrow> 'v option"
    and inv :: "'m \<Rightarrow> bool"
  assumes lookup_empty: "lookup empty k = None"
    and lookup_assign: "inv m \<Longrightarrow> lookup (assign k v m) = (lookup m)(k \<mapsto> v)"
    and lookup_erase: "inv m \<Longrightarrow> lookup (erase k m) = (lookup m)(k := None)"
    and inv_empty: "inv empty"
    and inv_assign: "inv m \<Longrightarrow> inv (assign k v m)"
    and inv_erase: "inv m \<Longrightarrow> inv (erase k m)"
begin

lemma lookup_assign_same: "inv m \<Longrightarrow> lookup (assign k v m) k = Some v"
  by (simp add: lookup_assign)

lemma lookup_assign_other: "inv m \<Longrightarrow> j \<noteq> k \<Longrightarrow> lookup (assign k v m) j = lookup m j"
  by (simp add: lookup_assign)

lemma lookup_erase_same: "inv m \<Longrightarrow> lookup (erase k m) k = None"
  by (simp add: lookup_erase)

lemma lookup_erase_other: "inv m \<Longrightarrow> j \<noteq> k \<Longrightarrow> lookup (erase k m) j = lookup m j"
  by (simp add: lookup_erase)

lemma fold_assign_inv: "inv m \<Longrightarrow> inv (fold (\<lambda>(k, v). assign k v) kvs m)"
  by (induction kvs arbitrary: m) (auto simp: inv_assign)

text \<open>A sequence of assignments keeps the last value of each key.\<close>

lemma fold_assign_lookup:
  "inv m \<Longrightarrow> lookup (fold (\<lambda>(k, v). assign k v) kvs m) = lookup m ++ map_of (rev kvs)"
proof (induction kvs arbitrary: m)
  case (Cons kv kvs)
  obtain k v where kv: "kv = (k, v)" by (cases kv)
  from Cons have "lookup (fold (\<lambda>(k, v). assign k v) kvs (assign k v m))
      = lookup (assign k v m) ++ map_of (rev kvs)"
    by (simp add: inv_assign)
  moreover have "lookup (assign k v m) ++ map_of (rev kvs)
      = lookup m ++ map_of (rev (kv # kvs))"
    using Cons.prems
    by (simp add: kv lookup_assign fun_eq_iff map_add_def split: option.splits)
  ultimately show ?case by (simp add: kv)
qed simp

end

section \<open>Sorted association lists\<close>

type_synonym ('k, 'v) std_map = "('k \<times> 'v) list"

definition map_find :: "('k, 'v) std_map \<Rightarrow> 'k \<Rightarrow> 'v option" where
  "map_find m k = map_of m k"

text \<open>\<open>m[k] = v\<close>.\<close>

fun map_assign :: "'k::linorder \<Rightarrow> 'v \<Rightarrow> ('k, 'v) std_map \<Rightarrow> ('k, 'v) std_map" where
  "map_assign k v [] = [(k, v)]"
| "map_assign k v ((j, w) # m) =
     (if k < j then (k, v) # (j, w) # m
      else if k = j then (k, v) # m
      else (j, w) # map_assign k v m)"

fun map_erase :: "'k::linorder \<Rightarrow> ('k, 'v) std_map \<Rightarrow> ('k, 'v) std_map" where
  "map_erase k [] = []"
| "map_erase k ((j, w) # m) = (if k = j then m else (j, w) # map_erase k m)"

text \<open>\<open>m.insert(pair)\<close>: an existing entry stays, and the flag says whether it was inserted.\<close>

definition map_insert ::
  "'k::linorder \<Rightarrow> 'v \<Rightarrow> ('k, 'v) std_map \<Rightarrow> ('k, 'v) std_map \<times> bool" where
  "map_insert k v m = (if map_find m k = None then (map_assign k v m, True) else (m, False))"

definition map_sorted :: "('k::linorder, 'v) std_map \<Rightarrow> bool" where
  "map_sorted m \<longleftrightarrow> sorted_wrt (<) (map fst m)"

lemma map_sorted_Nil [simp]: "map_sorted []"
  by (simp add: map_sorted_def)

lemma map_sorted_Cons [simp]:
  "map_sorted ((k, v) # m) \<longleftrightarrow> (\<forall>j\<in>fst ` set m. k < j) \<and> map_sorted m"
  by (auto simp: map_sorted_def)

lemma map_of_above_None: "\<forall>j\<in>fst ` set m. (k::'k::linorder) < j \<Longrightarrow> map_of m k = None"
  by (force simp: map_of_eq_None_iff)

lemma map_find_assign:
  "map_find (map_assign k v m) = (map_find m)(k \<mapsto> v)"
  by (induction k v m rule: map_assign.induct) (auto simp: map_find_def fun_eq_iff)

lemma fst_set_map_assign: "fst ` set (map_assign k v m) = insert k (fst ` set m)"
  by (induction k v m rule: map_assign.induct) auto

lemma set_map_assign: "set (map_assign k v m) \<subseteq> insert (k, v) (set m)"
  by (induction k v m rule: map_assign.induct) auto

lemma fst_set_map_erase: "fst ` set (map_erase k m) \<subseteq> fst ` set m"
  by (induction k m rule: map_erase.induct) auto

lemma map_sorted_assign: "map_sorted m \<Longrightarrow> map_sorted (map_assign k v m)"
  by (induction k v m rule: map_assign.induct) (auto simp: fst_set_map_assign)

lemma map_sorted_erase: "map_sorted m \<Longrightarrow> map_sorted (map_erase k m)"
  using fst_set_map_erase by (induction k m rule: map_erase.induct) fastforce+

lemma map_find_erase:
  "map_sorted m \<Longrightarrow> map_find (map_erase k m) = (map_find m)(k := None)"
proof (induction k m rule: map_erase.induct)
  case (2 k j w m)
  then show ?case
    using map_of_above_None [of m k] by (auto simp: map_find_def fun_eq_iff)
qed (simp add: map_find_def fun_eq_iff)

interpretation sorted_map:
  dictionary "[]" map_assign map_erase map_find map_sorted
  by unfold_locales
    (simp_all add: map_find_assign map_find_erase map_sorted_assign map_sorted_erase
      map_find_def [of "[]"])

lemma map_find_insert:
  "map_find (fst (map_insert k v m)) j
     = (if j = k \<and> map_find m k = None then Some v else map_find m j)"
  by (simp add: map_insert_def map_find_assign)

lemma map_sorted_insert: "map_sorted m \<Longrightarrow> map_sorted (fst (map_insert k v m))"
  by (simp add: map_insert_def sorted_map.inv_assign)

text \<open>The map model is a dictionary: a run of assignments keeps the last value of each key.\<close>

lemma std_map_last_wins:
  "map_sorted m \<Longrightarrow>
     map_sorted (fold (\<lambda>(k, v). map_assign k v) kvs m) \<and>
     map_find (fold (\<lambda>(k, v). map_assign k v) kvs m) = map_find m ++ map_of (rev kvs)"
  by (simp add: sorted_map.fold_assign_inv sorted_map.fold_assign_lookup)

end
