(* ===== verification/Request.thy ===== *)
theory Request
  imports RqTarget StdMap
begin

text \<open>\<open>src/http/Request.h\<close> and \<open>Request.cpp\<close>: a request, its headers and where its body is.\<close>

datatype body_storage_type = BST_IN_TMP_FOLDER | BST_ON_SERVER

record body_storage =
  bs_path :: string
  storage_type :: body_storage_type
  transfer_complete :: bool

definition BodyStorage_init :: body_storage where
  [eval_simps]: "BodyStorage_init =
     \<lparr>bs_path = [], storage_type = BST_IN_TMP_FOLDER, transfer_complete = False\<rparr>"

text \<open>Whether the destructor removes the body file, given what exists on disk.\<close>

definition BodyStorage_removes :: "(string \<Rightarrow> bool) \<Rightarrow> body_storage \<Rightarrow> bool" where
  "BodyStorage_removes path_exists b \<longleftrightarrow>
     (storage_type b = BST_IN_TMP_FOLDER \<or> \<not> transfer_complete b) \<and> path_exists (bs_path b)"

record request =
  rq_status :: response_code
  rq_method :: http_method
  rq_target :: rq_target
  rq_version :: http_version
  rq_headers :: "(string, string) std_map"
  rq_body :: body_storage

definition Request_init :: request where
  [eval_simps]: "Request_init =
     \<lparr>rq_status = HTTP_OK, rq_method = HTTP_NO_METHOD, rq_target = RqTarget_empty,
      rq_version = HTTP_NO_VERSION, rq_headers = [], rq_body = BodyStorage_init\<rparr>"

definition has_body :: "request \<Rightarrow> bool" where
  [eval_simps]: "has_body rq \<longleftrightarrow> bs_path (rq_body rq) \<noteq> []"

definition GetHeaderVal :: "request \<Rightarrow> string \<Rightarrow> string option" where
  [eval_simps]: "GetHeaderVal rq key = map_find (rq_headers rq) (ToLowerCase key)"

declare map_find_def [eval_simps]

text \<open>Header lookup ignores the case of the name asked for.\<close>

lemma GetHeaderVal_case_insensitive:
  "ToLowerCase k = ToLowerCase l \<Longrightarrow> GetHeaderVal rq k = GetHeaderVal rq l"
  by (simp add: GetHeaderVal_def)

end
