(* ===== verification/RequestParser.thy ===== *)
theory RequestParser
  imports Http
begin

text \<open>
  \<open>src/http/RequestParser.cpp\<close>: the receive buffer of a connection and the cursor
  \<open>element_end_idx_\<close> (a \<open>ssize_t\<close>) into it.  \<open>EndsWithCRLF\<close> and \<open>FoundSingleCR\<close> read
  \<open>buf_[element_end_idx_]\<close> without a bound; the request builder calls them only while the cursor
  is inside the buffer, and outside of it the model answers \<open>False\<close>.
\<close>

record request_parser =
  rp_buf :: string
  rp_idx :: int

definition parser_init :: request_parser where
  [eval_simps]: "parser_init = \<lparr>rp_buf = [], rp_idx = 0\<rparr>"

definition AddNewData :: "request_parser \<Rightarrow> string \<Rightarrow> request_parser" where
  [eval_simps]: "AddNewData p data = p\<lparr>rp_buf := rp_buf p @ data\<rparr>"

definition Advance :: "request_parser \<Rightarrow> int \<Rightarrow> request_parser" where
  [eval_simps]: "Advance p n = p\<lparr>rp_idx := rp_idx p + n\<rparr>"

definition Peek :: "request_parser \<Rightarrow> int \<Rightarrow> char" where
  [eval_simps]: "Peek p offset =
     (if rp_idx p + offset < 0 \<or> int (length (rp_buf p)) \<le> rp_idx p + offset then NUL
      else rp_buf p ! nat (rp_idx p + offset))"

definition ElementLen :: "request_parser \<Rightarrow> nat" where
  [eval_simps]: "ElementLen p = size_of_ssize (rp_idx p + 1)"

definition RemainingLength :: "request_parser \<Rightarrow> nat" where
  [eval_simps]: "RemainingLength p =
     (if 0 \<le> rp_idx p then size_minus (length (rp_buf p)) (nat (rp_idx p))
      else length (rp_buf p) + nat (- rp_idx p))"

definition EndOfBuffer :: "request_parser \<Rightarrow> bool" where
  [eval_simps]: "EndOfBuffer p \<longleftrightarrow> int (length (rp_buf p)) \<le> rp_idx p"

definition ExtractElement :: "request_parser \<Rightarrow> string \<times> request_parser" where
  [eval_simps]: "ExtractElement p =
     (let end_idx = min (if 0 \<le> rp_idx p then nat (rp_idx p) else 0) (length (rp_buf p))
      in (take end_idx (rp_buf p), \<lparr>rp_buf = drop end_idx (rp_buf p), rp_idx = 0\<rparr>))"

definition ExtractLine :: "request_parser \<Rightarrow> string \<times> request_parser" where
  [eval_simps]: "ExtractLine p =
     (let len_without_crlf = (if rp_idx p \<le> 0 then 0 else nat (rp_idx p - 1))
      in (take len_without_crlf (rp_buf p),
          \<lparr>rp_buf = drop (len_without_crlf + 2) (rp_buf p), rp_idx = 0\<rparr>))"

text \<open>The number of bytes moved, the bytes written to the stream, and the new parser.\<close>

definition MoveToStream :: "request_parser \<Rightarrow> nat \<Rightarrow> nat \<times> string \<times> request_parser" where
  [eval_simps]: "MoveToStream p n =
     (let m = (if length (rp_buf p) < n then length (rp_buf p) else n)
      in (m, take m (rp_buf p), \<lparr>rp_buf = drop m (rp_buf p), rp_idx = 0\<rparr>))"

text \<open>
  \<open>operator[]\<close>: the bound is tested with \<open>>\<close>, so the index just past the end, and every index
  into an empty buffer, is read out of bounds.
\<close>

definition parser_at :: "request_parser \<Rightarrow> int \<Rightarrow> char outcome" where
  [eval_simps]: "parser_at p index =
     (let i = (if index < 0 then 0
               else if int (length (rp_buf p)) < index then length (rp_buf p) - 1
               else nat index)
      in if i < length (rp_buf p) then Inr (rp_buf p ! i) else Inl Undefined_behaviour)"

definition EndsWithCRLF :: "request_parser \<Rightarrow> bool" where
  [eval_simps]: "EndsWithCRLF p =
     (if rp_idx p < 1 then False
      else \<not> EndOfBuffer p \<and> rp_buf p ! nat (rp_idx p - 1) = CR \<and> rp_buf p ! nat (rp_idx p) = LF)"

definition BeginsWithCRLF :: "request_parser \<Rightarrow> bool" where
  [eval_simps]: "BeginsWithCRLF p =
     (if length (rp_buf p) < 2 then False else rp_buf p ! 0 = CR \<and> rp_buf p ! 1 = LF)"

definition Ignore :: "request_parser \<Rightarrow> nat \<Rightarrow> request_parser" where
  [eval_simps]: "Ignore p n =
     (let m = (if length (rp_buf p) < n then length (rp_buf p) else n)
      in if m \<le> 0 then p else \<lparr>rp_buf = drop m (rp_buf p), rp_idx = 0\<rparr>)"

definition FoundSingleCR :: "request_parser \<Rightarrow> bool" where
  [eval_simps]: "FoundSingleCR p =
     (if rp_idx p < 1 then False
      else \<not> EndOfBuffer p \<and> rp_buf p ! nat (rp_idx p - 1) = CR \<and> rp_buf p ! nat (rp_idx p) \<noteq> LF)"

section \<open>Appending data\<close>

lemma AddNewData_simps [simp]:
  "rp_buf (AddNewData p d) = rp_buf p @ d" "rp_idx (AddNewData p d) = rp_idx p"
  "AddNewData p [] = p" "AddNewData (AddNewData p d) e = AddNewData p (d @ e)"
  by (simp_all add: AddNewData_def)

lemma AddNewData_Advance: "AddNewData (Advance p n) d = Advance (AddNewData p d) n"
  by (simp add: AddNewData_def Advance_def)

lemma Advance_simps [simp]:
  "rp_buf (Advance p n) = rp_buf p" "rp_idx (Advance p n) = rp_idx p + n"
  by (simp_all add: Advance_def)

text \<open>Inside the buffer, what the scanner looks at does not depend on later data.\<close>

lemma parser_tests_AddNewData:
  assumes "\<not> EndOfBuffer p"
  shows "\<not> EndOfBuffer (AddNewData p d)" "ElementLen (AddNewData p d) = ElementLen p"
    "EndsWithCRLF (AddNewData p d) = EndsWithCRLF p"
    "FoundSingleCR (AddNewData p d) = FoundSingleCR p"
    "Peek (AddNewData p d) 0 = Peek p 0"
  using assms
  by (auto simp: EndOfBuffer_def ElementLen_def EndsWithCRLF_def FoundSingleCR_def Peek_def
      nth_append)

lemma EndsWithCRLF_bounds:
  "EndsWithCRLF p \<Longrightarrow> 1 \<le> rp_idx p \<and> rp_idx p < int (length (rp_buf p))"
  by (auto simp: EndsWithCRLF_def EndOfBuffer_def split: if_splits)

lemma ExtractLine_AddNewData:
  assumes "EndsWithCRLF p"
  shows "ExtractLine (AddNewData p d)
    = (fst (ExtractLine p), AddNewData (snd (ExtractLine p)) d)"
proof -
  have "nat (rp_idx p - 1) + 2 \<le> length (rp_buf p)" "nat (rp_idx p - 1) \<le> length (rp_buf p)"
    using EndsWithCRLF_bounds [OF assms] by linarith+
  then show ?thesis by (simp add: ExtractLine_def Let_def AddNewData_def)
qed

end
