(* ===== verification/SyntaxChecker.thy ===== *)
theory SyntaxChecker
  imports Http
begin

text \<open>
  \<open>src/http/SyntaxChecker.cpp\<close>: the grammar checks on tokens, method and version names and
  header fields, each loop over the bytes as recursion over the list.
\<close>

definition specialTChars :: string where
  [eval_simps]: "specialTChars = [CHR ''!'', CHR ''#'', CHR ''$'', CHR ''%'', CHR ''&'', CHR 0x27, CHR ''*'',
     CHR ''+'', CHR ''-'', CHR ''.'', CHR ''^'', CHR ''_'', CHR 0x60, CHR ''|'', CHR ''~'']"

definition IsTokenChar :: "char \<Rightarrow> bool" where
  [eval_simps]: "IsTokenChar c \<longleftrightarrow> isalnum c \<or> c \<in> set specialTChars"

definition IsVChar :: "char \<Rightarrow> bool" where
  [eval_simps]: "IsVChar c \<longleftrightarrow> isprint c \<and> c \<noteq> SP"

definition IsObsText :: "char \<Rightarrow> bool" where
  [eval_simps]: "IsObsText c \<longleftrightarrow> 128 \<le> code c \<and> code c \<le> 255"

definition IsFieldVChar :: "char \<Rightarrow> bool" where
  [eval_simps]: "IsFieldVChar c \<longleftrightarrow> IsVChar c \<or> IsObsText c"

definition IsWhiteSpace :: "char \<Rightarrow> bool" where
  [eval_simps]: "IsWhiteSpace c \<longleftrightarrow> c = SP \<or> c = HT"

fun all_token_chars :: "string \<Rightarrow> bool" where
  "all_token_chars [] = True"
| "all_token_chars (c # cs) = (if \<not> IsTokenChar c then False else all_token_chars cs)"

definition IsValidTokenName :: "string \<Rightarrow> bool" where
  [eval_simps]: "IsValidTokenName token =
     (if token = [] then False else if \<not> all_token_chars token then False else token \<noteq> [])"

definition IsValidMethodName :: "string \<Rightarrow> bool" where
  [eval_simps]: "IsValidMethodName method = IsValidTokenName method"

definition IsValidVersionName :: "string \<Rightarrow> bool" where
  [eval_simps]: "IsValidVersionName version \<longleftrightarrow> version = ''HTTP/1.0'' \<or> version = ''HTTP/1.1''"

definition IsValidHeaderKeyName :: "string \<Rightarrow> bool" where
  [eval_simps]: "IsValidHeaderKeyName header_name = IsValidTokenName header_name"

fun header_value_chars :: "string \<Rightarrow> bool" where
  "header_value_chars [] = True"
| "header_value_chars (c # cs) =
     (if \<not> IsWhiteSpace c \<and> \<not> IsFieldVChar c then False else header_value_chars cs)"

definition IsValidHeaderValueName :: "string \<Rightarrow> bool" where
  [eval_simps]: "IsValidHeaderValueName header_value =
     (if 0 < length header_value \<and> \<not> IsFieldVChar (hd header_value) then False
      else header_value_chars header_value)"

section \<open>The grammar the checks accept\<close>

lemma all_token_chars_eq: "all_token_chars s = list_all IsTokenChar s"
  by (induction s) auto

lemma header_value_chars_eq:
  "header_value_chars s = list_all (\<lambda>c. IsWhiteSpace c \<or> IsFieldVChar c) s"
  by (induction s) auto

lemma IsValidTokenName_iff: "IsValidTokenName s \<longleftrightarrow> s \<noteq> [] \<and> list_all IsTokenChar s"
  by (simp add: IsValidTokenName_def all_token_chars_eq)

lemma control_not_token: "c \<in> {NUL, HT, LF, CR, SP, CHR '':''} \<Longrightarrow> \<not> IsTokenChar c"
  by (auto simp: IsTokenChar_def specialTChars_def ctype_defs code_def)

lemma control_not_field: "c \<in> {NUL, LF, CR} \<Longrightarrow> \<not> IsWhiteSpace c \<and> \<not> IsFieldVChar c"
  by (auto simp: IsWhiteSpace_def IsFieldVChar_def IsVChar_def IsObsText_def ctype_defs
      code_def)

text \<open>An accepted header field cannot smuggle a line break, a NUL or a second separator: the
  name has no NUL, blank, tab, CR, LF or colon and is not empty, and the value has no NUL, CR
  or LF and does not begin with a blank or a tab.
\<close>

lemma header_field_no_injection:
  assumes "IsValidHeaderKeyName key" and "IsValidHeaderValueName val"
  shows "key \<noteq> [] \<and> set key \<inter> {NUL, HT, LF, CR, SP, CHR '':''} = {} \<and>
    set val \<inter> {NUL, LF, CR} = {} \<and> (val \<noteq> [] \<longrightarrow> hd val \<notin> {SP, HT})"
proof -
  from assms(1) have "key \<noteq> []" and k: "list_all IsTokenChar key"
    by (auto simp: IsValidHeaderKeyName_def IsValidTokenName_iff)
  have k': "set key \<inter> {NUL, HT, LF, CR, SP, CHR '':''} = {}"
    using k control_not_token by (fastforce simp: list_all_iff)
  from assms(2) have v: "list_all (\<lambda>c. IsWhiteSpace c \<or> IsFieldVChar c) val"
    and h: "val \<noteq> [] \<longrightarrow> IsFieldVChar (hd val)"
    by (auto simp: IsValidHeaderValueName_def header_value_chars_eq split: if_splits)
  have v': "set val \<inter> {NUL, LF, CR} = {}"
    using v control_not_field by (fastforce simp: list_all_iff)
  have "\<not> IsFieldVChar SP" "\<not> IsFieldVChar HT"
    by (simp_all add: IsFieldVChar_def IsVChar_def IsObsText_def ctype_defs code_def)
  with h have "val \<noteq> [] \<longrightarrow> hd val \<notin> {SP, HT}" by auto
  with \<open>key \<noteq> []\<close> k' v' show ?thesis by blast
qed

lemma header_field_no_injection_example:
  "set ''host'' \<inter> {NUL, HT, LF, CR, SP, CHR '':''} = {} \<and> set ''a b'' \<inter> {NUL, LF, CR} = {}"
proof -
  have "IsValidHeaderKeyName ''host''" "IsValidHeaderValueName ''a b''" by code_simp+
  then show ?thesis using header_field_no_injection [of "''host''" "''a b''"] by blast
qed

end
