(* ===== verification/RequestBuilder.thy ===== *)
theory RequestBuilder
  imports Request RequestParser SyntaxChecker "HOL-Library.While_Combinator"
begin

text \<open>
  \<open>src/http/RequestBuilder.h\<close> and \<open>RequestBuilder.cpp\<close>: the state machine that turns the bytes
  received on a connection into a request.  What it takes from outside is the record
  \<open>builder_env\<close>: the callback that validates the headers, and the file system (which paths
  exist, which can be opened for writing, the name drawn for a temporary file).
\<close>

section \<open>State\<close>

datatype rq_builder_status = RB_BUILDING | RB_NEED_DATA_FROM_CLIENT | RB_DONE

datatype build_state = BS_RQ_LINE | BS_HEADER_FIELDS | BS_AFTER_HEADERS | BS_BODY_REGULAR
  | BS_BODY_CHUNK_SIZE | BS_BODY_CHUNK_CONTENT | BS_END | BS_BAD_REQUEST

datatype extraction_result = EXTRACTION_SUCCESS | EXTRACTION_TOO_LONG
  | EXTRACTION_CRLF_NOT_FOUND | EXTRACTION_FOUND_SINGLE_CR | EXTRACTION_NULL_TERMINATOR_FOUND

text \<open>\<open>max_body_size\<close> is an \<open>int\<close> here and a \<open>size_t\<close> in the body builder.\<close>

record headers_validation_result =
  hv_status :: response_code
  hv_max_body_size :: int
  hv_upload_path :: "string option"

record builder_env =
  headers_ready_cb :: "request \<Rightarrow> headers_validation_result"
  path_exists :: "string \<Rightarrow> bool"
  can_open :: "string \<Rightarrow> bool"
  tmp_name :: string

text \<open>
  The output stream of the body: whether it is open, whether its failbit is set, and the bytes
  written to the file since it was opened.
\<close>

record body_builder =
  bb_open :: bool
  bb_fail :: bool
  bb_stream :: string
  bb_chunked :: bool
  bb_body_len :: "64 word"
  bb_remaining :: "64 word"
  bb_max :: "64 word"

definition BodyBuilder_init :: body_builder where
  [eval_simps]: "BodyBuilder_init =
     \<lparr>bb_open = False, bb_fail = False, bb_stream = [], bb_chunked = False, bb_body_len = 0,
      bb_remaining = 0, bb_max = 0\<rparr>"

definition BodyBuilder_Reset :: "body_builder \<Rightarrow> body_builder" where
  [eval_simps]: "BodyBuilder_Reset bb =
     bb\<lparr>bb_chunked := False, bb_body_len := 0, bb_remaining := 0, bb_max := 0\<rparr>"

text \<open>
  \<open>std::ofstream::open\<close>, \<open><<\<close> and \<open>close\<close>: opening an open stream fails and keeps it; opening a
  path truncates the file.
\<close>

definition stream_open :: "builder_env \<Rightarrow> string \<Rightarrow> body_builder \<Rightarrow> body_builder" where
  [eval_simps]: "stream_open e path bb =
     (if bb_open bb then bb\<lparr>bb_fail := True\<rparr>
      else if can_open e path then bb\<lparr>bb_open := True, bb_fail := False, bb_stream := []\<rparr>
      else bb\<lparr>bb_fail := True\<rparr>)"

definition stream_write :: "string \<Rightarrow> body_builder \<Rightarrow> body_builder" where
  [eval_simps]: "stream_write data bb =
     (if bb_open bb \<and> \<not> bb_fail bb then bb\<lparr>bb_stream := bb_stream bb @ data\<rparr> else bb)"

definition stream_close :: "body_builder \<Rightarrow> body_builder" where
  [eval_simps]: "stream_close bb = bb\<lparr>bb_open := False\<rparr>"

record request_builder =
  rb_rq :: request
  rb_status :: rq_builder_status
  rb_parser :: request_parser
  rb_extraction :: string
  rb_state :: build_state
  rb_body :: body_builder
  rb_header_count :: nat
  rb_section_size :: nat
  rb_has_body :: bool

definition builder_init :: request_builder where
  [eval_simps]: "builder_init =
     \<lparr>rb_rq = Request_init, rb_status = RB_BUILDING, rb_parser = parser_init,
      rb_extraction = [], rb_state = BS_RQ_LINE, rb_body = BodyBuilder_init,
      rb_header_count = 0, rb_section_size = 0, rb_has_body = False\<rparr>"

text \<open>\<open>Reset\<close> keeps the parser, whose buffer may already hold the next request.\<close>

definition Builder_Reset :: "request_builder \<Rightarrow> request_builder" where
  [eval_simps]: "Builder_Reset b =
     b\<lparr>rb_rq := Request_init, rb_status := RB_BUILDING, rb_extraction := [],
       rb_state := BS_RQ_LINE, rb_body := BodyBuilder_Reset (rb_body b), rb_header_count := 0,
       rb_section_size := 0, rb_has_body := False\<rparr>"

section \<open>Line extraction\<close>

text \<open>The loop of \<open>TryToExtractLine_\<close>: it stops with a result, or at the end of the buffer.\<close>

function scan_line :: "request_parser \<Rightarrow> extraction_result \<times> request_parser" where
  "scan_line p =
     (if EndOfBuffer p then (EXTRACTION_CRLF_NOT_FOUND, p)
      else if RQ_LINE_LEN_LIMIT < ElementLen p then (EXTRACTION_TOO_LONG, p)
      else if EndsWithCRLF p then (EXTRACTION_SUCCESS, p)
      else if FoundSingleCR p then (EXTRACTION_FOUND_SINGLE_CR, p)
      else if Peek p 0 = NUL then (EXTRACTION_NULL_TERMINATOR_FOUND, p)
      else scan_line (Advance p 1))"
  by pat_completeness auto
termination
  by (relation "measure (\<lambda>p. nat (int (length (rp_buf p)) - rp_idx p))")
    (auto simp: EndOfBuffer_def)

declare scan_line.simps [simp del]

definition TryToExtractLine :: "request_builder \<Rightarrow> extraction_result \<times> request_builder" where
  [eval_simps]: "TryToExtractLine b =
     (case scan_line (rb_parser b) of (r, p) \<Rightarrow>
        (if r = EXTRACTION_SUCCESS
         then (r, b\<lparr>rb_extraction := fst (ExtractLine p), rb_parser := snd (ExtractLine p)\<rparr>)
         else (r, b\<lparr>rb_parser := p\<rparr>)))"

text \<open>\<open>TryToExtractBodyContent_\<close>, which no other function calls.\<close>

function scan_body_content :: "64 word \<Rightarrow> request_parser \<Rightarrow> extraction_result \<times> request_parser" where
  "scan_body_content max_size p =
     (if EndOfBuffer p then (EXTRACTION_CRLF_NOT_FOUND, p)
      else if unat max_size < ElementLen p then (EXTRACTION_TOO_LONG, p)
      else if EndsWithCRLF p then (EXTRACTION_SUCCESS, p)
      else scan_body_content max_size (Advance p 1))"
  by pat_completeness auto
termination
  by (relation "measure (\<lambda>(_, p). nat (int (length (rp_buf p)) - rp_idx p))")
    (auto simp: EndOfBuffer_def)

declare scan_body_content.simps [simp del]

definition TryToExtractBodyContent :: "request_builder \<Rightarrow> extraction_result \<times> request_builder" where
  "TryToExtractBodyContent b =
     (case scan_body_content (bb_max (rb_body b)) (rb_parser b) of (r, p) \<Rightarrow>
        (if r = EXTRACTION_SUCCESS
         then (r, b\<lparr>rb_extraction := fst (ExtractLine p), rb_parser := snd (ExtractLine p)\<rparr>)
         else (r, b\<lparr>rb_parser := p\<rparr>)))"

definition SetStatusAndExitBuilder ::
  "response_code \<Rightarrow> request_builder \<Rightarrow> build_state \<times> request_builder" where
  [eval_simps]: "SetStatusAndExitBuilder status b =
     (BS_BAD_REQUEST, b\<lparr>rb_rq := (rb_rq b)\<lparr>rq_status := status\<rparr>\<rparr>)"

section \<open>The request line\<close>

definition TrySetMethod :: "string \<Rightarrow> request_builder \<Rightarrow> response_code \<times> request_builder" where
  [eval_simps]: "TrySetMethod raw b =
     (if \<not> IsValidMethodName raw then (HTTP_BAD_REQUEST, b)
      else case HttpMethodFromStr raw of
        None \<Rightarrow> (HTTP_NOT_IMPLEMENTED, b)
      | Some m \<Rightarrow> (HTTP_OK, b\<lparr>rb_rq := (rb_rq b)\<lparr>rq_method := m\<rparr>\<rparr>))"

definition TrySetRqTarget ::
  "string \<Rightarrow> request_builder \<Rightarrow> (response_code \<times> request_builder) outcome" where
  [eval_simps]: "TrySetRqTarget raw b =
     bind_outcome (RqTarget_of_raw raw) (\<lambda>t.
       Inr (if validity_state t AND RQ_TARGET_TOO_LONG \<noteq> 0 then HTTP_URI_TOO_LONG
            else if \<not> Good t then HTTP_BAD_REQUEST else HTTP_OK,
            b\<lparr>rb_rq := (rb_rq b)\<lparr>rq_target := t\<rparr>\<rparr>))"

definition TrySetVersion :: "string \<Rightarrow> request_builder \<Rightarrow> response_code \<times> request_builder" where
  [eval_simps]: "TrySetVersion raw b =
     (if \<not> IsValidVersionName raw then (HTTP_BAD_REQUEST, b)
      else case HttpVersionFromStr raw of
        None \<Rightarrow> (HTTP_BAD_REQUEST, b)
      | Some v \<Rightarrow> (HTTP_OK, b\<lparr>rb_rq := (rb_rq b)\<lparr>rq_version := v\<rparr>\<rparr>))"

text \<open>
  The three \<open>getline\<close> calls on the line: the method and the target end at a blank, the version
  runs to the end of the line; \<open>None\<close> is the \<open>unexpected EOL\<close> branch.
\<close>

definition split_request_line :: "string \<Rightarrow> (string \<times> string \<times> string) option" where
  [eval_simps]: "split_request_line line =
     (case getline (ss_of line) SP [] of (ss1, raw_method) \<Rightarrow>
        (if ss_eof ss1 \<or> ss_fail ss1 then None
         else case getline ss1 SP [] of (ss2, raw_rq_target) \<Rightarrow>
           (if ss_eof ss2 \<or> ss_fail ss2 then None
            else case getline ss2 LF [] of (ss3, raw_version) \<Rightarrow>
              (if \<not> ss_eof ss3 \<or> ss_fail ss3 then None
               else Some (raw_method, raw_rq_target, raw_version)))))"

definition set_request_line ::
  "string \<times> string \<times> string \<Rightarrow> request_builder \<Rightarrow> (build_state \<times> request_builder) outcome" where
  [eval_simps]: "set_request_line = (\<lambda>(raw_method, raw_rq_target, raw_version) b.
     case TrySetMethod raw_method b of (rc1, b1) \<Rightarrow>
       (if rc1 \<noteq> HTTP_OK then Inr (SetStatusAndExitBuilder rc1 b1)
        else bind_outcome (TrySetRqTarget raw_rq_target b1) (\<lambda>(rc2, b2).
          (if rc2 \<noteq> HTTP_OK then Inr (SetStatusAndExitBuilder rc2 b2)
           else case TrySetVersion raw_version b2 of (rc3, b3) \<Rightarrow>
             (if rc3 \<noteq> HTTP_OK then Inr (SetStatusAndExitBuilder rc3 b3)
              else Inr (BS_HEADER_FIELDS, b3))))))"

definition parse_first_line :: "request_builder \<Rightarrow> (build_state \<times> request_builder) outcome" where
  [eval_simps]: "parse_first_line b0 =
     (let b = b0\<lparr>rb_section_size := rb_section_size b0 + length (rb_extraction b0)\<rparr> in
      case split_request_line (rb_extraction b) of
        None \<Rightarrow> Inr (SetStatusAndExitBuilder HTTP_BAD_REQUEST b)
      | Some parts \<Rightarrow> set_request_line parts b)"

definition BuildFirstLine :: "request_builder \<Rightarrow> (build_state \<times> request_builder) outcome" where
  [eval_simps]: "BuildFirstLine b =
     (case TryToExtractLine b of (r, b1) \<Rightarrow>
        (case r of
           EXTRACTION_SUCCESS \<Rightarrow> parse_first_line b1
         | EXTRACTION_CRLF_NOT_FOUND \<Rightarrow> Inr (BS_RQ_LINE, b1)
         | _ \<Rightarrow> Inr (SetStatusAndExitBuilder HTTP_BAD_REQUEST b1)))"

section \<open>Header fields\<close>

definition InsertHeaderField ::
  "string \<Rightarrow> string \<Rightarrow> request_builder \<Rightarrow> response_code \<times> request_builder" where
  [eval_simps]: "InsertHeaderField key val b0 =
     (let b = b0\<lparr>rb_header_count := rb_header_count b0 + 1\<rparr> in
      if RQ_MAX_HEADER_COUNT < rb_header_count b then (HTTP_REQUEST_HEADER_FIELDS_TOO_LARGE, b)
      else (HTTP_OK, b\<lparr>rb_rq := (rb_rq b)\<lparr>rq_headers :=
              map_assign (ToLowerCase key) val (rq_headers (rb_rq b))\<rparr>\<rparr>))"

text \<open>Key and value of a header line; \<open>None\<close> is the branch for a line that is no field.\<close>

definition split_header_line :: "string \<Rightarrow> (string \<times> string) option" where
  [eval_simps]: "split_header_line line =
     (case getline (ss_of line) (CHR '':'') [] of (ss1, header_key) \<Rightarrow>
        (case EatSpacesAndHTabs ss1 of ss2 \<Rightarrow>
           (if ss_eof ss2 then None
            else case getline ss2 CR [] of (ss3, header_val) \<Rightarrow>
              (if \<not> ss_eof ss3 then None else Some (header_key, header_val)))))"

definition parse_header_line :: "request_builder \<Rightarrow> build_state \<times> request_builder" where
  [eval_simps]: "parse_header_line b0 =
     (let b = b0\<lparr>rb_section_size := rb_section_size b0 + length (rb_extraction b0)\<rparr> in
      if RQ_HEADER_SECTION_LIMIT < rb_section_size b
      then SetStatusAndExitBuilder HTTP_REQUEST_HEADER_FIELDS_TOO_LARGE b
      else if rb_extraction b = [] then (BS_AFTER_HEADERS, b)
      else case split_header_line (rb_extraction b) of
        None \<Rightarrow> SetStatusAndExitBuilder HTTP_BAD_REQUEST b
      | Some (key, val) \<Rightarrow>
          (case InsertHeaderField key val b of (rc, b1) \<Rightarrow>
             if rc \<noteq> HTTP_OK then SetStatusAndExitBuilder rc b1 else (BS_HEADER_FIELDS, b1)))"

definition BuildHeaderField :: "request_builder \<Rightarrow> build_state \<times> request_builder" where
  [eval_simps]: "BuildHeaderField b =
     (case TryToExtractLine b of (r, b1) \<Rightarrow>
        (case r of
           EXTRACTION_SUCCESS \<Rightarrow> parse_header_line b1
         | EXTRACTION_CRLF_NOT_FOUND \<Rightarrow> (BS_HEADER_FIELDS, b1)
         | _ \<Rightarrow> SetStatusAndExitBuilder HTTP_BAD_REQUEST b1))"

fun ValidateHeadersSyntax :: "(string \<times> string) list \<Rightarrow> response_code" where
  "ValidateHeadersSyntax [] = HTTP_OK"
| "ValidateHeadersSyntax ((key, val) # rest) =
     (if \<not> IsValidHeaderKeyName key then HTTP_BAD_REQUEST
      else if \<not> IsValidHeaderValueName val then HTTP_BAD_REQUEST
      else ValidateHeadersSyntax rest)"

section \<open>After the headers\<close>

definition note_chunked :: "string option \<Rightarrow> request_builder \<Rightarrow> request_builder" where
  [eval_simps]: "note_chunked transfer_encoding b =
     (if transfer_encoding = Some ''chunked''
      then b\<lparr>rb_has_body := True, rb_body := (rb_body b)\<lparr>bb_chunked := True\<rparr>\<rparr> else b)"

definition check_method_body :: "request_builder \<Rightarrow> response_code \<times> request_builder" where
  [eval_simps]: "check_method_body b =
     (if rq_method (rb_rq b) = HTTP_POST \<and> \<not> rb_has_body b then (HTTP_LENGTH_REQUIRED, b)
      else if rq_method (rb_rq b) \<noteq> HTTP_POST \<and> rb_has_body b then (HTTP_BAD_REQUEST, b)
      else (HTTP_OK, b))"

definition InterpretHeaders :: "request_builder \<Rightarrow> response_code \<times> request_builder" where
  [eval_simps]: "InterpretHeaders b =
     (case GetHeaderVal (rb_rq b) ''host'' of
        None \<Rightarrow> (HTTP_BAD_REQUEST, b)
      | Some _ \<Rightarrow>
          (let content_length = GetHeaderVal (rb_rq b) ''content-length'';
               transfer_encoding = GetHeaderVal (rb_rq b) ''transfer-encoding''
           in if content_length \<noteq> None \<and> transfer_encoding \<noteq> None then (HTTP_BAD_REQUEST, b)
              else case content_length of
                None \<Rightarrow> check_method_body (note_chunked transfer_encoding b)
              | Some len \<Rightarrow>
                  (case StrToNumericNoThrow False 64 len of
                     None \<Rightarrow> (HTTP_BAD_REQUEST, note_chunked transfer_encoding b)
                   | Some num \<Rightarrow>
                       check_method_body
                         ((note_chunked transfer_encoding b)
                            \<lparr>rb_body := (rb_body (note_chunked transfer_encoding b))
                                          \<lparr>bb_remaining := word_of_int num\<rparr>,
                             rb_has_body := True\<rparr>))))"

text \<open>
  \<open>PrepareBody_\<close>.  The debug message that prints \<open>*tmp_f\<close> comes before the test of \<open>tmp_f\<close>, so
  a failure to open the temporary file dereferences an unset \<open>maybe\<close>, which throws.
\<close>

definition open_body ::
  "builder_env \<Rightarrow> headers_validation_result \<Rightarrow> request_builder \<Rightarrow>
     (response_code \<times> request_builder) outcome" where
  [eval_simps]: "open_body e vr b =
     (case hv_upload_path vr of
        Some upload_path \<Rightarrow>
          (if path_exists e upload_path then Inr (HTTP_CONFLICT, b)
           else let b1 = b\<lparr>rb_body := stream_open e upload_path (rb_body b)\<rparr> in
             if \<not> bb_open (rb_body b1) then Inr (HTTP_INTERNAL_SERVER_ERROR, b1)
             else Inr (HTTP_OK, b1\<lparr>rb_rq := (rb_rq b1)\<lparr>rq_body := (rq_body (rb_rq b1))
                    \<lparr>bs_path := upload_path, storage_type := BST_ON_SERVER\<rparr>\<rparr>\<rparr>))
      | None \<Rightarrow>
          (let b1 = b\<lparr>rb_body := stream_open e (tmp_name e) (rb_body b)\<rparr> in
           if \<not> bb_open (rb_body b1) then Inl Runtime_error
           else Inr (HTTP_OK, b1\<lparr>rb_rq := (rb_rq b1)\<lparr>rq_body := (rq_body (rb_rq b1))
                  \<lparr>bs_path := tmp_name e, storage_type := BST_IN_TMP_FOLDER\<rparr>\<rparr>\<rparr>)))"

definition PrepareBody ::
  "builder_env \<Rightarrow> headers_validation_result \<Rightarrow> request_builder \<Rightarrow>
     (build_state \<times> request_builder) outcome" where
  [eval_simps]: "PrepareBody e vr b0 =
     (let b = b0\<lparr>rb_body := (rb_body b0)\<lparr>bb_max := word_of_int (hv_max_body_size vr)\<rparr>\<rparr> in
      bind_outcome (open_body e vr b) (\<lambda>(rc, b1).
        Inr (if rc \<noteq> HTTP_OK then SetStatusAndExitBuilder rc b1
             else if bb_chunked (rb_body b1) then (BS_BODY_CHUNK_SIZE, b1)
             else if bb_max (rb_body b1) < bb_remaining (rb_body b1)
               then SetStatusAndExitBuilder HTTP_PAYLOAD_TOO_LARGE b1
             else (BS_BODY_REGULAR, b1))))"

definition ProcessHeaders ::
  "builder_env \<Rightarrow> request_builder \<Rightarrow> (build_state \<times> request_builder) outcome" where
  [eval_simps]: "ProcessHeaders e b =
     (if ValidateHeadersSyntax (rq_headers (rb_rq b)) \<noteq> HTTP_OK
      then Inr (SetStatusAndExitBuilder (ValidateHeadersSyntax (rq_headers (rb_rq b))) b)
      else case InterpretHeaders b of (rc, b1) \<Rightarrow>
        (if rc \<noteq> HTTP_OK then Inr (SetStatusAndExitBuilder rc b1)
         else let vr = headers_ready_cb e (rb_rq b1) in
           if hv_status vr \<noteq> HTTP_OK
           then Inr (BS_BAD_REQUEST, b1\<lparr>rb_rq := (rb_rq b1)\<lparr>rq_status := hv_status vr\<rparr>\<rparr>)
           else if \<not> rb_has_body b1 then Inr (BS_END, b1)
           else PrepareBody e vr b1))"

section \<open>The body\<close>

text \<open>Move what is left of the body, or of the chunk, from the buffer to the stream.\<close>

definition move_body :: "request_builder \<Rightarrow> request_builder" where
  [eval_simps]: "move_body b =
     (case MoveToStream (rb_parser b) (unat (bb_remaining (rb_body b))) of
        (bytes_copied, bytes, p) \<Rightarrow>
          b\<lparr>rb_parser := p,
            rb_body := (stream_write bytes (rb_body b))
              \<lparr>bb_remaining := bb_remaining (rb_body b) - word_of_nat bytes_copied\<rparr>\<rparr>)"

definition finish_body :: "request_builder \<Rightarrow> request_builder" where
  [eval_simps]: "finish_body b =
     b\<lparr>rb_body := stream_close (rb_body b),
       rb_rq := (rb_rq b)\<lparr>rq_body := (rq_body (rb_rq b))\<lparr>transfer_complete := True\<rparr>\<rparr>\<rparr>"

definition BuildBodyRegular :: "request_builder \<Rightarrow> build_state \<times> request_builder" where
  [eval_simps]: "BuildBodyRegular b =
     (case move_body b of b1 \<Rightarrow>
        if 0 < bb_remaining (rb_body b1) then (BS_BODY_REGULAR, b1) else (BS_END, finish_body b1))"

definition parse_chunk_size :: "request_builder \<Rightarrow> build_state \<times> request_builder" where
  [eval_simps]: "parse_chunk_size b =
     (case HexToUnsignedNumericNoThrow 64 (rb_extraction b) of
        None \<Rightarrow> SetStatusAndExitBuilder HTTP_BAD_REQUEST b
      | Some chunk_size \<Rightarrow>
          (if chunk_size = 0 then (BS_END, finish_body b)
           else let b1 = b\<lparr>rb_body := (rb_body b)
                   \<lparr>bb_body_len := bb_body_len (rb_body b) + word_of_nat chunk_size,
                    bb_remaining := word_of_nat chunk_size\<rparr>\<rparr> in
             if bb_max (rb_body b1) < bb_body_len (rb_body b1)
             then SetStatusAndExitBuilder HTTP_PAYLOAD_TOO_LARGE b1
             else (BS_BODY_CHUNK_CONTENT, b1)))"

definition BuildBodyChunkSize :: "request_builder \<Rightarrow> build_state \<times> request_builder" where
  [eval_simps]: "BuildBodyChunkSize b =
     (case TryToExtractLine b of (r, b1) \<Rightarrow>
        (case r of
           EXTRACTION_SUCCESS \<Rightarrow> parse_chunk_size b1
         | EXTRACTION_CRLF_NOT_FOUND \<Rightarrow> (BS_BODY_CHUNK_SIZE, b1)
         | _ \<Rightarrow> SetStatusAndExitBuilder HTTP_BAD_REQUEST b1))"

definition BuildBodyChunkContent :: "request_builder \<Rightarrow> build_state \<times> request_builder" where
  [eval_simps]: "BuildBodyChunkContent b =
     (case (if 0 < bb_remaining (rb_body b) then move_body b else b) of b1 \<Rightarrow>
        (if bb_remaining (rb_body b1) \<le> 0 then
           (if RemainingLength (rb_parser b1) < 2 then (BS_BODY_CHUNK_CONTENT, b1)
            else if \<not> BeginsWithCRLF (rb_parser b1)
            then SetStatusAndExitBuilder HTTP_BAD_REQUEST b1
            else (BS_BODY_CHUNK_SIZE, b1\<lparr>rb_parser := Ignore (rb_parser b1) 2\<rparr>))
         else (BS_BODY_CHUNK_CONTENT, b1)))"

section \<open>The loop\<close>

text \<open>\<open>CanBuild_\<close> also notes that the client has to send more.\<close>

definition CanBuild :: "request_builder \<Rightarrow> bool \<times> request_builder" where
  [eval_simps]: "CanBuild b =
     (if rb_state b = BS_BAD_REQUEST \<or> rb_state b = BS_END then (False, b)
      else if rb_state b \<noteq> BS_AFTER_HEADERS \<and> EndOfBuffer (rb_parser b)
      then (False, b\<lparr>rb_status := RB_NEED_DATA_FROM_CLIENT\<rparr>)
      else (True, b))"

definition set_build_state :: "build_state \<times> request_builder \<Rightarrow> request_builder" where
  [eval_simps]: "set_build_state = (\<lambda>(s, b). b\<lparr>rb_state := s\<rparr>)"

definition map_outcome :: "('a \<Rightarrow> 'b) \<Rightarrow> 'a outcome \<Rightarrow> 'b outcome" where
  [eval_simps]: "map_outcome f m = (case m of Inl x \<Rightarrow> Inl x | Inr y \<Rightarrow> Inr (f y))"

text \<open>One turn of the \<open>switch\<close> in \<open>Build\<close>.\<close>

definition BuildStep :: "builder_env \<Rightarrow> request_builder \<Rightarrow> request_builder outcome" where
  [eval_simps]: "BuildStep e b =
     (case rb_state b of
        BS_RQ_LINE \<Rightarrow> map_outcome set_build_state (BuildFirstLine b)
      | BS_HEADER_FIELDS \<Rightarrow> Inr (set_build_state (BuildHeaderField b))
      | BS_AFTER_HEADERS \<Rightarrow> map_outcome set_build_state (ProcessHeaders e b)
      | BS_BODY_REGULAR \<Rightarrow> Inr (set_build_state (BuildBodyRegular b))
      | BS_BODY_CHUNK_SIZE \<Rightarrow> Inr (set_build_state (BuildBodyChunkSize b))
      | BS_BODY_CHUNK_CONTENT \<Rightarrow> Inr (set_build_state (BuildBodyChunkContent b))
      | BS_BAD_REQUEST \<Rightarrow> Inr b
      | BS_END \<Rightarrow> Inr b)"

definition loop_cond :: "request_builder outcome \<Rightarrow> bool" where
  [eval_simps]: "loop_cond s = (case s of Inl _ \<Rightarrow> False | Inr b \<Rightarrow> fst (CanBuild b))"

definition loop_body :: "builder_env \<Rightarrow> request_builder outcome \<Rightarrow> request_builder outcome" where
  [eval_simps]: "loop_body e s = bind_outcome s (\<lambda>b. BuildStep e (snd (CanBuild b)))"

definition after_loop :: "request_builder \<Rightarrow> request_builder" where
  [eval_simps]: "after_loop b =
     (case snd (CanBuild b) of b1 \<Rightarrow>
        if rb_state b1 = BS_END \<or> rb_state b1 = BS_BAD_REQUEST then b1\<lparr>rb_status := RB_DONE\<rparr>
        else b1)"

definition feed :: "request_builder outcome \<Rightarrow> string \<Rightarrow> request_builder outcome" where
  [eval_simps]: "feed s data = map_outcome (\<lambda>b. b\<lparr>rb_parser := AddNewData (rb_parser b) data\<rparr>) s"

text \<open>
  \<open>Build\<close>: \<open>None\<close> when the loop does not end, \<open>Inl\<close> when an exception leaves it.
\<close>

definition Build ::
  "builder_env \<Rightarrow> request_builder \<Rightarrow> string \<Rightarrow> request_builder outcome option" where
  "Build e b data =
     (if EndOfBuffer (rb_parser b) \<and> data = [] then
        Some (Inr (b\<lparr>rb_rq := (rb_rq b)\<lparr>rq_status := HTTP_BAD_REQUEST\<rparr>, rb_status := RB_DONE\<rparr>))
      else map_option (map_outcome after_loop)
        (while_option loop_cond (loop_body e) (feed (Inr b) data)))"

text \<open>A concrete environment, and the evaluation of \<open>Build\<close> on concrete input.\<close>

definition example_env :: builder_env where
  [eval_simps]: "example_env =
     \<lparr>headers_ready_cb = (\<lambda>_. \<lparr>hv_status = HTTP_OK, hv_max_body_size = 100, hv_upload_path = None\<rparr>),
      path_exists = (\<lambda>_. False), can_open = (\<lambda>_. True), tmp_name = ''/tmp/webserv_1''\<rparr>"

end
