(* ===== verification/Streaming.thy ===== *)
theory Streaming
  imports Prelude "HOL-Library.While_Combinator"
begin

text \<open>
  A loop that consumes a buffer into which data arrives in pieces.  The interface \<open>incremental\<close>
  says when a step may be delayed until more data has come; its clients get that the pieces in
  which the data arrives do not matter, and the loop ends unless it reaches a state that a step
  leaves as it is.  The request builder is its instance in \<open>RequestBuilderProps\<close>.
\<close>

locale incremental =
  fixes inv :: "'s \<Rightarrow> bool"
    and can :: "'s \<Rightarrow> bool"
    and step :: "'s \<Rightarrow> 's"
    and supply_data :: "'s \<Rightarrow> 'a list \<Rightarrow> 's"
    and idle :: "'s \<Rightarrow> bool"
    and progress :: "('s \<times> 's) set"
  assumes inv_step: "inv s \<Longrightarrow> can s \<Longrightarrow> inv (step s)"
    and can_supply: "can s \<Longrightarrow> can (supply_data s d)"
    and step_supply: "inv s \<Longrightarrow> can s \<Longrightarrow> d \<noteq> [] \<Longrightarrow>
      step (supply_data s d) = supply_data (step s) d
      \<or> can (supply_data (step s) d) \<and> step (supply_data s d) = step (supply_data (step s) d)"
    and idle_step: "idle s \<Longrightarrow> can s \<and> step s = s"
    and wf_progress: "wf progress"
    and step_progress: "inv s \<Longrightarrow> can s \<Longrightarrow> \<not> idle s \<Longrightarrow> (step s, s) \<in> progress"
begin

lemma run_step: "can s \<Longrightarrow> while_option can step s = while_option can step (step s)"
  by (subst while_option_unfold) simp

lemma run_stop: "\<not> can s \<Longrightarrow> while_option can step s = Some s"
  by (subst while_option_unfold) simp

lemma run_supply_step:
  assumes "inv u" "can u" "d \<noteq> []"
  shows "while_option can step (supply_data (step u) d)
    = while_option can step (supply_data u d)"
proof -
  have "while_option can step (supply_data u d)
      = while_option can step (step (supply_data u d))"
    using assms(2) by (intro run_step can_supply)
  moreover have "step (supply_data u d) = supply_data (step u) d
      \<or> can (supply_data (step u) d) \<and> step (supply_data u d) = step (supply_data (step u) d)"
    using assms by (rule step_supply)
  ultimately show ?thesis by (metis run_step)
qed

text \<open>Data supplied before the loop may as well be supplied after it.\<close>

lemma run_supply:
  assumes "while_option can step s = Some t" "inv s" "d \<noteq> []"
  shows "while_option can step (supply_data s d) = while_option can step (supply_data t d)"
proof -
  have "inv t \<and> while_option can step (supply_data t d)
      = while_option can step (supply_data s d)"
  proof (rule while_option_rule [where P = "\<lambda>u. inv u \<and>
        while_option can step (supply_data u d) = while_option can step (supply_data s d)"])
    show "while_option can step s = Some t" by (rule assms(1))
    show "inv s \<and> while_option can step (supply_data s d)
        = while_option can step (supply_data s d)" using assms(2) by simp
    fix u
    assume u: "inv u \<and> while_option can step (supply_data u d)
        = while_option can step (supply_data s d)" "can u"
    then have "while_option can step (supply_data (step u) d)
        = while_option can step (supply_data u d)"
      using assms(3) by (intro run_supply_step) auto
    with u show "inv (step u) \<and> while_option can step (supply_data (step u) d)
        = while_option can step (supply_data s d)"
      by (auto intro: inv_step)
  qed
  then show ?thesis by simp
qed

text \<open>The invariant at the end of the loop, and the end of the loop.\<close>

lemma run_inv:
  assumes "while_option can step s = Some t" "inv s"
  shows "inv t \<and> \<not> can t"
proof
  show "inv t"
    using while_option_rule [where P = inv and b = can and c = step, OF _ assms] inv_step
    by blast
  show "\<not> can t" using while_option_stop [OF assms(1)] .
qed

lemma idle_run: "idle s \<Longrightarrow> while_option can step s = None"
proof -
  assume "idle s"
  show ?thesis
  proof (cases "while_option can step s")
    case (Some t)
    have "idle t"
      using while_option_rule [where P = idle and b = can and c = step, OF _ Some \<open>idle s\<close>]
        idle_step by metis
    with while_option_stop [OF Some] idle_step show ?thesis by blast
  qed
qed

text \<open>The states the loop passes through.\<close>

inductive visits :: "'s \<Rightarrow> 's \<Rightarrow> bool" for s where
  visits_start: "visits s s"
| visits_step: "visits s t \<Longrightarrow> can t \<Longrightarrow> visits s (step t)"

lemma visits_run: "visits s t \<Longrightarrow> while_option can step t = while_option can step s"
  by (induction rule: visits.induct) (auto simp: run_step [symmetric])

lemma visits_inv: "visits s t \<Longrightarrow> inv s \<Longrightarrow> inv t"
  by (induction rule: visits.induct) (auto intro: inv_step)

lemma run_None_iff:
  assumes "inv s"
  shows "while_option can step s = None \<longleftrightarrow> (\<exists>t. visits s t \<and> idle t)"
proof
  assume none: "while_option can step s = None"
  show "\<exists>t. visits s t \<and> idle t"
  proof (rule ccontr)
    assume no: "\<not> (\<exists>t. visits s t \<and> idle t)"
    have "\<exists>t. while_option can step s = Some t"
    proof (rule wf_while_option_Some [where P = "visits s"])
      show "wf {(t, u). (visits s u \<and> can u) \<and> t = step u}"
      proof (rule wf_subset [OF wf_progress], clarify)
        fix u assume "visits s u" "can u"
        with no show "(step u, u) \<in> progress"
          using assms by (auto intro: step_progress visits_inv)
      qed
      show "\<And>u. visits s u \<Longrightarrow> can u \<Longrightarrow> visits s (step u)" by (rule visits_step)
      show "visits s s" by (rule visits_start)
    qed
    with none show False by simp
  qed
next
  assume "\<exists>t. visits s t \<and> idle t"
  then show "while_option can step s = None" using visits_run idle_run by metis
qed

end

end
