(* ===== verification/BuilderStream.thy ===== *)
theory BuilderStream
  imports RequestBuilder Streaming
begin

text \<open>
  The loop of \<open>Build\<close> as an incremental consumer of its buffer: the interpretation of
  \<open>incremental\<close>, that the way the bytes of a request are cut into reads does not matter, and when
  the loop does not end.
\<close>

section \<open>Steps and the buffer\<close>

definition parser_ok :: "request_builder \<Rightarrow> bool" where
  "parser_ok b \<longleftrightarrow> 0 \<le> rp_idx (rb_parser b)"

definition feed_builder :: "request_builder \<Rightarrow> string \<Rightarrow> request_builder" where
  [eval_simps]: "feed_builder b d = b\<lparr>rb_parser := AddNewData (rb_parser b) d\<rparr>"

lemma feed_Inr [simp]: "feed (Inr b) d = Inr (feed_builder b d)"
  by (simp add: feed_def map_outcome_def feed_builder_def)

lemma feed_Inl [simp]: "feed (Inl x) d = Inl x"
  by (simp add: feed_def map_outcome_def)

lemma map_outcome_simps [simp]:
  "map_outcome f (Inl x) = Inl x" "map_outcome f (Inr y) = Inr (f y)"
  by (simp_all add: map_outcome_def)

lemma map_outcome_Inr_iff: "map_outcome f m = Inr y \<longleftrightarrow> (\<exists>x. m = Inr x \<and> f x = y)"
  by (cases m) auto

lemma feed_builder_simps [simp]:
  "rb_parser (feed_builder b d) = AddNewData (rb_parser b) d"
  "rb_rq (feed_builder b d) = rb_rq b" "rb_status (feed_builder b d) = rb_status b"
  "rb_extraction (feed_builder b d) = rb_extraction b" "rb_state (feed_builder b d) = rb_state b"
  "rb_body (feed_builder b d) = rb_body b"
  "rb_header_count (feed_builder b d) = rb_header_count b"
  "rb_section_size (feed_builder b d) = rb_section_size b"
  "rb_has_body (feed_builder b d) = rb_has_body b"
  "feed_builder (b\<lparr>rb_rq := r\<rparr>) d = (feed_builder b d)\<lparr>rb_rq := r\<rparr>"
  "feed_builder (b\<lparr>rb_status := s\<rparr>) d = (feed_builder b d)\<lparr>rb_status := s\<rparr>"
  "feed_builder (b\<lparr>rb_state := t\<rparr>) d = (feed_builder b d)\<lparr>rb_state := t\<rparr>"
  "feed_builder (b\<lparr>rb_body := y\<rparr>) d = (feed_builder b d)\<lparr>rb_body := y\<rparr>"
  "feed_builder (b\<lparr>rb_header_count := n\<rparr>) d = (feed_builder b d)\<lparr>rb_header_count := n\<rparr>"
  "feed_builder (b\<lparr>rb_section_size := n\<rparr>) d = (feed_builder b d)\<lparr>rb_section_size := n\<rparr>"
  "feed_builder (b\<lparr>rb_has_body := h\<rparr>) d = (feed_builder b d)\<lparr>rb_has_body := h\<rparr>"
  "feed_builder (b\<lparr>rb_extraction := x\<rparr>) d = (feed_builder b d)\<lparr>rb_extraction := x\<rparr>"
  by (simp_all add: feed_builder_def)

lemma feed_builder_parser [simp]:
  "feed_builder (b\<lparr>rb_parser := p\<rparr>) d = b\<lparr>rb_parser := AddNewData p d\<rparr>"
  "(feed_builder b d)\<lparr>rb_parser := q\<rparr> = b\<lparr>rb_parser := q\<rparr>"
  by (simp_all add: feed_builder_def)

lemma feed_builder_feed [simp]: "feed_builder (feed_builder b d) e = feed_builder b (d @ e)"
  by (simp add: feed_builder_def)

text \<open>What a step does to its result, and adding data to the buffer in it.\<close>

abbreviation feed_result ::
  "(build_state \<times> request_builder) \<Rightarrow> string \<Rightarrow> (build_state \<times> request_builder)" where
  "feed_result r d \<equiv> (fst r, feed_builder (snd r) d)"

lemma set_build_state_simps [simp]:
  "set_build_state (s, b) = b\<lparr>rb_state := s\<rparr>"
  by (simp add: set_build_state_def)

lemma SetStatus_simps [simp]:
  "SetStatusAndExitBuilder rc b = (BS_BAD_REQUEST, b\<lparr>rb_rq := (rb_rq b)\<lparr>rq_status := rc\<rparr>\<rparr>)"
  by (simp add: SetStatusAndExitBuilder_def)

section \<open>Scanning a line\<close>

text \<open>The three things a turn of the scanning loop can do, with any data still to come.\<close>

definition scan_stops :: "request_parser \<Rightarrow> extraction_result option" where
  "scan_stops p =
     (if RQ_LINE_LEN_LIMIT < ElementLen p then Some EXTRACTION_TOO_LONG
      else if EndsWithCRLF p then Some EXTRACTION_SUCCESS
      else if FoundSingleCR p then Some EXTRACTION_FOUND_SINGLE_CR
      else if Peek p 0 = NUL then Some EXTRACTION_NULL_TERMINATOR_FOUND
      else None)"

lemma scan_line_eq:
  "scan_line p =
    (if EndOfBuffer p then (EXTRACTION_CRLF_NOT_FOUND, p)
     else case scan_stops p of Some r \<Rightarrow> (r, p) | None \<Rightarrow> scan_line (Advance p 1))"
  by (subst scan_line.simps) (simp add: scan_stops_def)

lemma scan_stops_facts:
  "scan_stops p \<noteq> Some EXTRACTION_CRLF_NOT_FOUND"
  "scan_stops p = Some EXTRACTION_SUCCESS \<Longrightarrow> EndsWithCRLF p"
  "\<not> EndOfBuffer p \<Longrightarrow> scan_stops (AddNewData p d) = scan_stops p"
  by (simp add: scan_stops_def)
    (simp add: scan_stops_def split: if_splits, simp add: scan_stops_def parser_tests_AddNewData)

lemma scan_at_end [simp]: "EndOfBuffer p \<Longrightarrow> scan_line p = (EXTRACTION_CRLF_NOT_FOUND, p)"
  by (simp add: scan_line_eq [of p])

lemma scan_stop: "\<not> EndOfBuffer p \<Longrightarrow> scan_stops p = Some r \<Longrightarrow> scan_line p = (r, p)"
  by (simp add: scan_line_eq [of p])

lemma scan_more:
  "\<not> EndOfBuffer p \<Longrightarrow> scan_stops p = None \<Longrightarrow> scan_line p = scan_line (Advance p 1)"
  by (simp add: scan_line_eq [of p])

lemma scan_induct [case_names at_end stop more]:
  assumes "\<And>p. EndOfBuffer p \<Longrightarrow> P p"
    and "\<And>p r. \<not> EndOfBuffer p \<Longrightarrow> scan_stops p = Some r \<Longrightarrow> P p"
    and "\<And>p. \<not> EndOfBuffer p \<Longrightarrow> scan_stops p = None \<Longrightarrow> P (Advance p 1) \<Longrightarrow> P p"
  shows "P (p :: request_parser)"
proof (induction "nat (int (length (rp_buf p)) - rp_idx p)" arbitrary: p rule: less_induct)
  case less
  show ?case
  proof (cases "EndOfBuffer p \<or> scan_stops p \<noteq> None")
    case True
    then show ?thesis using assms(1) [of p] assms(2) [of p] by (cases "scan_stops p") auto
  next
    case False
    then have "P (Advance p 1)" by (intro less) (auto simp: EndOfBuffer_def)
    with False show ?thesis using assms(3) [of p] by simp
  qed
qed

lemma scan_line_buf [simp]: "rp_buf (snd (scan_line p)) = rp_buf p"
  by (induction p rule: scan_induct) (simp_all add: scan_stop scan_more)

lemma scan_line_idx: "rp_idx p \<le> rp_idx (snd (scan_line p))"
  by (induction p rule: scan_induct) (simp_all add: scan_stop scan_more)

lemma scan_line_found:
  "fst (scan_line p) = EXTRACTION_SUCCESS \<Longrightarrow> EndsWithCRLF (snd (scan_line p))"
  by (induction p rule: scan_induct) (simp_all add: scan_stop scan_more scan_stops_facts)

lemma scan_line_not_found:
  "fst (scan_line p) = EXTRACTION_CRLF_NOT_FOUND \<Longrightarrow> \<not> EndOfBuffer p \<Longrightarrow>
    rp_idx (snd (scan_line p)) = int (length (rp_buf p))"
proof (induction p rule: scan_induct)
  case (stop p r)
  then show ?case using scan_stops_facts(1) [of p] by (simp add: scan_stop)
next
  case (more p)
  show ?case
  proof (cases "EndOfBuffer (Advance p 1)")
    case True
    with more(1) have "rp_idx p + 1 = int (length (rp_buf p))" by (simp add: EndOfBuffer_def)
    with True more show ?thesis by (simp add: scan_more)
  next
    case False
    with more show ?thesis by (simp add: scan_more)
  qed
qed simp

text \<open>More data in the buffer does not change the line that is found; without one, the scan goes
  on where it stopped.\<close>

lemma scan_line_AddNewData:
  "scan_line (AddNewData p d) =
    (if fst (scan_line p) = EXTRACTION_CRLF_NOT_FOUND
     then scan_line (AddNewData (snd (scan_line p)) d)
     else (fst (scan_line p), AddNewData (snd (scan_line p)) d))"
proof (induction p rule: scan_induct)
  case (at_end p)
  then show ?case by simp
next
  case (stop p r)
  then have "scan_line (AddNewData p d) = (r, AddNewData p d)"
    by (intro scan_stop) (simp_all add: scan_stops_facts parser_tests_AddNewData)
  with stop show ?case using scan_stops_facts(1) [of p] by (auto simp: scan_stop)
next
  case (more p)
  then have "scan_line (AddNewData p d) = scan_line (AddNewData (Advance p 1) d)"
    by (subst scan_more)
      (simp_all add: scan_stops_facts parser_tests_AddNewData AddNewData_Advance)
  with more show ?case by (simp add: scan_more)
qed

section \<open>Steps that do not look at the buffer\<close>

text \<open>
  The parsing steps after a line has been taken off the buffer read and write neither the parser
  nor the status the builder shows; \<open>touch\<close> replaces both.
\<close>

definition touch :: "request_parser \<Rightarrow> rq_builder_status \<Rightarrow> request_builder \<Rightarrow> request_builder" where
  "touch p s b = b\<lparr>rb_parser := p, rb_status := s\<rparr>"

lemma touch_simps [simp]:
  "rb_parser (touch p s b) = p" "rb_status (touch p s b) = s" "rb_rq (touch p s b) = rb_rq b"
  "rb_extraction (touch p s b) = rb_extraction b" "rb_state (touch p s b) = rb_state b"
  "rb_body (touch p s b) = rb_body b" "rb_header_count (touch p s b) = rb_header_count b"
  "rb_section_size (touch p s b) = rb_section_size b" "rb_has_body (touch p s b) = rb_has_body b"
  "(touch p s b)\<lparr>rb_rq := r\<rparr> = touch p s (b\<lparr>rb_rq := r\<rparr>)"
  "(touch p s b)\<lparr>rb_state := t\<rparr> = touch p s (b\<lparr>rb_state := t\<rparr>)"
  "(touch p s b)\<lparr>rb_body := y\<rparr> = touch p s (b\<lparr>rb_body := y\<rparr>)"
  "(touch p s b)\<lparr>rb_header_count := n\<rparr> = touch p s (b\<lparr>rb_header_count := n\<rparr>)"
  "(touch p s b)\<lparr>rb_section_size := n\<rparr> = touch p s (b\<lparr>rb_section_size := n\<rparr>)"
  "(touch p s b)\<lparr>rb_has_body := h\<rparr> = touch p s (b\<lparr>rb_has_body := h\<rparr>)"
  "(touch p s b)\<lparr>rb_extraction := x\<rparr> = touch p s (b\<lparr>rb_extraction := x\<rparr>)"
  by (simp_all add: touch_def)

lemma feed_touch: "feed_builder b d = touch (AddNewData (rb_parser b) d) (rb_status b) b"
  by (simp add: feed_builder_def touch_def)

lemma status_touch: "b\<lparr>rb_status := s\<rparr> = touch (rb_parser b) s b"
  by (simp add: touch_def)

abbreviation touch_result where
  "touch_result p s r \<equiv> (fst r, touch p s (snd r))"

lemma touch_TrySet:
  "TrySetMethod m (touch p s b) = touch_result p s (TrySetMethod m b)"
  "TrySetRqTarget t (touch p s b) = map_outcome (touch_result p s) (TrySetRqTarget t b)"
  "TrySetVersion v (touch p s b) = touch_result p s (TrySetVersion v b)"
  by (simp add: TrySetMethod_def split: option.splits,
      cases "RqTarget_of_raw t", simp_all add: TrySetRqTarget_def TrySetVersion_def
      split: option.splits)

lemma touch_set_request_line:
  "set_request_line parts (touch p s b)
    = map_outcome (touch_result p s) (set_request_line parts b)"
proof (cases parts)
  case (fields m t v)
  obtain rc b1 where m: "TrySetMethod m b = (rc, b1)" by fastforce
  show ?thesis
  proof (cases "TrySetRqTarget t b1")
    case (Inr q)
    then show ?thesis
      by (cases q; cases "TrySetVersion v (snd q)")
        (simp add: fields set_request_line_def touch_TrySet m)
  qed (simp add: fields set_request_line_def touch_TrySet m)
qed

lemma touch_parse_first_line:
  "parse_first_line (touch p s b) = map_outcome (touch_result p s) (parse_first_line b)"
  by (simp add: parse_first_line_def Let_def touch_set_request_line split: option.splits)

lemma touch_parse_header_line:
  "parse_header_line (touch p s b) = touch_result p s (parse_header_line b)"
  by (simp add: parse_header_line_def Let_def InsertHeaderField_def
      split: option.splits prod.splits)

lemma touch_parse_chunk_size:
  "parse_chunk_size (touch p s b) = touch_result p s (parse_chunk_size b)"
  by (simp add: parse_chunk_size_def Let_def finish_body_def split: option.splits)

lemma touch_InterpretHeaders:
  "InterpretHeaders (touch p s b) = touch_result p s (InterpretHeaders b)"
  by (simp add: InterpretHeaders_def Let_def check_method_body_def note_chunked_def
      split: option.splits)

lemma touch_open_body:
  "open_body e vr (touch p s b) = map_outcome (touch_result p s) (open_body e vr b)"
  by (simp add: open_body_def Let_def split: option.splits)

lemma touch_PrepareBody:
  "PrepareBody e vr (touch p s b) = map_outcome (touch_result p s) (PrepareBody e vr b)"
  by (cases "open_body e vr (b\<lparr>rb_body := (rb_body b)\<lparr>bb_max := word_of_int (hv_max_body_size vr)\<rparr>\<rparr>)")
    (simp_all add: PrepareBody_def Let_def touch_open_body split: prod.splits)

lemma touch_ProcessHeaders:
  "ProcessHeaders e (touch p s b) = map_outcome (touch_result p s) (ProcessHeaders e b)"
  by (cases "InterpretHeaders b")
    (simp add: ProcessHeaders_def Let_def touch_InterpretHeaders touch_PrepareBody)

lemmas touch_steps = touch_parse_first_line touch_parse_header_line touch_parse_chunk_size
  touch_ProcessHeaders

section \<open>Each step and data that comes later\<close>

lemma TryToExtractLine_feed:
  "TryToExtractLine (feed_builder b d) =
    (if fst (TryToExtractLine b) = EXTRACTION_CRLF_NOT_FOUND
     then TryToExtractLine (feed_builder (snd (TryToExtractLine b)) d)
     else (fst (TryToExtractLine b), feed_builder (snd (TryToExtractLine b)) d))"
  using scan_line_AddNewData [of "rb_parser b" d] scan_line_found [of "rb_parser b"]
  by (cases "scan_line (rb_parser b)")
    (simp add: TryToExtractLine_def ExtractLine_AddNewData feed_builder_def split: prod.splits)

lemma TryToExtractLine_not_found:
  assumes "fst (TryToExtractLine b) = EXTRACTION_CRLF_NOT_FOUND" "\<not> EndOfBuffer (rb_parser b)"
  shows "snd (TryToExtractLine b) = b\<lparr>rb_parser := (rb_parser b)\<lparr>rp_idx := int (length (rp_buf (rb_parser b)))\<rparr>\<rparr>"
proof -
  obtain r p where r: "scan_line (rb_parser b) = (r, p)" by fastforce
  with assms(1) have "r = EXTRACTION_CRLF_NOT_FOUND"
    by (simp add: TryToExtractLine_def split: if_splits)
  with r scan_line_not_found [of "rb_parser b"] scan_line_buf [of "rb_parser b"] assms(2)
  have "p = (rb_parser b)\<lparr>rp_idx := int (length (rp_buf (rb_parser b)))\<rparr>" by simp
  with r \<open>r = _\<close> show ?thesis by (simp add: TryToExtractLine_def)
qed

text \<open>A step that extracts a line and hands it to \<open>g\<close>.\<close>

definition line_step ::
  "build_state \<Rightarrow> (request_builder \<Rightarrow> (build_state \<times> request_builder) outcome)
     \<Rightarrow> request_builder \<Rightarrow> (build_state \<times> request_builder) outcome" where
  "line_step st g b =
     (case TryToExtractLine b of (r, b1) \<Rightarrow>
        (case r of
           EXTRACTION_SUCCESS \<Rightarrow> g b1
         | EXTRACTION_CRLF_NOT_FOUND \<Rightarrow> Inr (st, b1)
         | _ \<Rightarrow> Inr (SetStatusAndExitBuilder HTTP_BAD_REQUEST b1)))"

lemma BuildStep_lines:
  "rb_state b = BS_RQ_LINE \<Longrightarrow>
    BuildStep e b = map_outcome set_build_state (line_step BS_RQ_LINE parse_first_line b)"
  "rb_state b = BS_HEADER_FIELDS \<Longrightarrow> BuildStep e b = map_outcome set_build_state
    (line_step BS_HEADER_FIELDS (\<lambda>b. Inr (parse_header_line b)) b)"
  "rb_state b = BS_BODY_CHUNK_SIZE \<Longrightarrow> BuildStep e b = map_outcome set_build_state
    (line_step BS_BODY_CHUNK_SIZE (\<lambda>b. Inr (parse_chunk_size b)) b)"
  by (simp_all add: BuildStep_def line_step_def BuildFirstLine_def BuildHeaderField_def
      BuildBodyChunkSize_def map_outcome_def split: prod.splits extraction_result.splits)

lemma line_step_feed:
  assumes g: "\<And>b1. g (feed_builder b1 d) = map_outcome (\<lambda>r. feed_result r d) (g b1)"
    and "rb_state b = st" "\<not> EndOfBuffer (rb_parser b)" "d \<noteq> []"
  shows "line_step st g (feed_builder b d) = map_outcome (\<lambda>r. feed_result r d) (line_step st g b)
    \<or> (\<exists>b1. line_step st g b = Inr (st, b1) \<and> \<not> EndOfBuffer (AddNewData (rb_parser b1) d)
          \<and> line_step st g (feed_builder b d) = line_step st g (feed_builder b1 d)
          \<and> rb_state b1 = st)"
proof -
  obtain r b1 where r: "TryToExtractLine b = (r, b1)" by fastforce
  show ?thesis
  proof (cases "r = EXTRACTION_CRLF_NOT_FOUND")
    case True
    with r have b1: "b1 = b\<lparr>rb_parser := (rb_parser b)\<lparr>rp_idx := int (length (rp_buf (rb_parser b)))\<rparr>\<rparr>"
      using TryToExtractLine_not_found [of b] assms by simp
    have "TryToExtractLine (feed_builder b d) = TryToExtractLine (feed_builder b1 d)"
      using r True TryToExtractLine_feed [of b d] by simp
    with r True assms(2,4) show ?thesis
      by (auto simp: line_step_def b1 EndOfBuffer_def)
  next
    case False
    with r TryToExtractLine_feed [of b d]
    have "TryToExtractLine (feed_builder b d) = (r, feed_builder b1 d)" by simp
    with r False show ?thesis by (cases r) (simp_all add: line_step_def g)
  qed
qed

text \<open>What commutes with \<open>touch\<close> leaves parser and status alone, and commutes with new data.\<close>

lemma touch_self: "touch (rb_parser b) (rb_status b) b = b"
  by (simp add: touch_def)

lemma touch_keeps:
  assumes "\<And>p s. g (touch p s b) = map_outcome (touch_result p s) (g b)" "g b = Inr r"
  shows "rb_parser (snd r) = rb_parser b \<and> rb_status (snd r) = rb_status b"
proof -
  have "Inr r = map_outcome (touch_result (rb_parser b) (rb_status b)) (g b)"
    using assms(1) [of "rb_parser b" "rb_status b"] assms(2) by (simp add: touch_self)
  then have "snd r = touch (rb_parser b) (rb_status b) (snd r)" using assms(2) by (cases r) simp
  then have "rb_parser (snd r) = rb_parser (touch (rb_parser b) (rb_status b) (snd r))"
    "rb_status (snd r) = rb_status (touch (rb_parser b) (rb_status b) (snd r))"
    by (metis, metis)
  then show ?thesis by simp
qed

lemma touch_feed:
  assumes "\<And>p s. g (touch p s b) = map_outcome (touch_result p s) (g b)"
  shows "g (feed_builder b d) = map_outcome (\<lambda>r. feed_result r d) (g b)"
proof (cases "g b")
  case (Inr r)
  with touch_keeps [OF assms Inr] assms show ?thesis by (simp add: feed_touch)
qed (simp add: feed_touch assms)

section \<open>The body and data that comes later\<close>

text \<open>What \<open>MoveToStream\<close> leaves of the body: the transfer in terms of the number still expected.\<close>

definition words_left :: "64 word \<Rightarrow> nat \<Rightarrow> 64 word" where
  "words_left w n = word_of_nat (unat w - n)"

lemma words_left_simps [simp]:
  "unat (words_left w n) = unat w - n" "words_left w n = 0 \<longleftrightarrow> unat w \<le> n"
  "words_left (words_left w n) m = words_left w (n + m)" "words_left w 0 = w"
proof -
  show "unat (words_left w n) = unat w - n" for w n
    unfolding words_left_def by (metis diff_le_self le_unat_uoi)
  then show "words_left w n = 0 \<longleftrightarrow> unat w \<le> n" "words_left (words_left w n) m = words_left w (n + m)"
    by (metis diff_is_0_eq unat_eq_0, simp add: word_unat_eq_iff)
  show "words_left w 0 = w" by (simp add: words_left_def)
qed

lemma words_left_done: "unat w \<le> n \<Longrightarrow> words_left w n = 0"
  by simp

lemma words_left_pos [simp]: "0 < words_left w n \<longleftrightarrow> n < unat w"
  by (metis not_less word_greater_zero_iff words_left_simps(2))

lemma words_left_minus: "n \<le> unat w \<Longrightarrow> w - word_of_nat n = words_left w n"
  by (simp add: words_left_def of_nat_diff)

lemma move_body_eq:
  "move_body b =
    (let r = unat (bb_remaining (rb_body b)) in
     b\<lparr>rb_parser := \<lparr>rp_buf = drop r (rp_buf (rb_parser b)), rp_idx = 0\<rparr>,
       rb_body := (stream_write (take r (rp_buf (rb_parser b))) (rb_body b))
         \<lparr>bb_remaining := words_left (bb_remaining (rb_body b)) (length (rp_buf (rb_parser b)))\<rparr>\<rparr>)"
  using words_left_simps(2) [of "bb_remaining (rb_body b)" "length (rp_buf (rb_parser b))"]
  by (auto simp: move_body_def MoveToStream_def Let_def not_less words_left_minus
      words_left_done simp del: words_left_simps(2))

lemma stream_write_simps [simp]:
  "stream_write [] bb = bb"
  "stream_write y (stream_write x bb) = stream_write (x @ y) bb"
  "bb_remaining (stream_write x bb) = bb_remaining bb"
  "bb_max (stream_write x bb) = bb_max bb" "bb_body_len (stream_write x bb) = bb_body_len bb"
  "bb_chunked (stream_write x bb) = bb_chunked bb" "bb_open (stream_write x bb) = bb_open bb"
  "bb_fail (stream_write x bb) = bb_fail bb"
  "stream_write x (bb\<lparr>bb_remaining := n\<rparr>) = (stream_write x bb)\<lparr>bb_remaining := n\<rparr>"
  by (simp_all add: stream_write_def)

lemma move_body_feed:
  "move_body (feed_builder b d) =
    (if unat (bb_remaining (rb_body b)) \<le> length (rp_buf (rb_parser b))
     then feed_builder (move_body b) d else move_body (feed_builder (move_body b) d))"
  by (simp add: move_body_eq Let_def AddNewData_def words_left_done)

lemma move_body_remaining [simp]:
  "bb_remaining (rb_body (move_body b)) =
    words_left (bb_remaining (rb_body b)) (length (rp_buf (rb_parser b)))"
  "rb_state (move_body b) = rb_state b"
  "rp_idx (rb_parser (move_body b)) = 0"
  "rp_buf (rb_parser (move_body b)) = drop (unat (bb_remaining (rb_body b))) (rp_buf (rb_parser b))"
  by (simp_all add: move_body_eq Let_def)

lemma finish_body_feed: "finish_body (feed_builder b d) = feed_builder (finish_body b) d"
  by (simp add: finish_body_def)

lemma BuildBodyRegular_feed:
  "BuildBodyRegular (feed_builder b d) =
    (if unat (bb_remaining (rb_body b)) \<le> length (rp_buf (rb_parser b))
     then feed_result (BuildBodyRegular b) d
     else BuildBodyRegular (feed_builder (move_body b) d))"
proof (cases "unat (bb_remaining (rb_body b)) \<le> length (rp_buf (rb_parser b))")
  case True
  with move_body_feed [of b d] show ?thesis by (simp add: BuildBodyRegular_def finish_body_feed)
next
  case False
  with move_body_feed [of b d]
  have "move_body (feed_builder b d) = move_body (feed_builder (move_body b) d)" by simp
  with False show ?thesis unfolding BuildBodyRegular_def by (simp only: if_False)
qed

lemma BuildBodyRegular_waits:
  "length (rp_buf (rb_parser b)) < unat (bb_remaining (rb_body b)) \<Longrightarrow>
    BuildBodyRegular b = (BS_BODY_REGULAR, move_body b)"
  by (simp add: BuildBodyRegular_def)

text \<open>A chunk: the transfer as above, then the line end that closes the chunk.\<close>

definition end_chunk :: "request_builder \<Rightarrow> build_state \<times> request_builder" where
  "end_chunk b =
     (if RemainingLength (rb_parser b) < 2 then (BS_BODY_CHUNK_CONTENT, b)
      else if \<not> BeginsWithCRLF (rb_parser b) then SetStatusAndExitBuilder HTTP_BAD_REQUEST b
      else (BS_BODY_CHUNK_SIZE, b\<lparr>rb_parser := Ignore (rb_parser b) 2\<rparr>))"

definition move_chunk :: "request_builder \<Rightarrow> request_builder" where
  "move_chunk b = (if 0 < bb_remaining (rb_body b) then move_body b else b)"

lemma BuildBodyChunkContent_eq:
  "BuildBodyChunkContent b =
    (if bb_remaining (rb_body (move_chunk b)) = 0 then end_chunk (move_chunk b)
     else (BS_BODY_CHUNK_CONTENT, move_chunk b))"
  by (simp add: BuildBodyChunkContent_def end_chunk_def move_chunk_def)

lemma RemainingLength_inside:
  "0 \<le> rp_idx p \<Longrightarrow> \<not> EndOfBuffer p \<Longrightarrow>
    RemainingLength p = length (rp_buf p) - nat (rp_idx p) \<and> nat (rp_idx p) < length (rp_buf p)"
  by (auto simp: RemainingLength_def EndOfBuffer_def size_minus_def)

lemma end_chunk_feed:
  assumes "0 \<le> rp_idx (rb_parser b)" "\<not> EndOfBuffer (rb_parser b)"
    "2 \<le> RemainingLength (rb_parser b)"
  shows "end_chunk (feed_builder b d) = feed_result (end_chunk b) d"
proof -
  let ?p = "rb_parser b"
  have len: "2 \<le> length (rp_buf ?p)" using RemainingLength_inside [OF assms(1,2)] assms(3) by simp
  then have "BeginsWithCRLF (AddNewData ?p d) = BeginsWithCRLF ?p"
    "Ignore (AddNewData ?p d) 2 = AddNewData (Ignore ?p 2) d"
    by (auto simp: BeginsWithCRLF_def nth_append Ignore_def Let_def AddNewData_def)
  moreover have "2 \<le> RemainingLength (AddNewData ?p d)"
    using RemainingLength_inside [of "AddNewData ?p d"] RemainingLength_inside [of ?p] assms
      parser_tests_AddNewData(1) [of ?p d] by simp
  ultimately show ?thesis using assms(3) by (simp add: end_chunk_def)
qed

lemma move_chunk_eq:
  "move_chunk b = (if bb_remaining (rb_body b) = 0 then b else move_body b)"
  using word_neq_0_conv [of "bb_remaining (rb_body b)"] by (simp add: move_chunk_def)

lemma move_chunk_simps [simp]:
  "rb_state (move_chunk b) = rb_state b"
  by (simp add: move_chunk_eq)

lemma BuildBodyChunkContent_feed:
  assumes "parser_ok b" "\<not> EndOfBuffer (rb_parser b)"
  shows "BuildBodyChunkContent (feed_builder b d) = feed_result (BuildBodyChunkContent b) d
    \<or> (BuildBodyChunkContent b = (BS_BODY_CHUNK_CONTENT, move_chunk b)
       \<and> (RemainingLength (rb_parser (move_chunk b)) < 2 \<or> EndOfBuffer (rb_parser (move_chunk b)))
       \<and> BuildBodyChunkContent (feed_builder b d)
           = BuildBodyChunkContent (feed_builder (move_chunk b) d))"
    (is "?commutes \<or> ?waits")
proof -
  let ?r = "unat (bb_remaining (rb_body b))" and ?n = "length (rp_buf (rb_parser b))"
  show ?thesis
  proof (cases "?r \<le> ?n")
    case False
    then have pos: "bb_remaining (rb_body b) \<noteq> 0" by auto
    from False have "move_body (feed_builder b d) = move_body (feed_builder (move_body b) d)"
      using move_body_feed [of b d] by simp
    with pos False have ?waits
      by (simp add: BuildBodyChunkContent_eq move_chunk_eq EndOfBuffer_def)
    then show ?thesis ..
  next
    case True
    then have rem: "bb_remaining (rb_body (move_chunk b)) = 0"
      by (simp add: move_chunk_eq words_left_done)
    from True have move: "move_chunk (feed_builder b d) = feed_builder (move_chunk b) d"
      using move_body_feed [of b d] by (simp add: move_chunk_eq)
    have again: "move_chunk (feed_builder (move_chunk b) d) = feed_builder (move_chunk b) d"
      using rem by (simp add: move_chunk_eq [of "feed_builder (move_chunk b) d"])
    show ?thesis
    proof (cases "RemainingLength (rb_parser (move_chunk b)) < 2")
      case True
      then have ?waits
        using rem move again by (simp add: BuildBodyChunkContent_eq end_chunk_def)
      then show ?thesis ..
    next
      case False
      moreover have "0 \<le> rp_idx (rb_parser (move_chunk b))"
        using assms(1) by (simp add: move_chunk_eq parser_ok_def)
      moreover from False assms(2) have "\<not> EndOfBuffer (rb_parser (move_chunk b))"
        by (auto simp: move_chunk_eq EndOfBuffer_def RemainingLength_def size_minus_def
            split: if_splits)
      ultimately have ?commutes
        using rem move end_chunk_feed [of "move_chunk b" d]
        by (simp add: BuildBodyChunkContent_eq)
      then show ?thesis ..
    qed
  qed
qed

section \<open>The loop\<close>

lemma CanBuild_eq:
  "fst (CanBuild b) \<longleftrightarrow> rb_state b \<noteq> BS_BAD_REQUEST \<and> rb_state b \<noteq> BS_END
     \<and> (rb_state b = BS_AFTER_HEADERS \<or> \<not> EndOfBuffer (rb_parser b))"
  "fst (CanBuild b) \<Longrightarrow> snd (CanBuild b) = b"
  by (simp add: CanBuild_def, auto simp: CanBuild_def split: if_splits)

lemma BuildStep_feed:
  assumes "parser_ok b" "fst (CanBuild b)" "d \<noteq> []"
  shows "BuildStep e (feed_builder b d) = feed (BuildStep e b) d
    \<or> loop_cond (feed (BuildStep e b) d)
      \<and> BuildStep e (feed_builder b d) = loop_body e (feed (BuildStep e b) d)"
proof -
  note can = assms(2) [unfolded CanBuild_eq]
  have lines: ?thesis
    if step: "\<And>b1. rb_state b1 = st \<Longrightarrow>
        BuildStep e b1 = map_outcome set_build_state (line_step st g b1)"
      and st: "rb_state b = st" "st \<in> {BS_RQ_LINE, BS_HEADER_FIELDS, BS_BODY_CHUNK_SIZE}"
      and touch: "\<And>p s b1. g (touch p s b1) = map_outcome (touch_result p s) (g b1)"
    for st g
  proof -
    from can st have "\<not> EndOfBuffer (rb_parser b)" by auto
    from line_step_feed [of g d b st, OF touch_feed [of g, OF touch] st(1) this assms(3)]
    consider "line_step st g (feed_builder b d)
        = map_outcome (\<lambda>r. feed_result r d) (line_step st g b)"
      | b1 where "line_step st g b = Inr (st, b1)" "\<not> EndOfBuffer (AddNewData (rb_parser b1) d)"
        "line_step st g (feed_builder b d) = line_step st g (feed_builder b1 d)" "rb_state b1 = st"
      by blast
    then show ?thesis
    proof cases
      case 1
      then show ?thesis
        using step [OF st(1)] step [of "feed_builder b d"] st
        by (cases "line_step st g b") (auto simp: set_build_state_def split: prod.splits)
    next
      case 2
      have "b1\<lparr>rb_state := st\<rparr> = b1" using 2(4) by (simp flip: 2(4))
      then have "BuildStep e b = Inr b1" using step [OF st(1)] 2(1) by simp
      moreover have "BuildStep e (feed_builder b d) = BuildStep e (feed_builder b1 d)"
        using step [of "feed_builder b d"] step [of "feed_builder b1 d"] st(1) 2(3,4) by simp
      moreover have "fst (CanBuild (feed_builder b1 d))"
        using 2(2,4) st(2) by (auto simp: CanBuild_eq)
      ultimately show ?thesis by (simp add: loop_cond_def loop_body_def CanBuild_eq(2))
    qed
  qed
  show ?thesis
  proof (cases "rb_state b")
    case BS_RQ_LINE
    then show ?thesis by (intro lines [OF BuildStep_lines(1)]) (auto simp: touch_steps)
  next
    case BS_HEADER_FIELDS
    then show ?thesis by (intro lines [OF BuildStep_lines(2)]) (auto simp: touch_steps)
  next
    case BS_BODY_CHUNK_SIZE
    then show ?thesis by (intro lines [OF BuildStep_lines(3)]) (auto simp: touch_steps)
  next
    case BS_AFTER_HEADERS
    then have "BuildStep e (feed_builder b d) = feed (BuildStep e b) d"
      using touch_feed [of "ProcessHeaders e" b d, OF touch_ProcessHeaders]
      by (cases "ProcessHeaders e b") (auto simp: BuildStep_def set_build_state_def)
    then show ?thesis ..
  next
    case BS_BODY_REGULAR
    show ?thesis
    proof (cases "unat (bb_remaining (rb_body b)) \<le> length (rp_buf (rb_parser b))")
      case True
      then show ?thesis using BuildBodyRegular_feed [of b d] BS_BODY_REGULAR
        by (cases "BuildBodyRegular b") (simp add: BuildStep_def)
    next
      case False
      have "(move_body b)\<lparr>rb_state := BS_BODY_REGULAR\<rparr> = move_body b"
        using BS_BODY_REGULAR by (simp add: move_body_eq Let_def)
      with False BS_BODY_REGULAR have "BuildStep e b = Inr (move_body b)"
        by (simp add: BuildStep_def BuildBodyRegular_waits)
      moreover have "BuildStep e (feed_builder b d) = BuildStep e (feed_builder (move_body b) d)"
        using False BuildBodyRegular_feed [of b d] BS_BODY_REGULAR by (simp add: BuildStep_def)
      moreover have "fst (CanBuild (feed_builder (move_body b) d))"
        using False BS_BODY_REGULAR assms(3) by (simp add: CanBuild_eq EndOfBuffer_def)
      ultimately show ?thesis by (simp add: loop_cond_def loop_body_def CanBuild_eq(2))
    qed
  next
    case BS_BODY_CHUNK_CONTENT
    then have noend: "\<not> EndOfBuffer (rb_parser b)" using can by simp
    have same: "(move_chunk b)\<lparr>rb_state := BS_BODY_CHUNK_CONTENT\<rparr> = move_chunk b"
      using BS_BODY_CHUNK_CONTENT by (simp add: move_chunk_eq move_body_eq Let_def)
    from BuildBodyChunkContent_feed [OF assms(1) noend, of d] show ?thesis
    proof
      assume "BuildBodyChunkContent (feed_builder b d) = feed_result (BuildBodyChunkContent b) d"
      then show ?thesis using BS_BODY_CHUNK_CONTENT
        by (cases "BuildBodyChunkContent b") (simp add: BuildStep_def)
    next
      assume w: "BuildBodyChunkContent b = (BS_BODY_CHUNK_CONTENT, move_chunk b)
       \<and> (RemainingLength (rb_parser (move_chunk b)) < 2 \<or> EndOfBuffer (rb_parser (move_chunk b)))
       \<and> BuildBodyChunkContent (feed_builder b d)
           = BuildBodyChunkContent (feed_builder (move_chunk b) d)"
      have "\<not> EndOfBuffer (AddNewData (rb_parser (move_chunk b)) d)"
        using noend assms(3) by (cases d) (auto simp: move_chunk_eq EndOfBuffer_def)
      then have "fst (CanBuild (feed_builder (move_chunk b) d))"
        using BS_BODY_CHUNK_CONTENT by (simp add: CanBuild_eq)
      moreover have "BuildStep e b = Inr (move_chunk b)"
        using w same BS_BODY_CHUNK_CONTENT by (simp add: BuildStep_def)
      moreover have "BuildStep e (feed_builder b d) = BuildStep e (feed_builder (move_chunk b) d)"
        using w BS_BODY_CHUNK_CONTENT by (simp add: BuildStep_def)
      ultimately show ?thesis by (simp add: loop_cond_def loop_body_def CanBuild_eq(2))
    qed
  qed (use can in auto)
qed
section \<open>Progress\<close>

text \<open>
  The state in which the loop makes no progress: the chunk has been read, one byte of what should
  be its line end has arrived, and \<open>CanBuild_\<close> goes on because the buffer is not at its end.
\<close>

definition stuck :: "request_builder \<Rightarrow> bool" where
  [eval_simps]: "stuck b \<longleftrightarrow> rb_state b = BS_BODY_CHUNK_CONTENT \<and> bb_remaining (rb_body b) = 0
     \<and> \<not> EndOfBuffer (rb_parser b) \<and> RemainingLength (rb_parser b) < 2"

abbreviation final_state :: "build_state \<Rightarrow> bool" where
  "final_state st \<equiv> st = BS_BAD_REQUEST \<or> st = BS_END"

definition buffer_size :: "request_parser \<Rightarrow> nat \<times> nat" where
  "buffer_size p = (length (rp_buf p), nat (int (length (rp_buf p)) - rp_idx p))"

definition loop_size :: "request_builder outcome \<Rightarrow> nat \<times> nat \<times> nat" where
  "loop_size s = (case s of Inl _ \<Rightarrow> (0, 0, 0)
     | Inr b \<Rightarrow>
         (if final_state (rb_state b) then (0, 0, 0)
          else (Suc (fst (buffer_size (rb_parser b))), snd (buffer_size (rb_parser b)),
                if rb_state b = BS_AFTER_HEADERS then 1 else 0)))"

definition loop_progress :: "(request_builder outcome \<times> request_builder outcome) set" where
  "loop_progress = inv_image (less_than <*lex*> less_than <*lex*> less_than) loop_size"

definition loop_inv :: "request_builder outcome \<Rightarrow> bool" where
  "loop_inv s = (case s of Inl _ \<Rightarrow> True | Inr b \<Rightarrow> parser_ok b)"

definition loop_idle :: "request_builder outcome \<Rightarrow> bool" where
  "loop_idle s = (case s of Inl _ \<Rightarrow> False | Inr b \<Rightarrow> stuck b)"

lemma loop_progress_simps:
  "\<not> final_state (rb_state b) \<Longrightarrow> (Inl x, Inr b) \<in> loop_progress"
  "\<not> final_state (rb_state b) \<Longrightarrow> (Inr c, Inr b) \<in> loop_progress \<longleftrightarrow>
     final_state (rb_state c)
     \<or> length (rp_buf (rb_parser c)) < length (rp_buf (rb_parser b))
     \<or> length (rp_buf (rb_parser c)) = length (rp_buf (rb_parser b))
       \<and> (snd (buffer_size (rb_parser c)) < snd (buffer_size (rb_parser b))
          \<or> snd (buffer_size (rb_parser c)) = snd (buffer_size (rb_parser b))
            \<and> rb_state c \<noteq> BS_AFTER_HEADERS \<and> rb_state b = BS_AFTER_HEADERS)"
  by (auto simp: loop_progress_def loop_size_def buffer_size_def)

text \<open>The parser after a line step: moved over the bytes it has scanned, or the line cut off.\<close>

lemma line_step_parser:
  assumes ok: "0 \<le> rp_idx (rb_parser b)" "\<not> EndOfBuffer (rb_parser b)"
    and touch: "\<And>p s b1. g (touch p s b1) = map_outcome (touch_result p s) (g b1)"
    and res: "line_step st g b = Inr (s', b1)"
  shows "0 \<le> rp_idx (rb_parser b1)
    \<and> (length (rp_buf (rb_parser b1)) < length (rp_buf (rb_parser b))
       \<or> rp_buf (rb_parser b1) = rp_buf (rb_parser b)
         \<and> (rp_idx (rb_parser b) < rp_idx (rb_parser b1) \<and> s' = st
            \<or> rp_idx (rb_parser b) \<le> rp_idx (rb_parser b1) \<and> s' = BS_BAD_REQUEST))"
proof -
  let ?p = "rb_parser b"
  obtain r q where scan: "scan_line ?p = (r, q)" by fastforce
  have q: "rp_buf q = rp_buf ?p" "rp_idx ?p \<le> rp_idx q"
    using scan scan_line_buf [of ?p] scan_line_idx [of ?p] by simp_all
  show ?thesis
  proof (cases "r = EXTRACTION_SUCCESS")
    case True
    with scan scan_line_found [of ?p] have crlf: "EndsWithCRLF q" by simp
    let ?b = "b\<lparr>rb_extraction := fst (ExtractLine q), rb_parser := snd (ExtractLine q)\<rparr>"
    from scan True res have "g ?b = Inr (s', b1)"
      by (simp add: line_step_def TryToExtractLine_def)
    with touch_keeps [of g ?b, OF touch] have "rb_parser b1 = snd (ExtractLine q)" by fastforce
    moreover have "0 < length (rp_buf q)" using EndsWithCRLF_bounds [OF crlf] by auto
    ultimately show ?thesis
      using EndsWithCRLF_bounds [OF crlf] q by (simp add: ExtractLine_def Let_def)
  next
    case False
    show ?thesis
    proof (cases "r = EXTRACTION_CRLF_NOT_FOUND")
      case True
      with scan scan_line_not_found [of ?p] ok have "rp_idx q = int (length (rp_buf ?p))" by simp
      with scan True res q ok show ?thesis
        by (auto simp: line_step_def TryToExtractLine_def EndOfBuffer_def)
    next
      case False': False
      with False scan res q ok show ?thesis
        by (cases r) (auto simp: line_step_def TryToExtractLine_def)
    qed
  qed
qed

lemma line_step_progress:
  assumes "parser_ok b" "\<not> EndOfBuffer (rb_parser b)" "rb_state b = st" "\<not> final_state st"
    and touch: "\<And>p s b1. g (touch p s b1) = map_outcome (touch_result p s) (g b1)"
    and "BuildStep e b = map_outcome set_build_state (line_step st g b)"
    and "BuildStep e b = Inr c"
  shows "parser_ok c \<and> (Inr c, Inr b) \<in> loop_progress"
proof -
  from assms(6,7) obtain s' b1 where res: "line_step st g b = Inr (s', b1)"
    and c: "c = b1\<lparr>rb_state := s'\<rparr>"
    by (cases "line_step st g b") (auto simp: set_build_state_def)
  from line_step_parser [OF _ assms(2) touch res] assms(1)
  have "0 \<le> rp_idx (rb_parser b1)
    \<and> (length (rp_buf (rb_parser b1)) < length (rp_buf (rb_parser b))
       \<or> rp_buf (rb_parser b1) = rp_buf (rb_parser b)
         \<and> (rp_idx (rb_parser b) < rp_idx (rb_parser b1) \<and> s' = st
            \<or> rp_idx (rb_parser b) \<le> rp_idx (rb_parser b1) \<and> s' = BS_BAD_REQUEST))"
    by (simp add: parser_ok_def)
  with assms(2-4) show ?thesis
    by (auto simp: c parser_ok_def loop_progress_simps buffer_size_def EndOfBuffer_def)
qed
lemma BuildBodyRegular_progress:
  assumes "parser_ok b" "\<not> EndOfBuffer (rb_parser b)" "rb_state b = BS_BODY_REGULAR"
  shows "parser_ok (set_build_state (BuildBodyRegular b))
    \<and> (Inr (set_build_state (BuildBodyRegular b)), Inr b) \<in> loop_progress"
proof (cases "bb_remaining (rb_body b) = 0")
  case True
  with assms show ?thesis
    by (auto simp: BuildBodyRegular_def words_left_done finish_body_def parser_ok_def
        loop_progress_simps buffer_size_def)
qed (use assms in \<open>auto simp: BuildBodyRegular_def finish_body_def parser_ok_def
      loop_progress_simps EndOfBuffer_def\<close>)

lemma end_chunk_progress:
  assumes "0 \<le> rp_idx (rb_parser b)" "2 \<le> RemainingLength (rb_parser b)"
    "\<not> EndOfBuffer (rb_parser b)" "rb_state b = BS_BODY_CHUNK_CONTENT"
  shows "parser_ok (set_build_state (end_chunk b))
    \<and> (Inr (set_build_state (end_chunk b)), Inr b) \<in> loop_progress"
  using assms RemainingLength_inside [OF assms(1,3)]
  by (auto simp: end_chunk_def loop_progress_simps parser_ok_def buffer_size_def Ignore_def Let_def)

lemma BuildBodyChunkContent_progress:
  assumes "parser_ok b" "\<not> EndOfBuffer (rb_parser b)" "rb_state b = BS_BODY_CHUNK_CONTENT"
    "\<not> stuck b"
  shows "parser_ok (set_build_state (BuildBodyChunkContent b))
    \<and> (Inr (set_build_state (BuildBodyChunkContent b)), Inr b) \<in> loop_progress"
proof (cases "bb_remaining (rb_body b) = 0")
  case True
  with assms have "2 \<le> RemainingLength (rb_parser b)" by (simp add: stuck_def)
  with True assms end_chunk_progress [of b] show ?thesis
    by (simp add: BuildBodyChunkContent_eq move_chunk_eq parser_ok_def)
next
  case False
  have "parser_ok (set_build_state (BuildBodyChunkContent b))"
    using False
    by (auto simp: BuildBodyChunkContent_eq move_chunk_eq end_chunk_def parser_ok_def Ignore_def
        Let_def)
  moreover have "length (rp_buf (rb_parser (set_build_state (BuildBodyChunkContent b))))
      \<le> length (rp_buf (rb_parser (move_body b)))"
    using False
    by (auto simp: BuildBodyChunkContent_eq move_chunk_eq end_chunk_def Ignore_def Let_def)
  moreover have "0 < length (rp_buf (rb_parser b))"
    using assms(1,2) by (auto simp: parser_ok_def EndOfBuffer_def)
  moreover have "0 < unat (bb_remaining (rb_body b))" using False by (simp add: unat_gt_0)
  ultimately have "parser_ok (set_build_state (BuildBodyChunkContent b))"
    "length (rp_buf (rb_parser (set_build_state (BuildBodyChunkContent b))))
      < length (rp_buf (rb_parser b))"
    unfolding move_body_remaining length_drop by linarith+
  then show ?thesis using assms(3) by (simp add: loop_progress_simps)
qed

lemma BuildStep_progress:
  assumes "parser_ok b" "fst (CanBuild b)" "\<not> stuck b" "BuildStep e b = Inr c"
  shows "parser_ok c \<and> (Inr c, Inr b) \<in> loop_progress"
proof -
  note can = assms(2) [unfolded CanBuild_eq]
  show ?thesis
  proof (cases "rb_state b")
    case BS_RQ_LINE
    show ?thesis
      by (rule line_step_progress [where g = "parse_first_line", OF assms(1) _ BS_RQ_LINE _ _ _ assms(4)])
        (use can BS_RQ_LINE in \<open>simp_all add: touch_steps BuildStep_lines(1)\<close>)
  next
    case BS_HEADER_FIELDS
    show ?thesis
      by (rule line_step_progress [where g = "\<lambda>b. Inr (parse_header_line b)", OF assms(1) _ BS_HEADER_FIELDS _ _ _ assms(4)])
        (use can BS_HEADER_FIELDS in \<open>simp_all add: touch_steps BuildStep_lines(2)\<close>)
  next
    case BS_BODY_CHUNK_SIZE
    show ?thesis
      by (rule line_step_progress [where g = "\<lambda>b. Inr (parse_chunk_size b)", OF assms(1) _ BS_BODY_CHUNK_SIZE _ _ _ assms(4)])
        (use can BS_BODY_CHUNK_SIZE in \<open>simp_all add: touch_steps BuildStep_lines(3)\<close>)
  next
    case BS_AFTER_HEADERS
    with assms(4) obtain s' b1 where res: "ProcessHeaders e b = Inr (s', b1)"
      and c: "c = b1\<lparr>rb_state := s'\<rparr>"
      by (cases "ProcessHeaders e b") (auto simp: BuildStep_def set_build_state_def)
    moreover have "s' \<noteq> BS_AFTER_HEADERS"
      using res by (auto simp: ProcessHeaders_def PrepareBody_def Let_def bind_outcome_Inr_iff split: if_splits prod.splits)
    ultimately show ?thesis
      using touch_keeps [of "ProcessHeaders e" b, OF touch_ProcessHeaders res] assms(1)
        BS_AFTER_HEADERS
      by (simp add: c parser_ok_def loop_progress_simps)
  next
    case BS_BODY_REGULAR
    then show ?thesis
      using can assms BuildBodyRegular_progress [of b] by (auto simp: BuildStep_def)
  next
    case BS_BODY_CHUNK_CONTENT
    then show ?thesis
      using can assms BuildBodyChunkContent_progress [of b] by (auto simp: BuildStep_def)
  qed (use can in auto)
qed

lemma stuck_step: "stuck b \<Longrightarrow> fst (CanBuild b) \<and> BuildStep e b = Inr b"
  by (auto simp: stuck_def CanBuild_eq BuildStep_def BuildBodyChunkContent_def set_build_state_def)

interpretation builder_loop: incremental loop_inv loop_cond "loop_body e" feed loop_idle loop_progress
  for e
proof unfold_locales
  show "wf loop_progress" unfolding loop_progress_def by (intro wf_inv_image wf_lex_prod) auto
  fix s d
  assume inv: "loop_inv s" and can: "loop_cond s"
  then obtain b where b: "s = Inr b" "parser_ok b" "fst (CanBuild b)"
    by (auto simp: loop_inv_def loop_cond_def split: sum.splits)
  then have body: "loop_body e (Inr b) = BuildStep e b"
    by (simp add: loop_body_def CanBuild_eq(2))
  show "loop_inv (loop_body e s)"
    using b BuildStep_progress [OF b(2,3)] stuck_step [of b e]
    by (cases "BuildStep e b"; cases "stuck b") (auto simp: body loop_inv_def)
  show "\<not> loop_idle s \<Longrightarrow> (loop_body e s, s) \<in> loop_progress"
    using b BuildStep_progress [OF b(2,3)]
    by (cases "BuildStep e b")
      (auto simp: body loop_idle_def loop_progress_simps CanBuild_eq(1))
  show "d \<noteq> [] \<Longrightarrow> loop_body e (feed s d) = feed (loop_body e s) d
    \<or> loop_cond (feed (loop_body e s) d) \<and> loop_body e (feed s d) = loop_body e (feed (loop_body e s) d)"
  proof -
    assume "d \<noteq> []"
    have "fst (CanBuild (feed_builder b d))" using b(3) by (auto simp: CanBuild_eq EndOfBuffer_def)
    then have "loop_body e (feed s d) = BuildStep e (feed_builder b d)"
      using b by (simp add: loop_body_def CanBuild_eq(2))
    with BuildStep_feed [OF b(2,3) \<open>d \<noteq> []\<close>, of e] show ?thesis by (simp add: body b(1))
  qed
next
  fix s d assume "loop_cond s" then show "loop_cond (feed s d)"
    by (cases s) (auto simp: loop_cond_def CanBuild_eq EndOfBuffer_def)
next
  fix s assume "loop_idle s" then show "loop_cond s \<and> loop_body e s = s"
    using stuck_step
    by (cases s) (auto simp: loop_idle_def loop_cond_def loop_body_def CanBuild_eq(2))
qed
section \<open>The status does not steer the loop\<close>

definition set_status :: "rq_builder_status \<Rightarrow> request_builder \<Rightarrow> request_builder" where
  "set_status s b = b\<lparr>rb_status := s\<rparr>"

lemma touch_status:
  assumes "\<And>p s. g (touch p s b) = map_outcome (touch_result p s) (g b)"
  shows "g (set_status s b) = map_outcome (\<lambda>r. (fst r, set_status s (snd r))) (g b)"
proof -
  have "set_status s b = touch (rb_parser b) s b" by (simp add: touch_def set_status_def)
  then have g: "g (set_status s b) = map_outcome (touch_result (rb_parser b) s) (g b)"
    by (simp add: assms)
  show ?thesis
  proof (cases "g b")
    case (Inr r)
    with touch_keeps [OF assms Inr] g show ?thesis by (simp add: touch_def set_status_def)
  qed (simp add: g)
qed

lemma line_step_status:
  assumes "\<And>p s b1. g (touch p s b1) = map_outcome (touch_result p s) (g b1)"
  shows "line_step st g (set_status s b)
    = map_outcome (\<lambda>r. (fst r, set_status s (snd r))) (line_step st g b)"
proof -
  have g: "g (set_status s c) = map_outcome (\<lambda>r. (fst r, set_status s (snd r))) (g c)" for c
    by (rule touch_status) (rule assms)
  obtain r c where r: "TryToExtractLine b = (r, c)" by fastforce
  then have "TryToExtractLine (set_status s b) = (r, set_status s c)"
    by (auto simp: TryToExtractLine_def set_status_def split: prod.splits if_splits)
  with r g show ?thesis by (cases r) (simp_all add: line_step_def, simp_all add: set_status_def)
qed

lemma body_status:
  "BuildBodyRegular (set_status s b)
    = (fst (BuildBodyRegular b), set_status s (snd (BuildBodyRegular b)))"
  "BuildBodyChunkContent (set_status s b)
    = (fst (BuildBodyChunkContent b), set_status s (snd (BuildBodyChunkContent b)))"
  by (simp_all add: BuildBodyRegular_def BuildBodyChunkContent_eq move_chunk_eq move_body_eq
      Let_def finish_body_def end_chunk_def set_status_def)

lemma BuildStep_status:
  assumes "fst (CanBuild b)"
  shows "BuildStep e (set_status s b) = map_outcome (set_status s) (BuildStep e b)"
proof -
  have st: "rb_state (set_status s b) = rb_state b" by (simp add: set_status_def)
  have upd: "(set_status s (snd r))\<lparr>rb_state := fst r\<rparr> = set_status s (set_build_state r)" for r
    by (cases r) (simp add: set_status_def)
  have lines: ?thesis
    if "\<And>b1. rb_state b1 = st \<Longrightarrow>
        BuildStep e b1 = map_outcome set_build_state (line_step st g b1)"
      "rb_state b = st" "\<And>p s b1. g (touch p s b1) = map_outcome (touch_result p s) (g b1)"
    for st g
    using that(1) [of b] that(1) [of "set_status s b"] that(2) st
      line_step_status [of g st s b, OF that(3)]
    by (cases "line_step st g b") (simp_all add: upd)
  show ?thesis
  proof (cases "rb_state b")
    case BS_RQ_LINE
    then show ?thesis by (intro lines [OF BuildStep_lines(1)]) (auto simp: touch_steps)
  next
    case BS_HEADER_FIELDS
    then show ?thesis by (intro lines [OF BuildStep_lines(2)]) (auto simp: touch_steps)
  next
    case BS_BODY_CHUNK_SIZE
    then show ?thesis by (intro lines [OF BuildStep_lines(3)]) (auto simp: touch_steps)
  next
    case BS_AFTER_HEADERS
    then show ?thesis
      using touch_status [of "ProcessHeaders e" b s, OF touch_ProcessHeaders]
      by (cases "ProcessHeaders e b") (simp_all add: BuildStep_def st upd)
  qed (use assms in \<open>simp_all add: BuildStep_def st upd body_status CanBuild_eq\<close>)
qed

lemma run_status:
  "while_option loop_cond (loop_body e) (map_outcome (set_status s) x)
    = map_option (map_outcome (set_status s)) (while_option loop_cond (loop_body e) x)"
proof (rule while_option_commute [symmetric])
  fix x
  show "loop_cond x = loop_cond (map_outcome (set_status s) x)"
    by (cases x) (simp_all add: loop_cond_def CanBuild_eq set_status_def)
  show "map_outcome (set_status s) (loop_body e x) = loop_body e (map_outcome (set_status s) x)"
    if "loop_cond x"
  proof (cases x)
    case (Inr b)
    with that have "fst (CanBuild b)" "fst (CanBuild (set_status s b))"
      by (simp_all add: loop_cond_def CanBuild_eq set_status_def)
    then show ?thesis by (simp add: Inr loop_body_def CanBuild_eq(2) BuildStep_status)
  qed (simp add: loop_body_def)
qed

lemma after_loop_status:
  "\<not> fst (CanBuild b) \<Longrightarrow>
    after_loop b = set_status (if final_state (rb_state b) then RB_DONE else RB_NEED_DATA_FROM_CLIENT) b"
  "\<not> fst (CanBuild b) \<Longrightarrow> after_loop (set_status s b) = after_loop b"
  by (auto simp: after_loop_def CanBuild_def set_status_def split: if_splits)

section \<open>What \<open>Build\<close> does with data that comes in pieces\<close>

lemma Build_run:
  assumes "d \<noteq> []"
  shows "Build e b d = map_option (map_outcome after_loop)
    (while_option loop_cond (loop_body e) (Inr (feed_builder b d)))"
  using assms by (simp add: Build_def)

lemma after_run_status:
  "map_option (map_outcome after_loop)
      (while_option loop_cond (loop_body e) (Inr (set_status s b)))
    = map_option (map_outcome after_loop) (while_option loop_cond (loop_body e) (Inr b))"
proof -
  have "map_option (map_outcome after_loop)
      (map_option (map_outcome (set_status s)) (while_option loop_cond (loop_body e) (Inr b)))
    = map_option (map_outcome after_loop) (while_option loop_cond (loop_body e) (Inr b))"
  proof (cases "while_option loop_cond (loop_body e) (Inr b)")
    case (Some t)
    with while_option_stop [OF Some] show ?thesis
      by (cases t) (simp_all add: loop_cond_def after_loop_status)
  qed simp
  with run_status [of e s "Inr b"] show ?thesis by simp
qed

lemma Build_append:
  assumes "parser_ok b" "d1 \<noteq> []" "d2 \<noteq> []" "Build e b d1 = Some r"
  shows "Build e b (d1 @ d2)
    = (case r of Inl x \<Rightarrow> Some (Inl x) | Inr b1 \<Rightarrow> Build e b1 d2)"
proof -
  let ?W = "while_option loop_cond (loop_body e)"
  from assms(4) obtain t where t: "?W (Inr (feed_builder b d1)) = Some t"
    and r: "r = map_outcome after_loop t"
    using assms(2) by (auto simp: Build_run)
  have inv: "loop_inv (Inr (feed_builder b d1))"
    using assms(1) by (simp add: loop_inv_def parser_ok_def)
  have "Build e b (d1 @ d2) = map_option (map_outcome after_loop) (?W (feed t d2))"
    using builder_loop.run_supply [OF t inv assms(3)] assms(2) by (simp add: Build_run)
  also have "\<dots> = (case r of Inl x \<Rightarrow> Some (Inl x) | Inr b1 \<Rightarrow> Build e b1 d2)"
  proof (cases t)
    case (Inl x)
    have "?W (Inl x) = Some (Inl x)" by (rule builder_loop.run_stop) (simp add: loop_cond_def)
    then show ?thesis by (simp add: Inl r)
  next
    case (Inr c)
    with builder_loop.run_inv [OF t inv] have "\<not> fst (CanBuild c)" by (simp add: loop_cond_def)
    then obtain s where "after_loop c = set_status s c" by (auto simp: after_loop_status)
    moreover have "feed_builder (set_status s c) d2 = set_status s (feed_builder c d2)" for s
      by (simp add: set_status_def)
    ultimately show ?thesis using assms(3) by (simp add: r Inr Build_run after_run_status)
  qed
  finally show ?thesis .
qed
text \<open>A connection that gets its bytes in several reads.\<close>

fun Build_all ::
  "builder_env \<Rightarrow> request_builder \<Rightarrow> string list \<Rightarrow> request_builder outcome option" where
  "Build_all e b [] = Some (Inr b)"
| "Build_all e b (d # ds) =
     (case Build e b d of
        Some (Inr b1) \<Rightarrow> Build_all e b1 ds
      | r \<Rightarrow> r)"

lemma parser_ok_Build:
  assumes "parser_ok b" "Build e b d = Some (Inr c)"
  shows "parser_ok c"
proof (cases "EndOfBuffer (rb_parser b) \<and> d = []")
  case True
  with assms show ?thesis by (auto simp: Build_def parser_ok_def)
next
  case False
  with assms(2) obtain t where t: "while_option loop_cond (loop_body e) (feed (Inr b) d) = Some t"
    "map_outcome after_loop t = Inr c"
    by (auto simp: Build_def)
  have "loop_inv (feed (Inr b) d)" using assms(1) by (simp add: loop_inv_def parser_ok_def)
  with builder_loop.run_inv [OF t(1)] have "loop_inv t" by simp
  with t(2) show ?thesis
    by (cases t) (auto simp: loop_inv_def parser_ok_def after_loop_def CanBuild_def)
qed

text \<open>C14: the way a request is cut into reads does not matter: if reading it piece by piece ends,
  with a builder or with an exception, then reading all of it at once ends the same way.\<close>

theorem Build_all_concat:
  "parser_ok b \<Longrightarrow> ds \<noteq> [] \<Longrightarrow> \<forall>d\<in>set ds. d \<noteq> [] \<Longrightarrow> Build_all e b ds = Some r
    \<Longrightarrow> Build e b (concat ds) = Some r"
proof (induction ds arbitrary: b)
  case (Cons d ds)
  show ?case
  proof (cases "Build e b d")
    case (Some x)
    show ?thesis
    proof (cases "ds = []")
      case True
      with Cons.prems Some show ?thesis by (cases x) auto
    next
      case False
      with Cons.prems have ne: "d \<noteq> []" "concat ds \<noteq> []" by auto
      show ?thesis
      proof (cases x)
        case (Inl y)
        with Build_append [OF Cons.prems(1) ne Some] Some Cons.prems(4) show ?thesis by simp
      next
        case (Inr c)
        with Some Cons.prems have "Build e c (concat ds) = Some r"
          by (intro Cons.IH [OF parser_ok_Build [OF Cons.prems(1)] False]) auto
        with Build_append [OF Cons.prems(1) ne Some] Inr show ?thesis by simp
      qed
    qed
  qed (use Cons.prems in simp)
qed simp

section \<open>When the loop ends\<close>

text \<open>The state of the loop after at most \<open>n\<close> turns.\<close>

fun turns :: "builder_env \<Rightarrow> nat \<Rightarrow> request_builder outcome \<Rightarrow> request_builder outcome" where
  "turns e 0 s = s"
| "turns e (Suc n) s = (if loop_cond s then turns e n (loop_body e s) else s)"

lemma turns_Suc_end:
  "turns e (Suc n) s = (if loop_cond (turns e n s) then loop_body e (turns e n s) else turns e n s)"
proof (induction n arbitrary: s)
  case (Suc n)
  show ?case
  proof (cases "loop_cond s")
    case True
    then have "turns e (Suc (Suc n)) s = turns e (Suc n) (loop_body e s)"
      "turns e (Suc n) s = turns e n (loop_body e s)" by simp_all
    then show ?thesis by (simp only: Suc.IH)
  qed simp
qed simp

lemma visits_turns: "builder_loop.visits e s t \<longleftrightarrow> (\<exists>n. turns e n s = t)"
proof
  assume "builder_loop.visits e s t"
  then show "\<exists>n. turns e n s = t"
  proof (induction rule: builder_loop.visits.induct)
    case visits_start
    have "turns e 0 s = s" by simp
    then show ?case ..
  next
    case (visits_step t)
    then obtain n where "turns e n s = t" by blast
    with visits_step(2) turns_Suc_end [of e n s] have "turns e (Suc n) s = loop_body e t" by simp
    then show ?case ..
  qed
next
  have "builder_loop.visits e s (turns e n s)" for n
  proof (induction n)
    case (Suc n)
    then show ?case
      using builder_loop.visits_step [of e s "turns e n s"] turns_Suc_end [of e n s] by auto
  qed (simp add: builder_loop.visits_start)
  then show "\<exists>n. turns e n s = t \<Longrightarrow> builder_loop.visits e s t" by auto
qed

lemma Build_None_iff_stuck:
  assumes "parser_ok b"
  shows "Build e b d = None \<longleftrightarrow> \<not> (EndOfBuffer (rb_parser b) \<and> d = [])
    \<and> (\<exists>n t. turns e n (feed (Inr b) d) = Inr t \<and> stuck t)"
proof -
  have inv: "loop_inv (feed (Inr b) d)" using assms by (simp add: loop_inv_def parser_ok_def)
  have idle: "loop_idle s \<longleftrightarrow> (\<exists>t. s = Inr t \<and> stuck t)" for s
    by (cases s) (auto simp: loop_idle_def)
  show ?thesis
    using builder_loop.run_None_iff [OF inv, of e] by (auto simp: Build_def visits_turns idle)
qed

text \<open>C15: \<open>Build\<close> fails to return exactly when its loop comes to a completed chunk after which
  a single byte is in the buffer: there it turns without end, and everywhere else it ends.\<close>

theorem Build_diverges_iff:
  "parser_ok b \<Longrightarrow> Build e b d = None \<longleftrightarrow>
    \<not> (EndOfBuffer (rb_parser b) \<and> d = []) \<and> (\<exists>n t. turns e n (feed (Inr b) d) = Inr t \<and> stuck t)"
  by (rule Build_None_iff_stuck)

text \<open>A read that ends one byte after the content of a chunk never returns, whatever the byte
  is, also when it is the first byte of the line end the chunk needs.\<close>

lemma Build_chunk_hangs:
  assumes "rb_state b = BS_BODY_CHUNK_CONTENT" "rb_parser b = parser_init"
    "unat (bb_remaining (rb_body b)) = length content" "content \<noteq> []"
  shows "Build e b (content @ [c]) = None"
proof -
  let ?b = "feed_builder b (content @ [c])"
  have rem: "bb_remaining (rb_body b) \<noteq> 0" using assms(3,4) by auto
  have can: "fst (CanBuild ?b)" using assms by (simp add: CanBuild_eq EndOfBuffer_def parser_init_def)
  have "stuck (move_body ?b)"
    using assms rem
    by (simp add: stuck_def EndOfBuffer_def RemainingLength_def size_minus_def parser_init_def
        words_left_done)
  moreover from this have "BuildStep e ?b = Inr (move_body ?b)"
    using rem assms(1)
    by (simp add: BuildStep_def BuildBodyChunkContent_eq move_chunk_eq end_chunk_def stuck_def set_build_state_def)
  with can have "turns e 1 (feed (Inr b) (content @ [c])) = Inr (move_body ?b)"
    by (simp add: loop_cond_def loop_body_def CanBuild_eq(2))
  ultimately have "\<exists>n t. turns e n (feed (Inr b) (content @ [c])) = Inr t \<and> stuck t" by blast
  moreover have "parser_ok b" using assms(2) by (simp add: parser_ok_def parser_init_def)
  ultimately show ?thesis using Build_None_iff_stuck [of b e "content @ [c]"] by simp
qed

section \<open>The properties on concrete input\<close>

text \<open>A builder that waits for the rest of a chunk of two bytes.\<close>

definition in_chunk :: request_builder where
  [eval_simps]: "in_chunk = builder_init
     \<lparr>rb_state := BS_BODY_CHUNK_CONTENT, rb_body := BodyBuilder_init\<lparr>bb_remaining := 2\<rparr>\<rparr>"

lemma Build_chunk_hangs_example: "Build example_env in_chunk (''ab'' @ [CR]) = None"
  by (rule Build_chunk_hangs) (simp_all add: eval_simps)

lemma in_chunk_parser_ok: "parser_ok in_chunk"
  by (simp add: eval_simps parser_ok_def)

lemma in_chunk_turn:
  "turns example_env 1 (feed (Inr in_chunk) ''abX'')
     = Inr (move_body (feed_builder in_chunk ''abX''))"
  by (simp add: eval_simps str_simps loop_cond_def loop_body_def)

theorem Build_diverges_iff_witness: "Build example_env in_chunk ''abX'' = None"
proof -
  have "stuck (move_body (feed_builder in_chunk ''abX''))"
    by (simp add: eval_simps str_simps stuck_def)
  then have "\<exists>n t. turns example_env n (feed (Inr in_chunk) ''abX'') = Inr t \<and> stuck t"
    using in_chunk_turn by blast
  then show ?thesis
    using Build_diverges_iff [OF in_chunk_parser_ok, of example_env "''abX''"] by simp
qed

theorem Build_all_concat_witness:
  "\<exists>r. Build_all example_env in_chunk [''a'', ''b''] = Some r \<and> Build example_env in_chunk ''ab'' = Some r"
proof -
  have "\<exists>r. Build_all example_env in_chunk [''a'', ''b''] = Some r"
    by (simp add: eval_simps str_simps Build_def while_option_unfold Build_all.simps)
  then obtain r where r: "Build_all example_env in_chunk [''a'', ''b''] = Some r" ..
  moreover have "Build example_env in_chunk (concat [''a'', ''b'']) = Some r"
    by (rule Build_all_concat [OF in_chunk_parser_ok _ _ r]) simp_all
  ultimately show ?thesis by auto
qed

end
