(* ===== verification/BuilderBody.thy ===== *)
theory BuilderBody
  imports BuilderStream
begin

text \<open>
  What the request builder reads: lines, bodies with a length, and bodies in chunks.
\<close>

section \<open>Evaluation on concrete input\<close>

lemma while_turn: "while_option b c s = (if b s then while_option b c (c s) else Some s)"
  by (rule while_option_unfold)

lemmas run_simps = scan_line.simps Build_def while_turn remove_dots.simps
  ValidateHeadersSyntax.simps Build_all.simps

section \<open>Reading a line\<close>

lemma scan_stops_inside:
  assumes "i < length buf" "i + 1 \<le> RQ_LINE_LEN_LIMIT" "i = 0 \<or> buf ! (i - 1) \<noteq> CR"
    "buf ! i \<noteq> NUL"
  shows "scan_stops \<lparr>rp_buf = buf, rp_idx = int i\<rparr> = None"
proof (cases i)
  case 0
  with assms show ?thesis
    by (simp add: scan_stops_def ElementLen_def EndsWithCRLF_def FoundSingleCR_def Peek_def)
next
  case (Suc j)
  then have "nat (int i + 1) = Suc (Suc j)" "nat (int i - 1) = j" "buf ! j \<noteq> CR"
    using assms(3) by simp_all
  with assms Suc show ?thesis
    by (simp add: scan_stops_def ElementLen_def EndsWithCRLF_def FoundSingleCR_def Peek_def
        nat_add_distrib)
qed

lemma scan_stops_crlf:
  assumes "Suc i < length buf" "buf ! i = CR" "buf ! Suc i = LF" "i + 2 \<le> RQ_LINE_LEN_LIMIT"
  shows "scan_stops \<lparr>rp_buf = buf, rp_idx = int i + 1\<rparr> = Some EXTRACTION_SUCCESS"
proof -
  have "nat (int i + 1) = Suc i" "nat (int i + 1 + 1) = i + 2" by simp_all
  with assms show ?thesis
    by (simp add: scan_stops_def ElementLen_def EndsWithCRLF_def EndOfBuffer_def)
qed

lemma nth_not_in: "x \<notin> set l \<Longrightarrow> j < length l \<Longrightarrow> l ! j \<noteq> x"
  by (auto simp: in_set_conv_nth)

lemma scan_line_clean_from:
  assumes "CR \<notin> set l" "NUL \<notin> set l" "length l + 2 \<le> RQ_LINE_LEN_LIMIT" "i \<le> length l"
  shows "scan_line \<lparr>rp_buf = l @ [CR, LF] @ rest, rp_idx = int i\<rparr>
    = (EXTRACTION_SUCCESS, \<lparr>rp_buf = l @ [CR, LF] @ rest, rp_idx = int (length l) + 1\<rparr>)"
  using assms(4)
proof (induction "length l - i" arbitrary: i)
  case 0
  let ?buf = "l @ [CR, LF] @ rest"
  have i: "i = length l" using 0 by simp
  have "i = 0 \<or> ?buf ! (i - 1) \<noteq> CR"
    using i nth_not_in [OF assms(1), of "i - 1"] by (cases "i = 0") (simp_all add: nth_append)
  then have "scan_stops \<lparr>rp_buf = ?buf, rp_idx = int i\<rparr> = None"
    using assms(3) i by (intro scan_stops_inside) (simp_all add: nth_append)
  moreover have "scan_stops \<lparr>rp_buf = ?buf, rp_idx = int i + 1\<rparr> = Some EXTRACTION_SUCCESS"
    using assms(3) i by (intro scan_stops_crlf) (simp_all add: nth_append)
  ultimately show ?case
    using i by (simp add: scan_more scan_stop EndOfBuffer_def Advance_def)
next
  case (Suc n)
  let ?buf = "l @ [CR, LF] @ rest"
  have i: "i < length l" using Suc by simp
  then have "i = 0 \<or> ?buf ! (i - 1) \<noteq> CR"
    using nth_not_in [OF assms(1), of "i - 1"] by (cases i) (simp_all add: nth_append)
  moreover have "?buf ! i \<noteq> NUL" using i nth_not_in [OF assms(2), of i] by (simp add: nth_append)
  ultimately have "scan_stops \<lparr>rp_buf = ?buf, rp_idx = int i\<rparr> = None"
    using assms(3) i by (intro scan_stops_inside) simp_all
  moreover have "scan_line \<lparr>rp_buf = ?buf, rp_idx = int (Suc i)\<rparr>
      = (EXTRACTION_SUCCESS, \<lparr>rp_buf = ?buf, rp_idx = int (length l) + 1\<rparr>)"
    using Suc i by (intro Suc.hyps(1)) simp_all
  ultimately show ?case using i by (simp add: scan_more EndOfBuffer_def Advance_def add.commute)
qed

lemma TryToExtractLine_clean:
  assumes "CR \<notin> set l" "NUL \<notin> set l" "length l + 2 \<le> RQ_LINE_LEN_LIMIT"
    "rb_parser b = \<lparr>rp_buf = l @ [CR, LF] @ rest, rp_idx = 0\<rparr>"
  shows "TryToExtractLine b =
    (EXTRACTION_SUCCESS, b\<lparr>rb_extraction := l, rb_parser := \<lparr>rp_buf = rest, rp_idx = 0\<rparr>\<rparr>)"
  using scan_line_clean_from [OF assms(1-3), of 0 rest] assms(4)
  by (simp add: TryToExtractLine_def ExtractLine_def Let_def)

section \<open>Running the loop\<close>

abbreviation run :: "builder_env \<Rightarrow> request_builder \<Rightarrow> request_builder outcome option" where
  "run e b \<equiv> while_option loop_cond (loop_body e) (Inr b)"

lemma run_turn:
  "fst (CanBuild b) \<Longrightarrow> run e b = while_option loop_cond (loop_body e) (BuildStep e b)"
  using builder_loop.run_step [of "Inr b" e]
  by (simp add: loop_cond_def loop_body_def CanBuild_eq(2))

lemma run_end: "\<not> fst (CanBuild b) \<Longrightarrow> run e b = Some (Inr b)"
  by (rule builder_loop.run_stop) (simp add: loop_cond_def)

lemma after_loop_simps [simp]:
  "rb_state (after_loop b) = rb_state b" "rb_body (after_loop b) = rb_body b"
  "rb_parser (after_loop b) = rb_parser b" "rb_rq (after_loop b) = rb_rq b"
  "rb_header_count (after_loop b) = rb_header_count b"
  "rb_section_size (after_loop b) = rb_section_size b"
  "rb_has_body (after_loop b) = rb_has_body b"
  by (simp_all add: after_loop_def CanBuild_def)

lemma after_loop_done [simp]:
  "final_state (rb_state b) \<Longrightarrow> rb_status (after_loop b) = RB_DONE"
  by (auto simp: after_loop_def CanBuild_def)

section \<open>A body with a length\<close>

text \<open>C12: in the body of a request with a \<open>Content-Length\<close>, \<open>Build\<close> appends to the file exactly
  the bytes the body still misses, is done as soon as it has them all, and keeps the bytes after
  them in the buffer for the next request.\<close>

theorem Build_regular_body:
  assumes "rb_state b = BS_BODY_REGULAR" "rb_parser b = parser_init"
    "bb_open (rb_body b)" "\<not> bb_fail (rb_body b)" "data \<noteq> []"
  shows "\<exists>c. Build e b data = Some (Inr c) \<and>
    bb_stream (rb_body c) = bb_stream (rb_body b) @ take (unat (bb_remaining (rb_body b))) data \<and>
    unat (bb_remaining (rb_body c)) = unat (bb_remaining (rb_body b)) - length data \<and>
    rp_buf (rb_parser c) = drop (unat (bb_remaining (rb_body b))) data \<and>
    (rb_state c = (if unat (bb_remaining (rb_body b)) \<le> length data then BS_END
       else BS_BODY_REGULAR)) \<and>
    (rb_status c = (if unat (bb_remaining (rb_body b)) \<le> length data then RB_DONE
       else RB_NEED_DATA_FROM_CLIENT))"
proof -
  let ?b = "feed_builder b data"
  have can: "fst (CanBuild ?b)"
    using assms by (simp add: CanBuild_eq EndOfBuffer_def parser_init_def)
  have step: "BuildStep e ?b = Inr (set_build_state (BuildBodyRegular ?b))"
    using assms(1) by (simp add: BuildStep_def)
  let ?c = "set_build_state (BuildBodyRegular ?b)"
  have stop: "\<not> fst (CanBuild ?c)"
    using assms(2)
    by (auto simp: BuildBodyRegular_def CanBuild_eq EndOfBuffer_def parser_init_def)
  have "Build e b data = Some (Inr (after_loop ?c))"
    using assms(5) run_turn [OF can, of e] run_end [OF stop, of e] by (simp add: Build_run step)
  then show ?thesis
    using assms(1-4)
    by (auto simp: BuildBodyRegular_def finish_body_def stream_close_def after_loop_status
        set_status_def stop parser_init_def move_body_eq Let_def stream_write_def CanBuild_eq EndOfBuffer_def)
qed

theorem Build_regular_body_witness:
  "\<exists>c. Build example_env (builder_init\<lparr>rb_state := BS_BODY_REGULAR,
      rb_body := BodyBuilder_init\<lparr>bb_open := True, bb_remaining := 3\<rparr>\<rparr>) ''abcd'' = Some (Inr c)
    \<and> bb_stream (rb_body c) = ''abc'' \<and> rp_buf (rb_parser c) = ''d'' \<and> rb_status c = RB_DONE"
  using Build_regular_body [of "builder_init\<lparr>rb_state := BS_BODY_REGULAR,
      rb_body := BodyBuilder_init\<lparr>bb_open := True, bb_remaining := 3\<rparr>\<rparr>" "''abcd''" example_env]
  by (auto simp: builder_init_def BodyBuilder_init_def)

section \<open>A body in chunks\<close>

text \<open>One chunk as a client writes it, and the chunk that ends the body.\<close>

definition encode_chunk :: "string \<Rightarrow> string" where
  [eval_simps]: "encode_chunk c = print_base 16 (length c) @ [CR, LF] @ c @ [CR, LF]"

definition last_chunk :: string where
  [eval_simps]: "last_chunk = ''0'' @ [CR, LF]"

lemma hex_line:
  "CR \<notin> set (print_base 16 n)" "NUL \<notin> set (print_base 16 n)"
  using print_base_isxdigit [of n] by (auto simp: list_all_iff ctype_defs code_def)

lemma length_print_base: "n < b ^ k \<Longrightarrow> 0 < k \<Longrightarrow> 2 \<le> b \<Longrightarrow> length (print_base b n) \<le> k"
proof (induction b n arbitrary: k rule: print_base.induct)
  case (1 b n)
  show ?case
  proof (cases "b < 2 \<or> n < b")
    case True
    then have "print_base b n = [digit_char n]" using print_base.simps [of b n] by simp
    then show ?thesis using "1.prems" by simp
  next
    case False
    then have "1 < k" using "1.prems" by (cases "k = 1") auto
    moreover have "n div b < b ^ (k - 1)"
      using "1.prems" \<open>1 < k\<close> by (cases k) (auto intro!: less_mult_imp_div_less simp: mult.commute)
    ultimately have "length (print_base b (n div b)) \<le> k - 1"
      using False "1.prems" by (intro "1.IH") auto
    with False \<open>1 < k\<close> print_base.simps [of b n] show ?thesis by simp
  qed
qed

lemma hex_line_length: "n < 2 ^ 64 \<Longrightarrow> length (print_base 16 n) + 2 \<le> RQ_LINE_LEN_LIMIT"
  using length_print_base [of n 16 16] by (simp add: RQ_LINE_LEN_LIMIT_def)

text \<open>The size line of a chunk: what \<open>parse_chunk_size\<close> decides.\<close>

lemma parse_chunk_size_hex:
  assumes "rb_extraction b = print_base 16 n" "n < 2 ^ 64"
  shows "parse_chunk_size b =
    (if n = 0 then (BS_END, finish_body b)
     else let b1 = b\<lparr>rb_body := (rb_body b)
             \<lparr>bb_body_len := bb_body_len (rb_body b) + word_of_nat n,
              bb_remaining := word_of_nat n\<rparr>\<rparr> in
       if bb_max (rb_body b) < bb_body_len (rb_body b) + word_of_nat n
       then SetStatusAndExitBuilder HTTP_PAYLOAD_TOO_LARGE b1 else (BS_BODY_CHUNK_CONTENT, b1))"
  using assms by (simp add: parse_chunk_size_def HexToUnsigned_print Let_def)

lemma chunk_size_turn:
  assumes "rb_state b = BS_BODY_CHUNK_SIZE" "n < 2 ^ 64"
    "rb_parser b = \<lparr>rp_buf = print_base 16 n @ [CR, LF] @ rest, rp_idx = 0\<rparr>"
  shows "run e b = run e (set_build_state (parse_chunk_size
    (b\<lparr>rb_extraction := print_base 16 n, rb_parser := \<lparr>rp_buf = rest, rp_idx = 0\<rparr>\<rparr>)))"
proof -
  have "fst (CanBuild b)" using assms by (simp add: CanBuild_eq EndOfBuffer_def)
  moreover have "BuildBodyChunkSize b = parse_chunk_size
      (b\<lparr>rb_extraction := print_base 16 n, rb_parser := \<lparr>rp_buf = rest, rp_idx = 0\<rparr>\<rparr>)"
    using TryToExtractLine_clean [OF hex_line hex_line_length [OF assms(2)] assms(3)]
    by (simp add: BuildBodyChunkSize_def)
  ultimately show ?thesis using run_turn [of b e] assms(1) by (simp add: BuildStep_def)
qed

text \<open>A builder after the chunks \<open>cs\<close> of the body of \<open>b\<close>.\<close>

definition chunks_read :: "request_builder \<Rightarrow> string \<Rightarrow> request_builder \<Rightarrow> bool" where
  "chunks_read b bytes c \<longleftrightarrow>
     bb_open (rb_body c) = bb_open (rb_body b) \<and> bb_fail (rb_body c) = bb_fail (rb_body b) \<and>
     bb_max (rb_body c) = bb_max (rb_body b) \<and> rb_rq c = rb_rq b \<and>
     bb_stream (rb_body c) = bb_stream (rb_body b) @ bytes \<and>
     bb_body_len (rb_body c) = bb_body_len (rb_body b) + word_of_nat (length bytes)"

lemma chunk_turns:
  assumes b: "rb_state b = BS_BODY_CHUNK_SIZE" "bb_open (rb_body b)" "\<not> bb_fail (rb_body b)"
    "rb_parser b = \<lparr>rp_buf = encode_chunk c @ rest, rp_idx = 0\<rparr>"
    and c: "c \<noteq> []" "unat (bb_body_len (rb_body b)) + length c \<le> unat (bb_max (rb_body b))"
  shows "\<exists>b'. run e b = run e b' \<and> rb_state b' = BS_BODY_CHUNK_SIZE
    \<and> rb_parser b' = \<lparr>rp_buf = rest, rp_idx = 0\<rparr> \<and> chunks_read b c b'"
proof -
  let ?n = "length c" and ?len = "bb_body_len (rb_body b)"
  let ?w = "word_of_nat ?n :: 64 word"
  let ?b1 = "b\<lparr>rb_extraction := print_base 16 ?n,
      rb_parser := \<lparr>rp_buf = c @ [CR, LF] @ rest, rp_idx = 0\<rparr>,
      rb_body := (rb_body b)\<lparr>bb_body_len := ?len + ?w, bb_remaining := ?w\<rparr>,
      rb_state := BS_BODY_CHUNK_CONTENT\<rparr>"
  have max: "unat (bb_max (rb_body b)) < 2 ^ 64" by (rule order.strict_trans2 [OF unsigned_less]) simp
  then have n: "?n < 2 ^ 64" using c(2) by simp
  then have w: "unat ?w = ?n" by (simp add: unsigned_of_nat take_bit_nat_eq_self)
  have sum: "unat (?len + ?w) = unat ?len + ?n"
    using c(2) max w by (subst unat_add_lem [THEN iffD1]) auto
  then have le: "\<not> bb_max (rb_body b) < ?len + ?w" using c(2) by (simp add: word_less_nat_alt)
  have "run e b = run e ?b1"
    using chunk_size_turn [OF b(1) n, of "c @ [CR, LF] @ rest" e] b(4) c(1) n le
    by (simp add: encode_chunk_def parse_chunk_size_hex Let_def)
  also have "\<dots> = run e (set_build_state (BuildBodyChunkContent ?b1))"
    using c(1) by (subst run_turn) (simp_all add: CanBuild_eq EndOfBuffer_def BuildStep_def)
  also have "BuildBodyChunkContent ?b1 = (BS_BODY_CHUNK_SIZE,
      ?b1\<lparr>rb_parser := \<lparr>rp_buf = rest, rp_idx = 0\<rparr>,
          rb_body := (stream_write c (rb_body ?b1))\<lparr>bb_remaining := 0\<rparr>\<rparr>)"
    using c(1) w
    by (simp add: BuildBodyChunkContent_eq move_chunk_eq move_body_eq Let_def words_left_done
        end_chunk_def RemainingLength_def size_minus_def BeginsWithCRLF_def Ignore_def
        word_unat_eq_iff [of ?w])
  finally have "run e b = run e (set_build_state (BS_BODY_CHUNK_SIZE,
      ?b1\<lparr>rb_parser := \<lparr>rp_buf = rest, rp_idx = 0\<rparr>,
          rb_body := (stream_write c (rb_body ?b1))\<lparr>bb_remaining := 0\<rparr>\<rparr>))" .
  then show ?thesis
    using b(2,3) by (intro exI conjI) (auto simp: chunks_read_def stream_write_def)
qed

lemma chunks_run:
  assumes "rb_state b = BS_BODY_CHUNK_SIZE" "bb_open (rb_body b)" "\<not> bb_fail (rb_body b)"
    "rb_parser b = \<lparr>rp_buf = concat (map encode_chunk cs) @ rest, rp_idx = 0\<rparr>"
    "[] \<notin> set cs"
    "unat (bb_body_len (rb_body b)) + length (concat cs) \<le> unat (bb_max (rb_body b))"
  shows "\<exists>c. run e b = run e c \<and> rb_state c = BS_BODY_CHUNK_SIZE
    \<and> rb_parser c = \<lparr>rp_buf = rest, rp_idx = 0\<rparr> \<and> chunks_read b (concat cs) c"
  using assms
proof (induction cs arbitrary: b)
  case Nil
  then show ?case by (intro exI [of _ b]) (simp add: chunks_read_def)
next
  case (Cons x cs)
  let ?tail = "concat (map encode_chunk cs) @ rest"
  from Cons.prems have "x \<noteq> []"
    "unat (bb_body_len (rb_body b)) + length x \<le> unat (bb_max (rb_body b))"
    "rb_parser b = \<lparr>rp_buf = encode_chunk x @ ?tail, rp_idx = 0\<rparr>" by auto
  from chunk_turns [OF Cons.prems(1-3) this(3,1,2), of e] obtain b' where
    b': "run e b = run e b'" "rb_state b' = BS_BODY_CHUNK_SIZE"
      "rb_parser b' = \<lparr>rp_buf = ?tail, rp_idx = 0\<rparr>" "chunks_read b x b'" by blast
  have "unat (word_of_nat (length x) :: 64 word) \<le> length x"
    by (simp add: unat_of_nat)
  then have "unat (bb_body_len (rb_body b')) \<le> unat (bb_body_len (rb_body b)) + length x"
    using b'(4) by (auto simp: chunks_read_def unat_word_ariths intro: order.trans [OF mod_less_eq_dividend])
  then obtain c where "run e b' = run e c" "rb_state c = BS_BODY_CHUNK_SIZE"
    "rb_parser c = \<lparr>rp_buf = rest, rp_idx = 0\<rparr>" "chunks_read b' (concat cs) c"
    using Cons.IH [OF b'(2) _ _ b'(3)] Cons.prems b'(4) by (auto simp: chunks_read_def)
  with b' show ?case by (intro exI [of _ c]) (auto simp: chunks_read_def)
qed
text \<open>C13: chunked transfer coding round trip: from any list of chunks that fits into the limit, the
  builder writes the concatenation of their contents to the body file, marks the transfer
  complete, and leaves what follows the \<open>0\<close> line in the buffer.\<close>

theorem Build_chunked_body:
  assumes "rb_state b = BS_BODY_CHUNK_SIZE" "bb_open (rb_body b)" "\<not> bb_fail (rb_body b)"
    "rb_parser b = parser_init" "[] \<notin> set cs"
    "unat (bb_body_len (rb_body b)) + length (concat cs) \<le> unat (bb_max (rb_body b))"
  shows "\<exists>c. Build e b (concat (map encode_chunk cs) @ last_chunk @ rest) = Some (Inr c) \<and>
    rb_state c = BS_END \<and> rb_status c = RB_DONE \<and>
    bb_stream (rb_body c) = bb_stream (rb_body b) @ concat cs \<and>
    transfer_complete (rq_body (rb_rq c)) \<and> rb_parser c = \<lparr>rp_buf = rest, rp_idx = 0\<rparr>"
proof -
  let ?d = "concat (map encode_chunk cs) @ last_chunk @ rest"
  let ?b = "feed_builder b ?d"
  have zero: "print_base 16 0 = ''0''" by (simp add: print_base.simps digit_char_0)
  have p: "rb_parser ?b = \<lparr>rp_buf = ?d, rp_idx = 0\<rparr>"
    using assms(4) by (simp add: parser_init_def AddNewData_def)
  obtain c where c: "run e ?b = run e c" "rb_state c = BS_BODY_CHUNK_SIZE"
    "rb_parser c = \<lparr>rp_buf = last_chunk @ rest, rp_idx = 0\<rparr>" "chunks_read ?b (concat cs) c"
    using chunks_run [OF _ _ _ p assms(5), of e] assms by auto
  let ?c = "c\<lparr>rb_extraction := ''0'', rb_parser := \<lparr>rp_buf = rest, rp_idx = 0\<rparr>\<rparr>"
  have "parse_chunk_size ?c = (BS_END, finish_body ?c)"
    using parse_chunk_size_hex [of ?c 0] by (simp add: zero)
  then have "run e ?b = run e (set_build_state (BS_END, finish_body ?c))"
    using chunk_size_turn [OF c(2), of 0 rest e] c(1,3) by (simp add: zero last_chunk_def)
  also have "\<dots> = Some (Inr (set_build_state (BS_END, finish_body ?c)))"
    by (rule run_end) (simp add: CanBuild_eq)
  finally have "Build e b ?d
      = Some (Inr (after_loop (set_build_state (BS_END, finish_body ?c))))"
    by (simp add: Build_run last_chunk_def)
  then show ?thesis
    using c(4)
    by (auto simp: finish_body_def chunks_read_def stream_close_def after_loop_status CanBuild_eq
        set_status_def)
qed

theorem Build_chunked_body_witness:
  "\<exists>c. Build example_env (builder_init\<lparr>rb_state := BS_BODY_CHUNK_SIZE,
      rb_body := BodyBuilder_init\<lparr>bb_open := True, bb_max := 100\<rparr>\<rparr>)
      (concat (map encode_chunk [''abc'', ''de'']) @ last_chunk @ [CR, LF]) = Some (Inr c)
    \<and> bb_stream (rb_body c) = ''abcde'' \<and> rp_buf (rb_parser c) = [CR, LF]"
  using Build_chunked_body [of "builder_init\<lparr>rb_state := BS_BODY_CHUNK_SIZE,
      rb_body := BodyBuilder_init\<lparr>bb_open := True, bb_max := 100\<rparr>\<rparr>"
      "[''abc'', ''de'']" example_env "[CR, LF]"]
  by (auto simp: builder_init_def BodyBuilder_init_def)

text \<open>The limit on a chunked body is tested on a 64 bit sum that wraps: a size line is
  accepted exactly when the bytes announced so far, modulo \<open>2 ^ 64\<close>, do not exceed the limit.\<close>

lemma chunk_limit_wraps:
  assumes "rb_extraction b = print_base 16 n" "n < 2 ^ 64" "n \<noteq> 0"
  shows "fst (parse_chunk_size b) =
    (if (unat (bb_body_len (rb_body b)) + n) mod 2 ^ 64 \<le> unat (bb_max (rb_body b))
     then BS_BODY_CHUNK_CONTENT else BS_BAD_REQUEST)"
proof -
  have "unat (bb_body_len (rb_body b) + word_of_nat n)
      = (unat (bb_body_len (rb_body b)) + n) mod 2 ^ 64"
    using assms(2) by (simp add: unat_word_ariths unsigned_of_nat take_bit_eq_mod mod_simps)
  with assms show ?thesis
    by (auto simp: parse_chunk_size_hex Let_def word_less_nat_alt)
qed

text \<open>After one byte of a body limited to 100, a chunk of \<open>2 ^ 64 - 1\<close> bytes is accepted.\<close>

lemma chunk_limit_wraps_example:
  "fst (parse_chunk_size (builder_init\<lparr>rb_extraction := print_base 16 (2 ^ 64 - 1),
     rb_body := BodyBuilder_init\<lparr>bb_body_len := 1, bb_max := 100\<rparr>\<rparr>)) = BS_BODY_CHUNK_CONTENT"
  using chunk_limit_wraps [of "builder_init\<lparr>rb_extraction := print_base 16 (2 ^ 64 - 1),
     rb_body := BodyBuilder_init\<lparr>bb_body_len := 1, bb_max := 100\<rparr>\<rparr>" "2 ^ 64 - 1"]
  by (simp add: builder_init_def BodyBuilder_init_def)

section \<open>Lines that are no request line\<close>

lemma empty_request_line: "parse_first_line b = Inr (SetStatusAndExitBuilder HTTP_BAD_REQUEST b)"
  if "rb_extraction b = []"
  using that by (simp add: parse_first_line_def split_request_line_def eval_simps Let_def)

text \<open>A request that begins with an empty line is refused with 400.  The builder leaves the
  empty line that ends a chunked body in the buffer, so this is what happens to the request
  after a chunked one.\<close>

lemma empty_line_is_400:
  assumes "rb_state b = BS_RQ_LINE" "rb_parser b = \<lparr>rp_buf = [CR, LF] @ rest, rp_idx = 0\<rparr>"
  shows "\<exists>c. Build e b d = Some (Inr c) \<and> rb_status c = RB_DONE \<and>
    rb_state c = BS_BAD_REQUEST \<and> rq_status (rb_rq c) = HTTP_BAD_REQUEST"
proof -
  let ?b = "feed_builder b d"
  have can: "fst (CanBuild ?b)" using assms by (simp add: CanBuild_eq EndOfBuffer_def)
  have line: "TryToExtractLine ?b = (EXTRACTION_SUCCESS,
      ?b\<lparr>rb_extraction := [], rb_parser := \<lparr>rp_buf = rest @ d, rp_idx = 0\<rparr>\<rparr>)"
    using assms(2)
    by (intro TryToExtractLine_clean) (simp_all add: RQ_LINE_LEN_LIMIT_def AddNewData_def)
  let ?c = "set_build_state (SetStatusAndExitBuilder HTTP_BAD_REQUEST
      (?b\<lparr>rb_extraction := [], rb_parser := \<lparr>rp_buf = rest @ d, rp_idx = 0\<rparr>\<rparr>))"
  have "BuildStep e ?b = Inr ?c"
    using assms(1) by (simp add: BuildStep_def BuildFirstLine_def line empty_request_line)
  moreover have stop: "\<not> fst (CanBuild ?c)" by (simp add: CanBuild_eq)
  ultimately have "run e ?b = Some (Inr ?c)"
    using run_turn [OF can, of e] run_end [OF stop, of e] by simp
  then have "Build e b d = Some (Inr (after_loop ?c))"
    using assms(2) by (simp add: Build_def EndOfBuffer_def)
  then show ?thesis by auto
qed

lemma empty_line_is_400_example:
  "\<exists>c. Build example_env (builder_init\<lparr>rb_parser := \<lparr>rp_buf = [CR, LF] @ [], rp_idx = 0\<rparr>\<rparr>) ''GET''
     = Some (Inr c) \<and> rq_status (rb_rq c) = HTTP_BAD_REQUEST"
  using empty_line_is_400 [of "builder_init\<lparr>rb_parser := \<lparr>rp_buf = [CR, LF] @ [], rp_idx = 0\<rparr>\<rparr>" "[]"
      example_env "''GET''"]
  by (auto simp: builder_init_def)

end
