(* ===== verification/RqTargetProps.thy ===== *)
theory RqTargetProps
  imports RqTarget
begin

text \<open>
  What the request target guarantees: the removal of dot segments agrees with a stack machine
  over the list of segments, a good target has no dot segment left and cannot leave the root,
  the constructor from a raw string never throws, and what the other flags exclude.
\<close>

section \<open>Paths as lists of segments\<close>

definition join_path :: "string list \<Rightarrow> string" where
  "join_path segs = concat (map (\<lambda>s. CHR ''/'' # s) segs)"

lemma join_path_simps [simp]:
  "join_path [] = []"
  "join_path (s # segs) = CHR ''/'' # s @ join_path segs"
  "join_path (xs @ ys) = join_path xs @ join_path ys"
  by (simp_all add: join_path_def)

lemma join_path_split: "CHR ''/'' # s = join_path (split_on (CHR ''/'') s)"
proof (induction s)
  case (Cons c s)
  then show ?case
    by (cases "split_on (CHR ''/'') s") auto
qed simp

lemma split_on_slash_free: "\<forall>s\<in>set (split_on (CHR ''/'') p). CHR ''/'' \<notin> set s"
  by (auto dest: split_on_elem)

lemma join_path_hd: "segs \<noteq> [] \<Longrightarrow> hd (join_path segs) = CHR ''/'' \<and> join_path segs \<noteq> []"
  by (cases segs) auto

section \<open>The reference: a stack of segments\<close>

text \<open>
  \<open>..\<close> pops a segment and fails on the empty stack, \<open>.\<close> does nothing, and either of them at the
  end of the path leaves an empty last segment (the trailing slash).
\<close>

fun pop_dots :: "string list \<Rightarrow> string list \<Rightarrow> string list option" where
  "pop_dots out [] = Some out"
| "pop_dots out (s # rest) =
     (if s = ''..'' then
        (if out = [] then None
         else if rest = [] then Some (butlast out @ [[]])
         else pop_dots (butlast out) rest)
      else if s = ''.'' then
        (if rest = [] then Some (out @ [[]]) else pop_dots out rest)
      else pop_dots (out @ [s]) rest)"

definition plain_seg :: "string \<Rightarrow> bool" where
  "plain_seg s \<longleftrightarrow> s \<noteq> ''.'' \<and> s \<noteq> ''..'' \<and> CHR ''/'' \<notin> set s"

lemma plain_seg_Nil [simp]: "plain_seg []"
  by (simp add: plain_seg_def)

lemma pop_dots_clean:
  "pop_dots out segs = Some res \<Longrightarrow> list_all plain_seg out \<Longrightarrow>
     \<forall>s\<in>set segs. CHR ''/'' \<notin> set s \<Longrightarrow> list_all plain_seg res"
proof (induction out segs rule: pop_dots.induct)
  case (2 out s rest)
  have bl: "list_all plain_seg (butlast out)"
    using "2.prems"(2) by (auto simp: list_all_iff dest: in_set_butlastD)
  consider "s = ''..''" | "s = ''.''" | "s \<noteq> ''..''" "s \<noteq> ''.''" by blast
  then show ?case
  proof cases
    case 1
    with "2.prems"(1) have out: "out \<noteq> []" by (auto split: if_splits)
    show ?thesis
    proof (cases "rest = []")
      case True
      with 1 out "2.prems"(1) have "res = butlast out @ [[]]" by simp
      with bl show ?thesis by simp
    next
      case False
      with 1 out "2.prems" have "pop_dots (butlast out) rest = Some res" by simp
      with 1 out False bl "2.IH"(1) "2.prems"(3) show ?thesis by simp
    qed
  next
    case 2
    show ?thesis
    proof (cases "rest = []")
      case True
      with 2 "2.prems"(1) have "res = out @ [[]]" by simp
      with "2.prems"(2) show ?thesis by simp
    next
      case False
      with 2 "2.prems"(1) have "pop_dots out rest = Some res" by simp
      with 2 False "2.IH"(2) "2.prems" show ?thesis by simp
    qed
  next
    case 3
    with "2.prems" have "list_all plain_seg (out @ [s])" by (auto simp: plain_seg_def list_all_iff)
    with 3 "2.IH"(3) "2.prems" show ?thesis by simp
  qed
qed simp

lemma pop_dots_nonempty: "pop_dots out segs = Some res \<Longrightarrow> segs \<noteq> [] \<Longrightarrow> res \<noteq> []"
proof (induction out segs rule: pop_dots.induct)
  case (2 out s rest)
  show ?case
  proof (cases "rest = []")
    case True
    with "2.prems"(1) have "res = butlast out @ [[]] \<or> res = out @ [[]] \<or> res = out @ [s]"
      by (simp split: if_splits)
    then show ?thesis by (elim disjE) simp_all
  next
    case False
    with 2 show ?thesis by (simp split: if_splits)
  qed
qed simp

section \<open>The loop of the code agrees with it\<close>

lemma RemoveLastSegment_join:
  assumes "CHR ''/'' \<notin> set s"
  shows "RemoveLastSegment (join_path (out @ [s])) = join_path out"
proof -
  have "str_find_last_of (join_path out @ CHR ''/'' # s) (CHR ''/'') = Some (length (join_path out))"
    unfolding str_find_last_of_def using assms by (intro find_last_idx_append_hit) auto
  then show ?thesis by (simp add: RemoveLastSegment_def)
qed

lemma RemoveLastSegment_butlast:
  assumes "out \<noteq> []" and "\<forall>s\<in>set out. CHR ''/'' \<notin> set s"
  shows "RemoveLastSegment (join_path out) = join_path (butlast out)"
  using assms RemoveLastSegment_join [of "last out" "butlast out"] by simp

lemma find_slash_after:
  assumes "CHR ''/'' \<notin> set s"
  shows "str_find (CHR ''/'' # s @ join_path rest) ''/'' 1
    = (if rest = [] then None else Some (Suc (length s)))"
proof (cases rest)
  case Nil
  with assms show ?thesis
    by (auto simp: str_find_def find_sub_single find_idx_None_iff)
next
  case (Cons r rs)
  with assms show ?thesis
    by (auto simp: str_find_def find_sub_single intro!: find_idx_append_hit)
qed

lemma take_slash_cases:
  assumes "CHR ''/'' \<notin> set s"
  shows "take 4 (CHR ''/'' # s @ join_path rest) = ''/../'' \<longleftrightarrow> s = ''..'' \<and> rest \<noteq> []"
    and "take 3 (CHR ''/'' # s @ join_path rest) = ''/./'' \<longleftrightarrow> s = ''.'' \<and> rest \<noteq> []"
    and "CHR ''/'' # s @ join_path rest = ''/..'' \<longleftrightarrow> s = ''..'' \<and> rest = []"
    and "CHR ''/'' # s @ join_path rest = ''/.'' \<longleftrightarrow> s = ''.'' \<and> rest = []"
  using assms
  by (cases rest; cases s; cases "tl s"; cases "tl (tl s)"; auto simp: append_eq_Cons_conv)+

lemma dot_segment_step_join:
  assumes "CHR ''/'' \<notin> set s"
  shows "dot_segment_step (CHR ''/'' # s @ join_path rest, join_path out, lvl) =
    (if s = ''..'' then
       (if rest = [] then ''/'' else join_path rest, RemoveLastSegment (join_path out), lvl - 1)
     else if s = ''.'' then (if rest = [] then ''/'' else join_path rest, join_path out, lvl)
     else (join_path rest, join_path (out @ [s]), lvl + 1))"
proof (cases rest)
  case Nil
  with take_slash_cases [OF assms, of rest] find_slash_after [OF assms, of rest]
  show ?thesis by (simp add: dot_segment_step_def erase_at_def MoveSegmentToOutput_def)
next
  case (Cons r rs)
  with take_slash_cases [OF assms, of rest] find_slash_after [OF assms, of rest]
  show ?thesis
    by (simp add: dot_segment_step_def erase_at_def MoveSegmentToOutput_def cut_def)
qed

lemma remove_dots_slash:
  "0 \<le> lvl \<Longrightarrow> remove_dots (''/'', out, lvl) = Some (out @ ''/'')"
  by (simp add: remove_dots.simps [of "''/''"] remove_dots.simps [of "[]"] dot_segment_step_def
      MoveSegmentToOutput_def str_find_def str_simps)

lemma remove_dots_join:
  assumes "\<forall>s\<in>set segs. CHR ''/'' \<notin> set s" and "\<forall>s\<in>set out. CHR ''/'' \<notin> set s"
  shows "remove_dots (join_path segs, join_path out, int (length out))
    = map_option join_path (pop_dots out segs)"
  using assms
proof (induction out segs rule: pop_dots.induct)
  case (1 out)
  then show ?case by (simp add: remove_dots.simps)
next
  case (2 out s rest)
  from "2.prems" have s: "CHR ''/'' \<notin> set s" and out: "\<forall>t\<in>set out. CHR ''/'' \<notin> set t"
    and rest: "\<forall>t\<in>set rest. CHR ''/'' \<notin> set t" by auto
  have bl: "\<forall>t\<in>set (butlast out). CHR ''/'' \<notin> set t"
    using out by (auto dest: in_set_butlastD)
  have unf: "remove_dots (join_path (s # rest), join_path out, int (length out)) =
    (let d = (if s = ''..'' then
        (if rest = [] then ''/'' else join_path rest, RemoveLastSegment (join_path out),
         int (length out) - 1)
      else if s = ''.'' then
        (if rest = [] then ''/'' else join_path rest, join_path out, int (length out))
      else (join_path rest, join_path (out @ [s]), int (length out) + 1))
     in if snd (snd d) < 0 then None else remove_dots d)"
    unfolding dot_segment_step_join [OF s, symmetric] Let_def
    by (simp add: remove_dots.simps [of "CHR ''/'' # s @ join_path rest"])
  consider "s = ''..''" | "s = ''.''" | "s \<noteq> ''..''" "s \<noteq> ''.''" by blast
  then show ?case
  proof cases
    case 1
    show ?thesis
    proof (cases "out = []")
      case True
      with 1 show ?thesis unfolding unf by simp
    next
      case False
      then have "int (length out) - 1 = int (length (butlast out))" by (cases out) auto
      with 1 False "2.IH"(1) bl rest show ?thesis
        unfolding unf RemoveLastSegment_butlast [OF False out]
        by (auto simp: remove_dots_slash simp del: length_butlast)
    qed
  next
    case 2
    with "2.IH"(2) out rest show ?thesis
      unfolding unf by (auto simp: remove_dots_slash)
  next
    case 3
    moreover have "int (length out) + 1 = int (length (out @ [s]))" by simp
    ultimately show ?thesis
      using "2.IH"(3) out rest s unfolding unf by (simp del: length_append)
  qed
qed

lemma RemoveDotSegments_pop:
  "RemoveDotSegments (CHR ''/'' # p)
     = map_option join_path (pop_dots [] (split_on (CHR ''/'') p))"
  using remove_dots_join [of "split_on (CHR ''/'') p" "[]"] split_on_slash_free [of p]
  by (simp add: RemoveDotSegments_def join_path_split [symmetric])

text \<open>
  C18: on an absolute path the loop of \<open>RemoveDotSegments_\<close>, with its erasing and its level
  counter, computes what the stack machine \<open>pop_dots\<close> computes on the segments of the path; it
  reports a traversal exactly when \<open>..\<close> would pop the empty stack.
\<close>

theorem RemoveDotSegments_stack:
  "RemoveDotSegments (CHR ''/'' # p)
     = map_option join_path (pop_dots [] (split_on (CHR ''/'') p))"
  by (rule RemoveDotSegments_pop)

text \<open>
  A result of \<open>RemoveDotSegments_\<close> on an absolute path is again absolute, and none of its
  segments is a dot segment.
\<close>

definition dot_free :: "string \<Rightarrow> bool" where
  "dot_free p \<longleftrightarrow> p \<noteq> [] \<and> hd p = CHR ''/'' \<and>
     (\<forall>s\<in>set (split_on (CHR ''/'') (tl p)). s \<noteq> ''.'' \<and> s \<noteq> ''..'')"

lemma split_on_join_path:
  "\<forall>s\<in>set (x # segs). CHR ''/'' \<notin> set s \<Longrightarrow>
     split_on (CHR ''/'') (x @ join_path segs) = x # segs"
proof (induction segs arbitrary: x)
  case (Cons s segs)
  then show ?case by (simp add: split_on_append)
qed (simp add: split_on_no_sep)

lemma RemoveDotSegments_dot_free:
  assumes "RemoveDotSegments (CHR ''/'' # p) = Some q"
  shows "dot_free q"
proof -
  from assms obtain segs where segs: "pop_dots [] (split_on (CHR ''/'') p) = Some segs"
    and q: "q = join_path segs"
    by (auto simp: RemoveDotSegments_pop)
  have ne: "segs \<noteq> []" using pop_dots_nonempty [OF segs] by simp
  have ok: "\<forall>s\<in>set segs. s \<noteq> ''.'' \<and> s \<noteq> ''..'' \<and> CHR ''/'' \<notin> set s"
    using pop_dots_clean [OF segs] split_on_slash_free [of p]
    by (simp add: list_all_iff plain_seg_def)
  obtain x xs where "segs = x # xs" using ne by (cases segs) auto
  with ok q split_on_join_path [of x xs] show ?thesis
    by (simp add: dot_free_def)
qed

section \<open>Shape of a parsed target\<close>

text \<open>The port needs a host and the host a scheme; a set path is absolute.\<close>

definition authority_shape :: "rq_target \<Rightarrow> bool" where
  "authority_shape t \<longleftrightarrow> (maybe_ok (rt_port t) \<longrightarrow> maybe_ok (rt_host t)) \<and>
     (maybe_ok (rt_host t) \<longrightarrow> maybe_ok (rt_scheme t))"

definition path_shape :: "rq_target \<Rightarrow> bool" where
  "path_shape t \<longleftrightarrow>
     (if maybe_ok (rt_path t)
      then maybe_val (rt_path t) \<noteq> [] \<and> hd (maybe_val (rt_path t)) = CHR ''/''
      else validity_state t = RQ_TARGET_BAD_PATH)"

lemma parse_shape_steps:
  "authority_shape (fst (ParseScheme raw (RqTarget_empty, pos)))"
  "authority_shape (fst s) \<Longrightarrow> authority_shape (fst (ParseUserInfo raw s))"
  "authority_shape (fst s) \<Longrightarrow> authority_shape (fst (ParseHost raw s))"
  "authority_shape (fst s) \<Longrightarrow> authority_shape (fst (ParsePort raw s))"
  "authority_shape (fst s) \<Longrightarrow> authority_shape (fst (ParsePath raw s))"
  "authority_shape (fst s) \<Longrightarrow> authority_shape (fst (ParseQuery raw s))"
  "authority_shape (fst s) \<Longrightarrow> authority_shape (fst (ParseFragment raw s))"
  by (cases s; simp add: authority_shape_def ParseScheme_def ParseUserInfo_def ParseHost_def
      ParsePort_def ParsePath_def ParseQuery_def ParseFragment_def RqTarget_empty_def Let_def
      split: option.splits)+

lemma parse_path_shape_steps:
  "\<not> maybe_ok (rt_path (fst s)) \<Longrightarrow> path_shape (fst (ParsePath raw s))"
  "path_shape (fst s) \<Longrightarrow> path_shape (fst (ParseQuery raw s))"
  "path_shape (fst s) \<Longrightarrow> path_shape (fst (ParseFragment raw s))"
proof -
  show "path_shape (fst (ParsePath raw s))" if "\<not> maybe_ok (rt_path (fst s))"
  proof (cases s)
    case (Pair t pos)
    show ?thesis
    proof (cases "at_char raw pos (CHR ''/'')")
      case False
      with that Pair show ?thesis by (simp add: ParsePath_def path_shape_def)
    next
      case True
      then obtain p where pos: "pos = Some p" "p < length raw" "raw ! p = CHR ''/''"
        by (auto simp: at_char_def split: option.splits)
      have "hd (drop p raw) = CHR ''/''" "drop p raw \<noteq> []"
        using pos by (simp_all add: hd_drop_conv_nth)
      moreover have "p < e" if "str_find_first_of raw ''?#'' p = Some e" for e
        using str_find_first_of_bounds [OF that] pos by (cases "e = p") auto
      ultimately show ?thesis
        using Pair True pos
        by (auto simp: ParsePath_def path_shape_def cut_def split: option.splits)
    qed
  qed
qed (cases s; simp add: ParseQuery_def ParseFragment_def path_shape_def Let_def
      split: option.splits)+

lemma parse_no_path_steps:
  "\<not> maybe_ok (rt_path (fst (ParseScheme raw (RqTarget_empty, pos))))"
  "\<not> maybe_ok (rt_path (fst s)) \<Longrightarrow> \<not> maybe_ok (rt_path (fst (ParseUserInfo raw s)))"
  "\<not> maybe_ok (rt_path (fst s)) \<Longrightarrow> \<not> maybe_ok (rt_path (fst (ParseHost raw s)))"
  "\<not> maybe_ok (rt_path (fst s)) \<Longrightarrow> \<not> maybe_ok (rt_path (fst (ParsePort raw s)))"
  by (cases s; simp add: ParseScheme_def ParseUserInfo_def ParseHost_def ParsePort_def
      RqTarget_empty_def Let_def split: option.splits)+

lemma parse_components_shape:
  "authority_shape (parse_components raw) \<and> path_shape (parse_components raw)"
  unfolding parse_components_def Let_def
  by (intro conjI parse_shape_steps parse_path_shape_steps parse_no_path_steps)

section \<open>Flags\<close>

lemma Good_add_flag: "Good (add_flag f t) \<longleftrightarrow> Good t \<and> f = 0"
  by (simp add: Good_def add_flag_def RQ_TARGET_GOOD_def or_eq_0_iff)

lemma flags_nonzero [simp]:
  "RQ_TARGET_TOO_LONG \<noteq> 0" "RQ_TARGET_BAD_SCHEME \<noteq> 0" "RQ_TARGET_HAS_USER_INFO \<noteq> 0"
  "RQ_TARGET_BAD_HOST \<noteq> 0" "RQ_TARGET_BAD_PORT \<noteq> 0" "RQ_TARGET_BAD_PATH \<noteq> 0"
  "RQ_TARGET_BAD_QUERY \<noteq> 0" "RQ_TARGET_HAS_FRAGMENT \<noteq> 0"
  by (simp_all add: rq_target_flags)

lemma add_flag_components [simp]:
  "rt_scheme (add_flag f t) = rt_scheme t" "rt_user_info (add_flag f t) = rt_user_info t"
  "rt_host (add_flag f t) = rt_host t" "rt_port (add_flag f t) = rt_port t"
  "rt_path (add_flag f t) = rt_path t" "rt_query (add_flag f t) = rt_query t"
  "rt_fragment (add_flag f t) = rt_fragment t"
  by (simp_all add: add_flag_def)

lemmas validate_defs = ValidateScheme_def ValidateHost_def ValidatePort_def ValidatePath_def
  ValidateQuery_def Let_def

lemma validate_step_components [simp]:
  "rt_scheme (ValidateScheme t) = rt_scheme t" "rt_user_info (ValidateScheme t) = rt_user_info t"
  "rt_host (ValidateScheme t) = rt_host t" "rt_port (ValidateScheme t) = rt_port t"
  "rt_path (ValidateScheme t) = rt_path t" "rt_query (ValidateScheme t) = rt_query t"
  "rt_fragment (ValidateScheme t) = rt_fragment t"
  "rt_scheme (ValidateHost t) = rt_scheme t" "rt_user_info (ValidateHost t) = rt_user_info t"
  "rt_host (ValidateHost t) = rt_host t" "rt_port (ValidateHost t) = rt_port t"
  "rt_path (ValidateHost t) = rt_path t" "rt_query (ValidateHost t) = rt_query t"
  "rt_fragment (ValidateHost t) = rt_fragment t"
  "rt_scheme (ValidatePort t) = rt_scheme t" "rt_user_info (ValidatePort t) = rt_user_info t"
  "rt_host (ValidatePort t) = rt_host t" "rt_port (ValidatePort t) = rt_port t"
  "rt_path (ValidatePort t) = rt_path t" "rt_query (ValidatePort t) = rt_query t"
  "rt_fragment (ValidatePort t) = rt_fragment t"
  "rt_scheme (ValidatePath t) = rt_scheme t" "rt_user_info (ValidatePath t) = rt_user_info t"
  "rt_host (ValidatePath t) = rt_host t" "rt_port (ValidatePath t) = rt_port t"
  "rt_path (ValidatePath t) = rt_path t" "rt_query (ValidatePath t) = rt_query t"
  "rt_fragment (ValidatePath t) = rt_fragment t"
  "rt_scheme (ValidateQuery t) = rt_scheme t" "rt_user_info (ValidateQuery t) = rt_user_info t"
  "rt_host (ValidateQuery t) = rt_host t" "rt_port (ValidateQuery t) = rt_port t"
  "rt_path (ValidateQuery t) = rt_path t" "rt_query (ValidateQuery t) = rt_query t"
  "rt_fragment (ValidateQuery t) = rt_fragment t"
  by (simp_all add: validate_defs)

text \<open>Each validation step keeps a good target good exactly when its condition holds.\<close>

lemma validate_step_good:
  "maybe_ok (rt_scheme t) \<Longrightarrow>
     Good (ValidateScheme t) \<longleftrightarrow> Good t \<and> maybe_val (rt_scheme t) = ''http''"
  "maybe_ok (rt_host t) \<Longrightarrow> Good (ValidateHost t) \<longleftrightarrow>
     Good t \<and> maybe_ok (rt_scheme t) \<and> maybe_val (rt_host t) \<noteq> [] \<and>
     host_chars_ok (maybe_val (rt_host t))"
  "maybe_ok (rt_port t) \<Longrightarrow> Good (ValidatePort t) \<longleftrightarrow>
     Good t \<and> maybe_ok (rt_scheme t) \<and> maybe_ok (rt_host t) \<and> maybe_val (rt_port t) \<noteq> [] \<and>
     StrToNumericNoThrow False 16 (maybe_val (rt_port t)) \<noteq> None"
  "maybe_ok (rt_path t) \<Longrightarrow> Good (ValidatePath t) \<longleftrightarrow>
     Good t \<and> maybe_val (rt_path t) \<noteq> [] \<and> hd (maybe_val (rt_path t)) = CHR ''/'' \<and>
     path_chars_ok 0 (maybe_val (rt_path t))"
  "maybe_ok (rt_query t) \<Longrightarrow> Good (ValidateQuery t) \<longleftrightarrow>
     Good t \<and> query_chars_ok (maybe_val (rt_query t))"
  by (auto simp: validate_defs Good_add_flag split: if_splits)

lemma Validate_components [simp]:
  "rt_scheme (Validate t) = rt_scheme t" "rt_user_info (Validate t) = rt_user_info t"
  "rt_host (Validate t) = rt_host t" "rt_port (Validate t) = rt_port t"
  "rt_path (Validate t) = rt_path t" "rt_query (Validate t) = rt_query t"
  "rt_fragment (Validate t) = rt_fragment t"
  by (simp_all add: Validate_def Let_def)

lemma Good_Validate:
  "Good (Validate t) \<longleftrightarrow>
     Good t \<and> (maybe_ok (rt_scheme t) \<longrightarrow> maybe_val (rt_scheme t) = ''http'') \<and>
     \<not> maybe_ok (rt_user_info t) \<and>
     (maybe_ok (rt_host t) \<longrightarrow> maybe_ok (rt_scheme t) \<and> maybe_val (rt_host t) \<noteq> [] \<and>
        host_chars_ok (maybe_val (rt_host t))) \<and>
     (maybe_ok (rt_port t) \<longrightarrow> maybe_ok (rt_scheme t) \<and> maybe_ok (rt_host t) \<and>
        maybe_val (rt_port t) \<noteq> [] \<and>
        StrToNumericNoThrow False 16 (maybe_val (rt_port t)) \<noteq> None) \<and>
     (maybe_ok (rt_path t) \<longrightarrow> maybe_val (rt_path t) \<noteq> [] \<and>
        hd (maybe_val (rt_path t)) = CHR ''/'' \<and> path_chars_ok 0 (maybe_val (rt_path t))) \<and>
     (maybe_ok (rt_query t) \<longrightarrow> query_chars_ok (maybe_val (rt_query t))) \<and>
     \<not> maybe_ok (rt_fragment t)"
  unfolding Validate_def Let_def
  by (simp add: validate_step_good Good_add_flag)

section \<open>Normalisation\<close>

lemma PercentDecode_slash:
  "PercentDecode (CHR ''/'' # cs) dont = map_option (\<lambda>d. CHR ''/'' # d) (PercentDecode cs dont)"
  by (simp split: option.splits)

lemma ConvertEncodedHexToUpper_slash:
  "\<exists>q. ConvertEncodedHexToUpper (CHR ''/'' # p) = CHR ''/'' # q"
  by (cases p; cases "tl p") auto

lemma CollapseSlashes_slash: "\<exists>q. CollapseSlashes (CHR ''/'' # p) = CHR ''/'' # q"
  by (simp add: CollapseSlashes_def)

lemma normalize_host_frame:
  "rt_scheme (normalize_host t) = rt_scheme t" "rt_user_info (normalize_host t) = rt_user_info t"
  "maybe_ok (rt_host (normalize_host t)) = maybe_ok (rt_host t)"
  "rt_port (normalize_host t) = rt_port t" "rt_path (normalize_host t) = rt_path t"
  "rt_query (normalize_host t) = rt_query t" "rt_fragment (normalize_host t) = rt_fragment t"
  "Good (normalize_host t) \<Longrightarrow> Good t"
  by (auto simp: normalize_host_def Good_def add_flag_def RQ_TARGET_GOOD_def or_eq_0_iff Let_def
      split: option.splits if_splits)

lemma normalize_port_frame:
  "normalize_port t = Inr t' \<Longrightarrow> validity_state t' = validity_state t \<and>
     rt_scheme t' = rt_scheme t \<and> rt_user_info t' = rt_user_info t \<and> rt_host t' = rt_host t \<and>
     rt_path t' = rt_path t \<and> rt_query t' = rt_query t \<and> rt_fragment t' = rt_fragment t \<and>
     (maybe_ok (rt_port t') \<longrightarrow> rt_port t' = rt_port t)"
  by (auto simp: normalize_port_def split: if_splits sum.splits)

lemma normalize_port_total: "authority_shape t \<Longrightarrow> \<exists>t'. normalize_port t = Inr t'"
  by (auto simp: normalize_port_def authority_shape_def maybe_value_def)

lemma normalize_path_frame:
  "rt_scheme (normalize_path t) = rt_scheme t" "rt_user_info (normalize_path t) = rt_user_info t"
  "rt_host (normalize_path t) = rt_host t" "rt_port (normalize_path t) = rt_port t"
  "maybe_ok (rt_path (normalize_path t)) = maybe_ok (rt_path t)"
  "rt_query (normalize_path t) = rt_query t" "rt_fragment (normalize_path t) = rt_fragment t"
  "Good (normalize_path t) \<Longrightarrow> Good t"
  by (auto simp: normalize_path_def Good_def add_flag_def RQ_TARGET_GOOD_def or_eq_0_iff Let_def
      split: option.splits if_splits)

lemma normalize_query_frame:
  "rt_scheme (normalize_query t) = rt_scheme t"
  "rt_user_info (normalize_query t) = rt_user_info t"
  "rt_host (normalize_query t) = rt_host t" "rt_port (normalize_query t) = rt_port t"
  "rt_path (normalize_query t) = rt_path t"
  "maybe_ok (rt_query (normalize_query t)) = maybe_ok (rt_query t)"
  "rt_fragment (normalize_query t) = rt_fragment t"
  "Good (normalize_query t) \<Longrightarrow> Good t"
  by (auto simp: normalize_query_def Good_def add_flag_def RQ_TARGET_GOOD_def or_eq_0_iff Let_def
      split: option.splits if_splits)

lemmas normalize_frames = normalize_host_frame normalize_path_frame normalize_query_frame

lemma Good_normalize_path:
  assumes "Good (normalize_path t)" and "maybe_ok (rt_path t)"
    and "maybe_val (rt_path t) = CHR ''/'' # p"
  shows "dot_free (maybe_val (rt_path (normalize_path t)))"
proof -
  let ?dec = "PercentDecode (CHR ''/'' # p) (Some ''/'')"
  from assms obtain d where d: "?dec = Some d"
    by (auto simp: normalize_path_def Good_def add_flag_def RQ_TARGET_GOOD_def or_eq_0_iff Let_def
        simp del: PercentDecode.simps split: option.splits)
  then obtain d' where d': "d = CHR ''/'' # d'" by (auto simp: PercentDecode_slash
        simp del: PercentDecode.simps)
  obtain u where u: "ConvertEncodedHexToUpper (CHR ''/'' # d') = CHR ''/'' # u"
    using ConvertEncodedHexToUpper_slash by blast
  obtain c where c: "CollapseSlashes (CHR ''/'' # u) = CHR ''/'' # c"
    using CollapseSlashes_slash by blast
  note eqs = d d' u c assms(2,3)
  from assms(1) obtain q where q: "RemoveDotSegments (CHR ''/'' # c) = Some q"
    by (auto simp: normalize_path_def eqs Good_def add_flag_def RQ_TARGET_GOOD_def or_eq_0_iff
        Let_def simp del: PercentDecode.simps split: option.splits)
  then have "maybe_val (rt_path (normalize_path t)) = q"
    by (simp add: normalize_path_def eqs del: PercentDecode.simps)
  with RemoveDotSegments_dot_free [OF q] show ?thesis by simp
qed

lemma parse_validate_shape:
  "authority_shape (Validate (parse_components raw))"
  using parse_components_shape [of raw] by (simp add: authority_shape_def)

lemma RqTarget_of_raw_ok: "\<exists>t. RqTarget_of_raw raw = Inr t"
proof (cases "RQ_TARGET_LEN_LIMIT < length raw")
  case False
  have "authority_shape (normalize_host (Validate (parse_components raw)))"
    using parse_validate_shape [of raw] by (simp add: authority_shape_def normalize_frames)
  then obtain t where "normalize_port (normalize_host (Validate (parse_components raw))) = Inr t"
    using normalize_port_total by blast
  with False show ?thesis by (simp add: RqTarget_of_raw_def Normalize_def)
qed (simp add: RqTarget_of_raw_def)

lemma Good_raw_safe:
  assumes "RqTarget_of_raw raw = Inr t" and "Good t"
  shows "length raw \<le> RQ_TARGET_LEN_LIMIT \<and> maybe_ok (rt_path t) \<and>
    dot_free (get_component (rt_path t)) \<and> \<not> maybe_ok (rt_user_info t) \<and>
    \<not> maybe_ok (rt_fragment t) \<and> (maybe_ok (rt_scheme t) \<longrightarrow> get_component (rt_scheme t) = ''http'') \<and>
    (maybe_ok (rt_host t) \<longrightarrow> maybe_ok (rt_scheme t))"
proof -
  have len: "length raw \<le> RQ_TARGET_LEN_LIMIT"
    using assms by (auto simp: RqTarget_of_raw_def Good_add_flag split: if_splits)
  let ?v = "Validate (parse_components raw)"
  from assms(1) len obtain t1 where t1: "normalize_port (normalize_host ?v) = Inr t1"
    and t: "t = normalize_query (normalize_path t1)"
    by (auto simp: RqTarget_of_raw_def Normalize_def bind_outcome_Inr_iff)
  note f1 = normalize_port_frame [OF t1]
  have gp: "Good (normalize_path t1)" using assms(2) t by (auto intro: normalize_query_frame)
  then have "Good t1" by (rule normalize_path_frame)
  then have "Good (normalize_host ?v)" using f1 by (simp add: Good_def)
  then have gv: "Good ?v" by (rule normalize_host_frame)
  then have "Good (parse_components raw)" by (simp add: Good_Validate)
  then have ok: "maybe_ok (rt_path (parse_components raw))"
    using parse_components_shape [of raw]
    by (auto simp: path_shape_def Good_def RQ_TARGET_GOOD_def split: if_splits)
  have path: "rt_path t1 = rt_path (parse_components raw)"
    using f1 by (simp add: normalize_frames)
  have "maybe_val (rt_path t1) \<noteq> []" "hd (maybe_val (rt_path t1)) = CHR ''/''"
    using gv ok unfolding path Good_Validate by simp_all
  then obtain p where p: "maybe_val (rt_path t1) = CHR ''/'' # p"
    by (cases "maybe_val (rt_path t1)") auto
  have "dot_free (maybe_val (rt_path (normalize_path t1)))"
    using gp p ok by (intro Good_normalize_path) (simp_all add: path)
  then have "dot_free (get_component (rt_path t))" "maybe_ok (rt_path t)"
    using ok by (simp_all add: t path normalize_frames get_component_def)
  moreover have "rt_scheme t = rt_scheme ?v" "rt_user_info t = rt_user_info ?v"
    "rt_fragment t = rt_fragment ?v" "maybe_ok (rt_host t) = maybe_ok (rt_host ?v)"
    using f1 by (simp_all add: t normalize_frames)
  ultimately show ?thesis
    using len gv unfolding Good_Validate by (auto simp: get_component_def)
qed

text \<open>
  C10: a target the request builder accepts cannot climb out of the document root and carries
  nothing the grammar forbids: its path is set, absolute and without dot segments after
  decoding, there is neither user info nor fragment, a scheme is \<open>http\<close>, a host comes only with
  a scheme, and the raw target was within the length limit.
\<close>

theorem good_target_safe:
  assumes "RqTarget_of_raw raw = Inr t" and "Good t"
  shows "length raw \<le> RQ_TARGET_LEN_LIMIT \<and> maybe_ok (rt_path t) \<and>
    dot_free (get_component (rt_path t)) \<and> \<not> maybe_ok (rt_user_info t) \<and>
    \<not> maybe_ok (rt_fragment t) \<and> (maybe_ok (rt_scheme t) \<longrightarrow> get_component (rt_scheme t) = ''http'') \<and>
    (maybe_ok (rt_host t) \<longrightarrow> maybe_ok (rt_scheme t))"
  by (rule Good_raw_safe [OF assms])

text \<open>The example: an absolute-form target with an encoded dot segment.\<close>

theorem good_target_safe_witness:
  "\<exists>t. RqTarget_of_raw ''http://h/a/%2e%2e/b'' = Inr t \<and> Good t \<and>
     dot_free (get_component (rt_path t)) \<and> get_component (rt_path t) = ''/b''"
proof -
  have "\<exists>t. RqTarget_of_raw ''http://h/a/%2e%2e/b'' = Inr t \<and> Good t \<and>
      get_component (rt_path t) = ''/b''"
    by (simp add: eval_simps str_simps remove_dots.simps)
  then show ?thesis using good_target_safe by blast
qed

text \<open>Decoding a path or a query never brings in a NUL byte that was not already there.\<close>

lemma PercentDecode_no_NUL:
  "PercentDecode s (Some ks) = Some d \<Longrightarrow> NUL \<notin> set s \<Longrightarrow> NUL \<notin> set d"
proof (induction s "Some ks" arbitrary: d rule: PercentDecode.induct)
  case (2 c cs)
  show ?case
  proof (cases "c = CHR ''%''")
    case True
    obtain h l rest ascii e where cs: "cs = h # l # rest"
      and x: "HexToUnsignedNumericNoThrow 16 [h, l] = Some ascii"
      and e: "PercentDecode rest (Some ks) = Some e"
      and d: "d = (if in_cstr (char_of ascii) ks then CHR ''%'' # h # l # e
                   else char_of ascii # e)"
      using "2.prems"(1) True by (simp split: list.splits option.splits)
    have "NUL \<notin> set e" using "2.hyps"(1) [OF True cs refl x e] "2.prems"(2) cs by simp
    then show ?thesis using "2.prems"(2) by (auto simp: d cs in_cstr_def True)
  next
    case False
    then obtain e where "PercentDecode cs (Some ks) = Some e" "d = c # e"
      using "2.prems"(1) by (auto split: option.splits)
    with "2.hyps"(2) [OF False] "2.prems"(2) show ?thesis by simp
  qed
qed simp

lemma PercentDecode_no_NUL_example: "NUL \<notin> set ''/a b''"
proof -
  have "PercentDecode ''/a%20b'' (Some ''/'') = Some ''/a b''"
    by (simp add: eval_simps)
  then show ?thesis by (rule PercentDecode_no_NUL) simp
qed

end
