(* ===== verification/BuilderSafety.thy ===== *)
theory BuilderSafety
  imports BuilderBody RqTargetProps
begin

text \<open>
  What holds of every request the builder lets through: an invariant of its loop, from the empty
  builder over any sequence of reads.
\<close>

section \<open>Sizes\<close>

definition header_bytes :: "(string, string) std_map \<Rightarrow> nat" where
  "header_bytes m = sum_list (map (\<lambda>(k, v). length k + length v) m)"

lemma header_bytes_simps [simp]:
  "header_bytes [] = 0"
  "header_bytes ((k, v) # m) = length k + length v + header_bytes m"
  by (simp_all add: header_bytes_def)

lemma header_bytes_assign: "header_bytes (map_assign k v m) \<le> length k + length v + header_bytes m"
  by (induction k v m rule: map_assign.induct) auto

lemma length_map_assign: "length (map_assign k v m) \<le> Suc (length m)"
  by (induction k v m rule: map_assign.induct) auto

lemma length_eat: "length (eat_spaces_and_htabs s) \<le> length s"
  by (simp add: eat_spaces_and_htabs_eq length_dropWhile_le)

lemma find_idx_less: "find_idx P s = Some n \<Longrightarrow> n < length s"
  using find_idx_Some by blast

text \<open>Key and value of a header line are disjoint parts of it, with the colon between them.\<close>

lemma split_header_line_length:
  assumes "split_header_line line = Some (key, val)"
  shows "length key + length val < length line"
proof (cases "find_idx (\<lambda>c. c = CHR '':'') line")
  case None
  with assms show ?thesis
    by (simp add: split_header_line_def getline_def ss_of_def ss_good_def EatSpacesAndHTabs_def Let_def)
next
  case (Some n)
  let ?rest = "eat_spaces_and_htabs (drop (Suc n) line)"
  from Some assms have "key = take n line" "val = ?rest"
    by (auto simp: split_header_line_def getline_def ss_of_def ss_good_def EatSpacesAndHTabs_def
        Let_def split: option.splits if_splits)
  with find_idx_less [OF Some] length_eat [of "drop (Suc n) line"] show ?thesis by simp
qed

text \<open>A line that is found fits into the limit, with its line end.\<close>

lemma scan_line_found_length:
  "fst (scan_line p) = EXTRACTION_SUCCESS \<Longrightarrow> rp_idx (snd (scan_line p)) < int RQ_LINE_LEN_LIMIT"
proof (induction p rule: scan_induct)
  case (stop p r)
  then have "scan_stops p = Some EXTRACTION_SUCCESS" by (simp add: scan_stop)
  then have "\<not> RQ_LINE_LEN_LIMIT < ElementLen p" "1 \<le> rp_idx p"
    using EndsWithCRLF_bounds [of p] by (auto simp: scan_stops_def split: if_splits)
  with stop show ?case by (simp add: scan_stop ElementLen_def)
qed (simp_all add: scan_more)

lemma TryToExtractLine_length:
  assumes "TryToExtractLine b = (EXTRACTION_SUCCESS, c)"
  shows "length (rb_extraction c) + 2 \<le> RQ_LINE_LEN_LIMIT"
proof -
  obtain p where p: "scan_line (rb_parser b) = (EXTRACTION_SUCCESS, p)"
    and c: "rb_extraction c = fst (ExtractLine p)"
    using assms by (auto simp: TryToExtractLine_def split: prod.splits if_splits)
  have "1 \<le> rp_idx p" "rp_idx p < int RQ_LINE_LEN_LIMIT"
    using p scan_line_found [of "rb_parser b"] scan_line_found_length [of "rb_parser b"]
      EndsWithCRLF_bounds [of p] by simp_all
  then have "length (rb_extraction c) \<le> nat (rp_idx p - 1)" "nat (rp_idx p - 1) + 2 \<le> RQ_LINE_LEN_LIMIT"
    by (auto simp: c ExtractLine_def Let_def)
  then show ?thesis by linarith
qed

section \<open>The invariant\<close>

definition start_ok :: "request \<Rightarrow> bool" where
  "start_ok rq \<longleftrightarrow> rq_method rq \<noteq> HTTP_NO_METHOD \<and> rq_version rq \<in> {HTTP_1_0, HTTP_1_1}
     \<and> Good (rq_target rq) \<and> dot_free (get_component (rt_path (rq_target rq)))
     \<and> (\<exists>raw. RqTarget_of_raw raw = Inr (rq_target rq))"

definition headers_ok :: "nat \<Rightarrow> nat \<Rightarrow> request \<Rightarrow> bool" where
  "headers_ok count bytes rq \<longleftrightarrow> map_sorted (rq_headers rq)
     \<and> length (rq_headers rq) \<le> count \<and> count \<le> RQ_MAX_HEADER_COUNT
     \<and> header_bytes (rq_headers rq) \<le> bytes \<and> bytes \<le> RQ_HEADER_SECTION_LIMIT
     \<and> (\<forall>k\<in>fst ` set (rq_headers rq). ToLowerCase k = k)"

definition accepted :: "request \<Rightarrow> bool" where
  "accepted rq \<longleftrightarrow> ValidateHeadersSyntax (rq_headers rq) = HTTP_OK
     \<and> GetHeaderVal rq ''host'' \<noteq> None
     \<and> (GetHeaderVal rq ''content-length'' = None \<or> GetHeaderVal rq ''transfer-encoding'' = None)"

definition builder_inv :: "request_builder \<Rightarrow> bool" where
  "builder_inv b \<longleftrightarrow>
     (case rb_state b of
        BS_BAD_REQUEST \<Rightarrow> rq_status (rb_rq b) \<noteq> HTTP_OK
      | BS_RQ_LINE \<Rightarrow> rq_headers (rb_rq b) = [] \<and> rb_header_count b = 0 \<and> rb_section_size b = 0
          \<and> \<not> rb_has_body b
      | _ \<Rightarrow> start_ok (rb_rq b) \<and> headers_ok (rb_header_count b) (rb_section_size b) (rb_rq b)
          \<and> (rb_state b \<in> {BS_HEADER_FIELDS, BS_AFTER_HEADERS} \<longrightarrow> \<not> rb_has_body b)
          \<and> (rb_state b \<notin> {BS_HEADER_FIELDS, BS_AFTER_HEADERS} \<longrightarrow> accepted (rb_rq b)
             \<and> (rb_has_body b \<longleftrightarrow> rq_method (rb_rq b) = HTTP_POST))
          \<and> (rb_state b \<in> {BS_BODY_REGULAR, BS_BODY_CHUNK_SIZE, BS_BODY_CHUNK_CONTENT}
             \<longrightarrow> rb_has_body b))"

lemma builder_inv_cases:
  "rb_state b = BS_BAD_REQUEST \<Longrightarrow> builder_inv b \<longleftrightarrow> rq_status (rb_rq b) \<noteq> HTTP_OK"
  "rb_state b = BS_RQ_LINE \<Longrightarrow> builder_inv b \<longleftrightarrow> rq_headers (rb_rq b) = []
     \<and> rb_header_count b = 0 \<and> rb_section_size b = 0 \<and> \<not> rb_has_body b"
  "rb_state b \<in> {BS_HEADER_FIELDS, BS_AFTER_HEADERS} \<Longrightarrow> builder_inv b \<longleftrightarrow>
     start_ok (rb_rq b) \<and> headers_ok (rb_header_count b) (rb_section_size b) (rb_rq b)
     \<and> \<not> rb_has_body b"
  "rb_state b \<in> {BS_BODY_REGULAR, BS_BODY_CHUNK_SIZE, BS_BODY_CHUNK_CONTENT} \<Longrightarrow> builder_inv b \<longleftrightarrow>
     start_ok (rb_rq b) \<and> headers_ok (rb_header_count b) (rb_section_size b) (rb_rq b)
     \<and> accepted (rb_rq b) \<and> rb_has_body b \<and> rq_method (rb_rq b) = HTTP_POST"
  "rb_state b = BS_END \<Longrightarrow> builder_inv b \<longleftrightarrow>
     start_ok (rb_rq b) \<and> headers_ok (rb_header_count b) (rb_section_size b) (rb_rq b)
     \<and> accepted (rb_rq b) \<and> (rb_has_body b \<longleftrightarrow> rq_method (rb_rq b) = HTTP_POST)"
  by (auto simp: builder_inv_def)

section \<open>Every step keeps the invariant\<close>

lemma parse_header_line_bad:
  "parse_header_line b = (BS_BAD_REQUEST, c) \<Longrightarrow> rq_status (rb_rq c) \<noteq> HTTP_OK"
  by (auto simp: parse_header_line_def Let_def InsertHeaderField_def
      split: option.splits if_splits prod.splits)

lemma PrepareBody_bad:
  assumes "PrepareBody e vr b = Inr (BS_BAD_REQUEST, c)"
  shows "rq_status (rb_rq c) \<noteq> HTTP_OK"
proof -
  let ?b = "b\<lparr>rb_body := (rb_body b)\<lparr>bb_max := word_of_int (hv_max_body_size vr)\<rparr>\<rparr>"
  from assms obtain rc b1 where o: "open_body e vr ?b = Inr (rc, b1)"
    by (auto simp: PrepareBody_def Let_def bind_outcome_Inr_iff)
  show ?thesis
  proof (cases "rc = HTTP_OK")
    case True
    with assms o have "b1\<lparr>rb_rq := (rb_rq b1)\<lparr>rq_status := HTTP_PAYLOAD_TOO_LARGE\<rparr>\<rparr> = c"
      by (simp add: PrepareBody_def Let_def split: if_splits)
    then show ?thesis by (simp flip: \<open>_ = c\<close>)
  next
    case False
    with assms o have "b1\<lparr>rb_rq := (rb_rq b1)\<lparr>rq_status := rc\<rparr>\<rparr> = c"
      by (simp add: PrepareBody_def Let_def)
    with False show ?thesis by (simp flip: \<open>_ = c\<close>)
  qed
qed

lemma ProcessHeaders_bad:
  assumes "ProcessHeaders e b = Inr (BS_BAD_REQUEST, c)"
  shows "rq_status (rb_rq c) \<noteq> HTTP_OK"
  using assms
  by (auto simp: ProcessHeaders_def Let_def PrepareBody_bad split: if_splits prod.splits)

lemma TrySet_results:
  "TrySetMethod raw b = (rc, b1) \<Longrightarrow> rc = HTTP_OK \<Longrightarrow>
     \<exists>m. m \<noteq> HTTP_NO_METHOD \<and> b1 = b\<lparr>rb_rq := (rb_rq b)\<lparr>rq_method := m\<rparr>\<rparr>"
  "TrySetRqTarget raw b = Inr (rc, b1) \<Longrightarrow> rc = HTTP_OK \<Longrightarrow>
     \<exists>t. RqTarget_of_raw raw = Inr t \<and> Good t \<and> dot_free (get_component (rt_path t)) \<and>
       b1 = b\<lparr>rb_rq := (rb_rq b)\<lparr>rq_target := t\<rparr>\<rparr>"
  "TrySetVersion raw b = (rc, b1) \<Longrightarrow> rc = HTTP_OK \<Longrightarrow>
     \<exists>v. v \<in> {HTTP_1_0, HTTP_1_1} \<and> b1 = b\<lparr>rb_rq := (rb_rq b)\<lparr>rq_version := v\<rparr>\<rparr>"
  by (auto simp: TrySetMethod_def HttpMethodFromStr_iff split: if_splits option.splits,
      cases "RqTarget_of_raw raw", auto simp: TrySetRqTarget_def split: if_splits dest: Good_raw_safe,
      auto simp: TrySetVersion_def IsValidVersionName_def HttpVersionFromStr_def
        split: if_splits option.splits)

lemma set_request_line_inv:
  assumes "set_request_line parts b = Inr (st, c)"
    "rq_headers (rb_rq b) = []" "rb_header_count b = 0" "rb_section_size b \<le> RQ_HEADER_SECTION_LIMIT"
    "\<not> rb_has_body b"
  shows "builder_inv (c\<lparr>rb_state := st\<rparr>)"
proof (cases parts)
  case (fields m t v)
  obtain rc1 b1 where m: "TrySetMethod m b = (rc1, b1)" by fastforce
  show ?thesis
  proof (cases "rc1 = HTTP_OK")
    case True
    from TrySet_results(1) [OF m True] obtain m' where
      b1: "m' \<noteq> HTTP_NO_METHOD" "b1 = b\<lparr>rb_rq := (rb_rq b)\<lparr>rq_method := m'\<rparr>\<rparr>" by blast
    with assms(1) True m fields obtain rc2 b2 where t: "TrySetRqTarget t b1 = Inr (rc2, b2)"
      by (cases "TrySetRqTarget t b1") (auto simp: set_request_line_def)
    obtain rc3 b3 where v: "TrySetVersion v b2 = (rc3, b3)" by fastforce
    show ?thesis
    proof (cases "rc2 = HTTP_OK \<and> rc3 = HTTP_OK")
      case ok: True
      from TrySet_results(2) [OF t] ok obtain t' where
        b2: "RqTarget_of_raw t = Inr t'" "Good t'" "dot_free (get_component (rt_path t'))" "b2 = b1\<lparr>rb_rq := (rb_rq b1)\<lparr>rq_target := t'\<rparr>\<rparr>" by blast
      from TrySet_results(3) [OF v] ok obtain v' where
        b3: "v' \<in> {HTTP_1_0, HTTP_1_1}" "b3 = b2\<lparr>rb_rq := (rb_rq b2)\<lparr>rq_version := v'\<rparr>\<rparr>" by blast
      from assms(1) m t v True ok fields have "st = BS_HEADER_FIELDS" "c = b3"
        by (simp_all add: set_request_line_def)
      with assms(2-5) b1 b2 b3 show ?thesis
        by (auto simp: builder_inv_cases start_ok_def headers_ok_def)
    next
      case False
      with assms(1) m t v True fields have "st = BS_BAD_REQUEST" "rq_status (rb_rq c) \<noteq> HTTP_OK"
        by (auto simp: set_request_line_def split: if_splits)
      then show ?thesis by (simp add: builder_inv_cases)
    qed
  next
    case False
    with assms(1) m fields have "st = BS_BAD_REQUEST" "rq_status (rb_rq c) \<noteq> HTTP_OK"
      by (auto simp: set_request_line_def)
    then show ?thesis by (simp add: builder_inv_cases)
  qed
qed

lemma parse_first_line_inv:
  assumes "parse_first_line b = Inr (st, c)" "length (rb_extraction b) + 2 \<le> RQ_LINE_LEN_LIMIT"
    "rq_headers (rb_rq b) = []" "rb_header_count b = 0" "rb_section_size b = 0" "\<not> rb_has_body b"
  shows "builder_inv (c\<lparr>rb_state := st\<rparr>)"
proof (cases "split_request_line (rb_extraction b)")
  case None
  with assms(1) have "st = BS_BAD_REQUEST" "rq_status (rb_rq c) \<noteq> HTTP_OK"
    by (auto simp: parse_first_line_def Let_def)
  then show ?thesis by (simp add: builder_inv_cases)
next
  case (Some parts)
  let ?b = "b\<lparr>rb_section_size := rb_section_size b + length (rb_extraction b)\<rparr>"
  from Some assms(1) have "set_request_line parts ?b = Inr (st, c)"
    by (simp add: parse_first_line_def Let_def)
  moreover have "rb_section_size ?b \<le> RQ_HEADER_SECTION_LIMIT"
    using assms(2,5) by (simp add: RQ_HEADER_SECTION_LIMIT_def RQ_LINE_LEN_LIMIT_def)
  ultimately show ?thesis
    using assms(3-6) set_request_line_inv [of parts ?b st c] by simp
qed

lemma parse_header_line_inv:
  assumes "parse_header_line b = (st, c)" "start_ok (rb_rq b)" "\<not> rb_has_body b"
    "headers_ok (rb_header_count b) (rb_section_size b) (rb_rq b)"
  shows "builder_inv (c\<lparr>rb_state := st\<rparr>)"
proof (cases "st = BS_BAD_REQUEST")
  case False
  let ?total = "rb_section_size b + length (rb_extraction b)"
  let ?b = "b\<lparr>rb_section_size := ?total\<rparr>"
  from False assms(1) have lim: "?total \<le> RQ_HEADER_SECTION_LIMIT"
    by (auto simp: parse_header_line_def Let_def split: if_splits)
  show ?thesis
  proof (cases "rb_extraction b = []")
    case True
    with assms lim show ?thesis
      by (auto simp: parse_header_line_def Let_def builder_inv_cases headers_ok_def)
  next
    case ne: False
    with False assms(1) lim obtain key val where
      kv: "split_header_line (rb_extraction b) = Some (key, val)"
      by (auto simp: parse_header_line_def Let_def split: option.splits)
    with False assms(1) lim ne have "st = BS_HEADER_FIELDS"
      "rb_header_count b + 1 \<le> RQ_MAX_HEADER_COUNT"
      "c = ?b\<lparr>rb_header_count := rb_header_count b + 1,
         rb_rq := (rb_rq b)\<lparr>rq_headers := map_assign (ToLowerCase key) val (rq_headers (rb_rq b))\<rparr>\<rparr>"
      by (auto simp: parse_header_line_def Let_def InsertHeaderField_def split: if_splits)
    moreover have "header_bytes (map_assign (ToLowerCase key) val (rq_headers (rb_rq b))) \<le> ?total"
      using split_header_line_length [OF kv] assms(4)
        header_bytes_assign [of "ToLowerCase key" val "rq_headers (rb_rq b)"]
      by (simp add: headers_ok_def)
    ultimately show ?thesis
      using assms(2-4) lim length_map_assign [of "ToLowerCase key" val "rq_headers (rb_rq b)"]
      by (auto simp: builder_inv_cases start_ok_def headers_ok_def fst_set_map_assign
          map_sorted_assign)
  qed
qed (use assms parse_header_line_bad in \<open>auto simp: builder_inv_cases\<close>)

lemma InterpretHeaders_ok:
  assumes "InterpretHeaders b = (HTTP_OK, c)" "\<not> rb_has_body b"
  shows "rb_rq c = rb_rq b \<and> rb_header_count c = rb_header_count b
    \<and> rb_section_size c = rb_section_size b
    \<and> (rb_has_body c \<longleftrightarrow> rq_method (rb_rq b) = HTTP_POST)
    \<and> GetHeaderVal (rb_rq b) ''host'' \<noteq> None
    \<and> (GetHeaderVal (rb_rq b) ''content-length'' = None
       \<or> GetHeaderVal (rb_rq b) ''transfer-encoding'' = None)"
  using assms
  by (auto simp: InterpretHeaders_def Let_def check_method_body_def note_chunked_def
      split: option.splits if_splits)

lemma open_body_keeps:
  assumes "open_body e vr b = Inr (rc, c)"
  shows "rq_headers (rb_rq c) = rq_headers (rb_rq b) \<and> rq_method (rb_rq c) = rq_method (rb_rq b)
    \<and> rq_version (rb_rq c) = rq_version (rb_rq b) \<and> rq_target (rb_rq c) = rq_target (rb_rq b)
    \<and> rb_header_count c = rb_header_count b \<and> rb_section_size c = rb_section_size b
    \<and> rb_has_body c = rb_has_body b"
  using assms by (auto simp: open_body_def Let_def split: option.splits if_splits)
lemma ProcessHeaders_inv:
  assumes "ProcessHeaders e b = Inr (st, c)" "start_ok (rb_rq b)" "\<not> rb_has_body b"
    "headers_ok (rb_header_count b) (rb_section_size b) (rb_rq b)"
  shows "builder_inv (c\<lparr>rb_state := st\<rparr>)"
proof (cases "st = BS_BAD_REQUEST")
  case False
  obtain rc b1 where i: "InterpretHeaders b = (rc, b1)" by fastforce
  from False assms(1) i have ok: "rc = HTTP_OK" "ValidateHeadersSyntax (rq_headers (rb_rq b)) = HTTP_OK"
    by (auto simp: ProcessHeaders_def split: if_splits)
  note b1 = InterpretHeaders_ok [OF i [unfolded ok(1)] assms(3)]
  let ?vr = "headers_ready_cb e (rb_rq b1)"
  from False assms(1) i ok have vr: "hv_status ?vr = HTTP_OK"
    by (auto simp: ProcessHeaders_def Let_def split: if_splits)
  have acc: "accepted (rb_rq b)" using b1 ok by (simp add: accepted_def)
  show ?thesis
  proof (cases "rb_has_body b1")
    case nobody: False
    with assms i ok vr b1 acc show ?thesis
      by (auto simp: ProcessHeaders_def Let_def builder_inv_cases)
  next
    case True
    let ?b1 = "b1\<lparr>rb_body := (rb_body b1)\<lparr>bb_max := word_of_int (hv_max_body_size ?vr)\<rparr>\<rparr>"
    from assms(1) i ok vr True have prep: "PrepareBody e ?vr b1 = Inr (st, c)"
      by (simp add: ProcessHeaders_def Let_def)
    then obtain rc2 b2 where o: "open_body e ?vr ?b1 = Inr (rc2, b2)"
      by (auto simp: PrepareBody_def Let_def bind_outcome_Inr_iff)
    from prep o False have st: "st \<in> {BS_BODY_CHUNK_SIZE, BS_BODY_REGULAR}" "c = b2"
      by (auto simp: PrepareBody_def Let_def split: if_splits)
    with open_body_keeps [OF o] True b1 acc assms(2-4) show ?thesis
      by (auto simp: builder_inv_cases start_ok_def headers_ok_def accepted_def GetHeaderVal_def)
  qed
qed (use assms ProcessHeaders_bad in \<open>auto simp: builder_inv_cases\<close>)

text \<open>A line step: the line that is handed on has a bounded length.\<close>

lemma line_step_inv:
  assumes "line_step st g b = Inr (s', c)" "rb_state b = st" "builder_inv b"
    and "\<And>b1. TryToExtractLine b = (EXTRACTION_SUCCESS, b1) \<Longrightarrow> g b1 = Inr (s', c)
      \<Longrightarrow> builder_inv (c\<lparr>rb_state := s'\<rparr>)"
  shows "builder_inv (c\<lparr>rb_state := s'\<rparr>)"
proof -
  obtain r b1 where r: "TryToExtractLine b = (r, b1)" by fastforce
  show ?thesis
  proof (cases r)
    case EXTRACTION_SUCCESS
    with r assms(1,4) show ?thesis by (simp add: line_step_def)
  next
    case EXTRACTION_CRLF_NOT_FOUND
    with r assms(1) have "s' = st" "c = b1" by (simp_all add: line_step_def)
    moreover have "rb_rq b1 = rb_rq b" "rb_header_count b1 = rb_header_count b"
      "rb_section_size b1 = rb_section_size b" "rb_has_body b1 = rb_has_body b"
      using r by (auto simp: TryToExtractLine_def split: prod.splits if_splits)
    ultimately show ?thesis using assms(2,3) by (cases st) (auto simp: builder_inv_def)
  qed (use r assms(1) in \<open>auto simp: line_step_def builder_inv_cases\<close>)
qed

lemma TryToExtractLine_keeps:
  assumes "TryToExtractLine b = (r, b1)"
  shows "rb_rq b1 = rb_rq b \<and> rb_header_count b1 = rb_header_count b
    \<and> rb_section_size b1 = rb_section_size b \<and> rb_has_body b1 = rb_has_body b"
  using assms by (auto simp: TryToExtractLine_def split: prod.splits if_splits)

text \<open>The body steps change the path and the flags of the body, and none of what is accepted.\<close>

definition same_head :: "request_builder \<Rightarrow> request_builder \<Rightarrow> bool" where
  "same_head b c \<longleftrightarrow> rq_headers (rb_rq c) = rq_headers (rb_rq b)
     \<and> rq_method (rb_rq c) = rq_method (rb_rq b) \<and> rq_version (rb_rq c) = rq_version (rb_rq b)
     \<and> rq_target (rb_rq c) = rq_target (rb_rq b) \<and> rb_header_count c = rb_header_count b
     \<and> rb_section_size c = rb_section_size b \<and> rb_has_body c = rb_has_body b"

lemma same_head_inv:
  assumes "same_head b c" "builder_inv b"
    "rb_state b \<in> {BS_BODY_REGULAR, BS_BODY_CHUNK_SIZE, BS_BODY_CHUNK_CONTENT}"
    "st \<in> {BS_BODY_REGULAR, BS_BODY_CHUNK_SIZE, BS_BODY_CHUNK_CONTENT, BS_END, BS_BAD_REQUEST}"
    "st = BS_BAD_REQUEST \<Longrightarrow> rq_status (rb_rq c) \<noteq> HTTP_OK"
  shows "builder_inv (c\<lparr>rb_state := st\<rparr>)"
  using assms
  by (auto simp: same_head_def builder_inv_def start_ok_def headers_ok_def accepted_def
      GetHeaderVal_def)

lemma body_steps_head:
  "parse_chunk_size b = (st, c) \<Longrightarrow> same_head b c
     \<and> st \<in> {BS_BODY_CHUNK_CONTENT, BS_END, BS_BAD_REQUEST}
     \<and> (st = BS_BAD_REQUEST \<longrightarrow> rq_status (rb_rq c) \<noteq> HTTP_OK)"
  "BuildBodyRegular b = (st, c) \<Longrightarrow> same_head b c \<and> st \<in> {BS_BODY_REGULAR, BS_END}"
  "BuildBodyChunkContent b = (st, c) \<Longrightarrow> same_head b c
     \<and> st \<in> {BS_BODY_CHUNK_CONTENT, BS_BODY_CHUNK_SIZE, BS_BAD_REQUEST}
     \<and> (st = BS_BAD_REQUEST \<longrightarrow> rq_status (rb_rq c) \<noteq> HTTP_OK)"
  by (auto simp: parse_chunk_size_def BuildBodyRegular_def BuildBodyChunkContent_eq move_chunk_eq
      end_chunk_def move_body_eq finish_body_def same_head_def Let_def split: option.splits if_splits)

lemma BuildStep_inv:
  assumes "builder_inv b" "BuildStep e b = Inr c"
  shows "builder_inv c"
proof (cases "rb_state b")
  case BS_RQ_LINE
  with assms obtain s' b1 where l: "line_step BS_RQ_LINE parse_first_line b = Inr (s', b1)"
    and c: "c = b1\<lparr>rb_state := s'\<rparr>"
    by (cases "line_step BS_RQ_LINE parse_first_line b")
      (auto simp: BuildStep_lines set_build_state_def)
  note inv = assms(1) [unfolded builder_inv_cases(2) [OF BS_RQ_LINE]]
  show ?thesis unfolding c
  proof (rule line_step_inv [OF l BS_RQ_LINE assms(1)])
    fix b2 assume x: "TryToExtractLine b = (EXTRACTION_SUCCESS, b2)"
      and "parse_first_line b2 = Inr (s', b1)"
    with inv TryToExtractLine_keeps [OF x] TryToExtractLine_length [OF x]
    show "builder_inv (b1\<lparr>rb_state := s'\<rparr>)" by (intro parse_first_line_inv [of b2]) simp_all
  qed
next
  case BS_HEADER_FIELDS
  with assms obtain s' b1 where
    l: "line_step BS_HEADER_FIELDS (\<lambda>b. Inr (parse_header_line b)) b = Inr (s', b1)"
    and c: "c = b1\<lparr>rb_state := s'\<rparr>"
    by (cases "line_step BS_HEADER_FIELDS (\<lambda>b. Inr (parse_header_line b)) b")
      (auto simp: BuildStep_lines set_build_state_def)
  have inv: "start_ok (rb_rq b)" "\<not> rb_has_body b"
    "headers_ok (rb_header_count b) (rb_section_size b) (rb_rq b)"
    using assms(1) BS_HEADER_FIELDS by (simp_all add: builder_inv_cases(3))
  show ?thesis unfolding c
  proof (rule line_step_inv [OF l BS_HEADER_FIELDS assms(1)])
    fix b2 assume x: "TryToExtractLine b = (EXTRACTION_SUCCESS, b2)"
      and "Inr (parse_header_line b2) = (Inr (s', b1) :: (build_state \<times> request_builder) outcome)"
    with inv TryToExtractLine_keeps [OF x]
    show "builder_inv (b1\<lparr>rb_state := s'\<rparr>)" by (intro parse_header_line_inv [of b2]) simp_all
  qed
next
  case BS_BODY_CHUNK_SIZE
  with assms obtain s' b1 where
    l: "line_step BS_BODY_CHUNK_SIZE (\<lambda>b. Inr (parse_chunk_size b)) b = Inr (s', b1)"
    and c: "c = b1\<lparr>rb_state := s'\<rparr>"
    by (cases "line_step BS_BODY_CHUNK_SIZE (\<lambda>b. Inr (parse_chunk_size b)) b")
      (auto simp: BuildStep_lines set_build_state_def)
  show ?thesis unfolding c
  proof (rule line_step_inv [OF l BS_BODY_CHUNK_SIZE assms(1)])
    fix b2 assume "TryToExtractLine b = (EXTRACTION_SUCCESS, b2)"
      and "Inr (parse_chunk_size b2) = (Inr (s', b1) :: (build_state \<times> request_builder) outcome)"
    then have "same_head b b2" "same_head b2 b1" "s' \<in> {BS_BODY_CHUNK_CONTENT, BS_END, BS_BAD_REQUEST}"
      "s' = BS_BAD_REQUEST \<Longrightarrow> rq_status (rb_rq b1) \<noteq> HTTP_OK"
      using TryToExtractLine_keeps body_steps_head(1) [of b2 s' b1] by (auto simp: same_head_def)
    then show "builder_inv (b1\<lparr>rb_state := s'\<rparr>)"
      using assms(1) BS_BODY_CHUNK_SIZE
      by (intro same_head_inv [of b]) (auto simp: same_head_def)
  qed
next
  case BS_AFTER_HEADERS
  with assms obtain s' b1 where "ProcessHeaders e b = Inr (s', b1)" "c = b1\<lparr>rb_state := s'\<rparr>"
    by (cases "ProcessHeaders e b") (auto simp: BuildStep_def set_build_state_def)
  moreover have "start_ok (rb_rq b)" "\<not> rb_has_body b"
    "headers_ok (rb_header_count b) (rb_section_size b) (rb_rq b)"
    using assms(1) BS_AFTER_HEADERS by (simp_all add: builder_inv_cases(3))
  ultimately show ?thesis using ProcessHeaders_inv by simp
next
  case BS_BODY_REGULAR
  obtain st b1 where r: "BuildBodyRegular b = (st, b1)" by fastforce
  with assms(2) BS_BODY_REGULAR have "c = b1\<lparr>rb_state := st\<rparr>" by (simp add: BuildStep_def)
  moreover have "builder_inv (b1\<lparr>rb_state := st\<rparr>)"
    using body_steps_head(2) [OF r] assms(1) BS_BODY_REGULAR
    by (intro same_head_inv [of b]) auto
  ultimately show ?thesis by simp
next
  case BS_BODY_CHUNK_CONTENT
  obtain st b1 where r: "BuildBodyChunkContent b = (st, b1)" by fastforce
  with assms(2) BS_BODY_CHUNK_CONTENT have "c = b1\<lparr>rb_state := st\<rparr>" by (simp add: BuildStep_def)
  moreover have "builder_inv (b1\<lparr>rb_state := st\<rparr>)"
    using body_steps_head(3) [OF r] assms(1) BS_BODY_CHUNK_CONTENT
    by (intro same_head_inv [of b]) auto
  ultimately show ?thesis by simp
qed (use assms in \<open>simp_all add: BuildStep_def\<close>)

section \<open>What is let through\<close>

definition outcome_inv :: "request_builder outcome \<Rightarrow> bool" where
  "outcome_inv s \<longleftrightarrow> (\<forall>b. s = Inr b \<longrightarrow> builder_inv b)"

lemma loop_body_inv: "outcome_inv s \<Longrightarrow> loop_cond s \<Longrightarrow> outcome_inv (loop_body e s)"
  by (cases s)
    (auto simp: outcome_inv_def loop_cond_def loop_body_def CanBuild_eq(2) intro: BuildStep_inv)

lemma loop_builder_inv:
  assumes "run e b = Some (Inr c)" "builder_inv b"
  shows "builder_inv c"
  using while_option_rule [where P = outcome_inv, OF loop_body_inv assms(1)] assms(2)
  by (simp add: outcome_inv_def)

text \<open>What is visible from outside: a finished builder whose request has no error status.\<close>

definition between_reads :: "request_builder \<Rightarrow> bool" where
  "between_reads b \<longleftrightarrow> builder_inv b
     \<and> (rb_status b = RB_DONE \<longrightarrow> rb_state b = BS_END \<or> rq_status (rb_rq b) \<noteq> HTTP_OK)"

lemma builder_inv_same:
  "rb_state c = rb_state b \<Longrightarrow> same_head b c
    \<Longrightarrow> (rb_state c = BS_BAD_REQUEST \<longrightarrow> rq_status (rb_rq c) \<noteq> HTTP_OK)
    \<Longrightarrow> builder_inv b \<Longrightarrow> builder_inv c"
  by (cases "rb_state b")
    (auto simp: builder_inv_def same_head_def start_ok_def headers_ok_def accepted_def
      GetHeaderVal_def)

lemma between_reads_Build:
  assumes "between_reads b" "Build e b d = Some (Inr c)"
  shows "between_reads c"
proof (cases "EndOfBuffer (rb_parser b) \<and> d = []")
  case True
  with assms(2) have c: "c = b\<lparr>rb_rq := (rb_rq b)\<lparr>rq_status := HTTP_BAD_REQUEST\<rparr>, rb_status := RB_DONE\<rparr>"
    by (simp add: Build_def)
  then have "builder_inv c"
    using assms(1) by (intro builder_inv_same [of c b]) (simp_all add: same_head_def between_reads_def)
  then show ?thesis by (simp add: between_reads_def c)
next
  case False
  with assms(2) obtain t where t: "run e (feed_builder b d) = Some t"
    "map_outcome after_loop t = Inr c"
    by (auto simp: Build_def)
  then obtain x where x: "t = Inr x" "c = after_loop x" by (cases t) auto
  have stop: "\<not> fst (CanBuild x)" using while_option_stop [OF t(1)] x(1) by (simp add: loop_cond_def)
  have "builder_inv (feed_builder b d)"
    using assms(1)
    by (intro builder_inv_same [of "feed_builder b d" b])
      (auto simp: same_head_def between_reads_def builder_inv_cases(1))
  with t(1) x have "builder_inv x" using loop_builder_inv by blast
  then have c: "builder_inv c"
    using x(2) by (intro builder_inv_same [of c x]) (auto simp: same_head_def builder_inv_cases(1))
  moreover have "rb_status c = RB_DONE \<Longrightarrow> final_state (rb_state c)"
    using stop x(2) by (auto simp: after_loop_status set_status_def split: if_splits)
  ultimately show ?thesis by (auto simp: between_reads_def builder_inv_cases(1))
qed

lemma between_reads_all:
  "between_reads b \<Longrightarrow> Build_all e b ds = Some (Inr c) \<Longrightarrow> between_reads c"
proof (induction ds arbitrary: b)
  case (Cons d ds)
  then obtain b1 where "Build e b d = Some (Inr b1)" "Build_all e b1 ds = Some (Inr c)"
    by (auto split: option.splits sum.splits)
  with Cons show ?case using between_reads_Build by blast
qed simp

lemma between_reads_init: "between_reads builder_init"
  by (simp add: between_reads_def builder_inv_def builder_init_def Request_init_def)

text \<open>The headers a request keeps are syntactically valid, in lower case, few and small.\<close>

lemma ValidateHeadersSyntax_iff:
  "ValidateHeadersSyntax m = HTTP_OK \<longleftrightarrow>
    (\<forall>(k, v)\<in>set m. IsValidHeaderKeyName k \<and> IsValidHeaderValueName v)"
  by (induction m rule: ValidateHeadersSyntax.induct) auto

text \<open>\<open>InterpretHeaders\<close> asks for a \<open>Host\<close> field without a look at the version.\<close>

lemma host_wanted_of_all_versions:
  "GetHeaderVal (rb_rq b) ''host'' = None \<Longrightarrow> fst (InterpretHeaders b) = HTTP_BAD_REQUEST"
  by (simp add: InterpretHeaders_def Let_def)

text \<open>C1: whatever bytes a client sends, in whatever pieces, a request that the builder hands on
  without an error status has a method of the three supported ones and version 1.0 or 1.1; its target
  is what parsing, validating and normalising some bytes of at most the limit gave, and has a path that
  is absolute and free of dot segments after decoding, no user info, no fragment and no scheme but
  \<open>http\<close>; it has a \<open>Host\<close> field if it is of version 1.1, not both framing fields, at most 100 header
  fields of at most 32768 bytes whose names and values follow the grammar, and a body exactly
  when it is a \<open>POST\<close>.\<close>

theorem accepted_request_is_sound:
  assumes "Build_all e builder_init ds = Some (Inr b)"
    and "rb_status b = RB_DONE" and "rq_status (rb_rq b) = HTTP_OK"
  shows "rq_method (rb_rq b) \<noteq> HTTP_NO_METHOD \<and> rq_version (rb_rq b) \<in> {HTTP_1_0, HTTP_1_1} \<and>
    (\<exists>raw. length raw \<le> RQ_TARGET_LEN_LIMIT \<and> RqTarget_of_raw raw = Inr (rq_target (rb_rq b))) \<and>
    Good (rq_target (rb_rq b)) \<and> maybe_ok (rt_path (rq_target (rb_rq b))) \<and>
    dot_free (get_component (rt_path (rq_target (rb_rq b)))) \<and>
    \<not> maybe_ok (rt_user_info (rq_target (rb_rq b))) \<and> \<not> maybe_ok (rt_fragment (rq_target (rb_rq b))) \<and>
    (maybe_ok (rt_scheme (rq_target (rb_rq b))) \<longrightarrow> get_component (rt_scheme (rq_target (rb_rq b))) = ''http'') \<and>
    (rq_version (rb_rq b) = HTTP_1_1 \<longrightarrow> GetHeaderVal (rb_rq b) ''host'' \<noteq> None) \<and>
    (GetHeaderVal (rb_rq b) ''content-length'' = None
      \<or> GetHeaderVal (rb_rq b) ''transfer-encoding'' = None) \<and>
    length (rq_headers (rb_rq b)) \<le> 100 \<and> header_bytes (rq_headers (rb_rq b)) \<le> 32768 \<and>
    (\<forall>(k, v)\<in>set (rq_headers (rb_rq b)). ToLowerCase k = k \<and> IsValidHeaderKeyName k
       \<and> IsValidHeaderValueName v) \<and>
    (rb_has_body b \<longleftrightarrow> rq_method (rb_rq b) = HTTP_POST)"
proof -
  have "between_reads b" using between_reads_all [OF between_reads_init assms(1)] .
  with assms(2,3) have "rb_state b = BS_END" "builder_inv b" by (auto simp: between_reads_def)
  then have start: "start_ok (rb_rq b)" and rest: "headers_ok (rb_header_count b) (rb_section_size b) (rb_rq b)"
    "accepted (rb_rq b)" "rb_has_body b \<longleftrightarrow> rq_method (rb_rq b) = HTTP_POST"
    by (simp_all add: builder_inv_cases)
  from start obtain raw where raw: "RqTarget_of_raw raw = Inr (rq_target (rb_rq b))" "Good (rq_target (rb_rq b))"
    by (auto simp: start_ok_def)
  note target = Good_raw_safe [OF raw]
  from start rest show ?thesis
    using raw target
    by (auto simp: start_ok_def headers_ok_def accepted_def ValidateHeadersSyntax_iff
        RQ_MAX_HEADER_COUNT_def RQ_HEADER_SECTION_LIMIT_def)
qed

lemma map_Build_result:
  "map_option (map_outcome f) x = Some (Inr y) \<Longrightarrow> \<exists>b. x = Some (Inr b) \<and> f b = y"
  by (cases x; cases "the x") (auto simp: map_outcome_def)

theorem accepted_request_is_sound_witness:
  "\<exists>b. Build_all example_env builder_init
      [''GET / HTTP/1.1'' @ [CR, LF], ''Host: a'' @ [CR, LF, CR, LF]] = Some (Inr b)
    \<and> dot_free (get_component (rt_path (rq_target (rb_rq b))))"
proof -
  let ?ds = "[''GET / HTTP/1.1'' @ [CR, LF], ''Host: a'' @ [CR, LF, CR, LF]]"
  have "map_option (map_outcome (\<lambda>b. (rb_status b, rq_status (rb_rq b))))
      (Build_all example_env builder_init ?ds) = Some (Inr (RB_DONE, HTTP_OK))"
    by (simp add: eval_simps str_simps run_simps)
  from map_Build_result [OF this] obtain b where
    "Build_all example_env builder_init ?ds = Some (Inr b)"
    "rb_status b = RB_DONE" "rq_status (rb_rq b) = HTTP_OK" by auto
  with accepted_request_is_sound [OF this] show ?thesis by blast
qed
end
