(* ===== verification/BuilderLines.thy ===== *)
theory BuilderLines
  imports BuilderSafety
begin

text \<open>
  The grammar of a request as the builder reads it: the request line, the header lines, that a request
  without a body that is written out as text is read back as it was, and that one with a body of length
  zero is not completed.
\<close>

section \<open>Splitting a line\<close>

lemma find_idx_sep: "c \<notin> set s \<Longrightarrow> find_idx (\<lambda>x. x = c) (s @ c # t) = Some (length s)"
  using find_idx_append_hit [of s "\<lambda>x. x = c" c t] by auto

lemma find_idx_no_sep: "c \<notin> set s \<Longrightarrow> find_idx (\<lambda>x. x = c) s = None"
  by (auto simp: find_idx_None_iff)

lemma getline_sep:
  "c \<notin> set s \<Longrightarrow> getline \<lparr>ss_rest = s @ c # t, ss_eof = False, ss_fail = False\<rparr> c d
    = (\<lparr>ss_rest = t, ss_eof = False, ss_fail = False\<rparr>, s)"
  by (simp add: getline_def ss_good_def find_idx_sep)

lemma getline_rest:
  "c \<notin> set s \<Longrightarrow> getline \<lparr>ss_rest = s, ss_eof = False, ss_fail = False\<rparr> c d
    = (\<lparr>ss_rest = [], ss_eof = True, ss_fail = (s = [])\<rparr>, s)"
  by (simp add: getline_def ss_good_def find_idx_no_sep)

lemma split_request_line_fields:
  assumes "SP \<notin> set m" "SP \<notin> set t" "LF \<notin> set v" "v \<noteq> []"
  shows "split_request_line (m @ SP # t @ SP # v) = Some (m, t, v)"
  using assms by (simp add: split_request_line_def ss_of_def getline_sep getline_rest)

lemma split_header_line_fields:
  assumes "CHR '':'' \<notin> set k" "set ws \<subseteq> {SP, HT}" "v \<noteq> []" "hd v \<notin> {SP, HT}" "CR \<notin> set v"
  shows "split_header_line (k @ CHR '':'' # ws @ v) = Some (k, v)"
proof -
  have "dropWhile (\<lambda>c. c = SP \<or> c = HT) (ws @ v) = v"
    using assms(2-4) by (cases v) (auto simp: dropWhile_append)
  with assms show ?thesis
    by (simp add: split_header_line_def ss_of_def getline_sep getline_rest EatSpacesAndHTabs_def
        ss_good_def eat_spaces_and_htabs_eq Let_def)
qed

section \<open>The request line\<close>

text \<open>What the request line of a request stands for: the status it is answered with.\<close>

definition request_line_status :: "string \<Rightarrow> rq_target \<Rightarrow> string \<Rightarrow> response_code" where
  "request_line_status m u v =
     (if m = [] \<or> \<not> list_all IsTokenChar m then HTTP_BAD_REQUEST
      else if m \<notin> {''GET'', ''POST'', ''DELETE''} then HTTP_NOT_IMPLEMENTED
      else if validity_state u AND RQ_TARGET_TOO_LONG \<noteq> 0 then HTTP_URI_TOO_LONG
      else if \<not> Good u \<or> v \<notin> {''HTTP/1.0'', ''HTTP/1.1''} then HTTP_BAD_REQUEST
      else HTTP_OK)"

lemma set_request_line_spec:
  assumes "RqTarget_of_raw t = Inr u"
  shows "\<exists>st c. set_request_line (m, t, v) b = Inr (st, c) \<and>
    (let rc = request_line_status m u v in
       if rc = HTTP_OK
       then st = BS_HEADER_FIELDS \<and> (\<exists>mt vs. c = b\<lparr>rb_rq := (rb_rq b)
              \<lparr>rq_method := mt, rq_target := u, rq_version := vs\<rparr>\<rparr>
              \<and> HttpMethodToStr mt = m \<and> HttpVerToStr vs = v \<and> mt \<noteq> HTTP_NO_METHOD)
       else st = BS_BAD_REQUEST \<and> rq_status (rb_rq c) = rc)"
proof -
  have tok: "IsValidMethodName m \<longleftrightarrow> m \<noteq> [] \<and> list_all IsTokenChar m"
    by (simp add: IsValidMethodName_def IsValidTokenName_iff)
  have meth: "m \<in> {''GET'', ''POST'', ''DELETE''} \<longleftrightarrow> HttpMethodFromStr m \<noteq> None"
    by (simp add: HttpMethodFromStr_def)
  show ?thesis
  proof (cases "\<exists>mt. IsValidMethodName m \<and> HttpMethodFromStr m = Some mt")
    case False
    then have "request_line_status m u v
        = (if IsValidMethodName m then HTTP_NOT_IMPLEMENTED else HTTP_BAD_REQUEST)"
      using tok meth by (auto simp: request_line_status_def)
    with False show ?thesis
      by (auto simp: set_request_line_def TrySetMethod_def Let_def split: option.splits)
  next
    case True
    then obtain mt where mt: "IsValidMethodName m" "HttpMethodFromStr m = Some mt" by blast
    then have mt': "HttpMethodToStr mt = m" "mt \<noteq> HTTP_NO_METHOD"
      by (simp_all add: HttpMethodFromStr_iff)
    have st: "request_line_status m u v =
        (if validity_state u AND RQ_TARGET_TOO_LONG \<noteq> 0 then HTTP_URI_TOO_LONG
         else if \<not> Good u \<or> v \<notin> {''HTTP/1.0'', ''HTTP/1.1''} then HTTP_BAD_REQUEST else HTTP_OK)"
      using mt tok meth by (simp add: request_line_status_def)
    show ?thesis
    proof (cases "validity_state u AND RQ_TARGET_TOO_LONG \<noteq> 0 \<or> \<not> Good u")
      case True
      with mt assms show ?thesis
        by (auto simp: st set_request_line_def TrySetMethod_def TrySetRqTarget_def Let_def)
    next
      case good: False
      show ?thesis
      proof (cases "v \<in> {''HTTP/1.0'', ''HTTP/1.1''}")
        case True
        then obtain vs where "IsValidVersionName v" "HttpVersionFromStr v = Some vs" "HttpVerToStr vs = v"
          by (auto simp: IsValidVersionName_def HttpVersionFromStr_def)
        with good mt mt' assms True show ?thesis
          by (auto simp: st set_request_line_def TrySetMethod_def TrySetRqTarget_def
              TrySetVersion_def Let_def)
      next
        case False
        with good mt assms show ?thesis
          by (auto simp: st set_request_line_def TrySetMethod_def TrySetRqTarget_def
              TrySetVersion_def IsValidVersionName_def Let_def)
      qed
    qed
  qed
qed

text \<open>C17: a request line of three fields is accepted, with the method, target and version that
  were written, or refused with the status the specification \<open>request_line_status\<close> gives.\<close>

theorem parse_first_line_spec:
  assumes "SP \<notin> set m" "SP \<notin> set t" "LF \<notin> set v" "v \<noteq> []"
    and "rb_extraction b = m @ SP # t @ SP # v" and "RqTarget_of_raw t = Inr u"
  shows "\<exists>st c. parse_first_line b = Inr (st, c) \<and>
    (if request_line_status m u v = HTTP_OK
     then st = BS_HEADER_FIELDS \<and> HttpMethodToStr (rq_method (rb_rq c)) = m \<and>
          rq_target (rb_rq c) = u \<and> HttpVerToStr (rq_version (rb_rq c)) = v
     else st = BS_BAD_REQUEST \<and> rq_status (rb_rq c) = request_line_status m u v)"
proof -
  let ?b = "b\<lparr>rb_section_size := rb_section_size b + length (rb_extraction b)\<rparr>"
  have "parse_first_line b = set_request_line (m, t, v) ?b"
    using assms(5) split_request_line_fields [OF assms(1-4)] by (simp add: parse_first_line_def Let_def)
  with set_request_line_spec [OF assms(6), of m v ?b] show ?thesis
    by (auto simp: Let_def split: if_splits)
qed

theorem parse_first_line_spec_witness:
  "\<exists>u st c. RqTarget_of_raw ''/'' = Inr u \<and>
    parse_first_line (builder_init\<lparr>rb_extraction := ''PUT / HTTP/1.1''\<rparr>) = Inr (st, c) \<and>
    rq_status (rb_rq c) = HTTP_NOT_IMPLEMENTED"
proof -
  obtain u where u: "RqTarget_of_raw ''/'' = Inr u" using RqTarget_of_raw_ok by blast
  have "request_line_status ''PUT'' u ''HTTP/1.1'' = HTTP_NOT_IMPLEMENTED"
    by (simp add: request_line_status_def eval_simps)
  with parse_first_line_spec [of "''PUT''" "''/''" "''HTTP/1.1''"
      "builder_init\<lparr>rb_extraction := ''PUT / HTTP/1.1''\<rparr>", OF _ _ _ _ _ u] u
  show ?thesis by (auto split: if_splits)
qed

section \<open>The header lines\<close>

text \<open>A header line adds its field under the lower case name, where a later field of the same
  name replaces an earlier one, unless the header section or the number of fields is over its
  limit, which is answered with 431.\<close>

lemma parse_header_line_spec:
  assumes "rb_extraction b = k @ CHR '':'' # ws @ v" "CHR '':'' \<notin> set k" "set ws \<subseteq> {SP, HT}"
    "v \<noteq> []" "hd v \<notin> {SP, HT}" "CR \<notin> set v"
  shows "\<exists>c. parse_header_line b =
      (if rb_section_size b + length (rb_extraction b) \<le> RQ_HEADER_SECTION_LIMIT
          \<and> rb_header_count b < RQ_MAX_HEADER_COUNT
       then BS_HEADER_FIELDS else BS_BAD_REQUEST, c) \<and>
    (if rb_section_size b + length (rb_extraction b) \<le> RQ_HEADER_SECTION_LIMIT
        \<and> rb_header_count b < RQ_MAX_HEADER_COUNT
     then (\<forall>name. GetHeaderVal (rb_rq c) name
             = (if ToLowerCase name = ToLowerCase k then Some v else GetHeaderVal (rb_rq b) name))
     else rq_status (rb_rq c) = HTTP_REQUEST_HEADER_FIELDS_TOO_LARGE)"
  using assms(1) split_header_line_fields [OF assms(2-6)]
  by (auto simp: parse_header_line_def Let_def InsertHeaderField_def GetHeaderVal_def
      map_find_assign not_le)

lemma parse_header_line_spec_example:
  "\<exists>c. parse_header_line (builder_init\<lparr>rb_extraction := ''Host:  a b''\<rparr>) = (BS_HEADER_FIELDS, c)
     \<and> GetHeaderVal (rb_rq c) ''hOST'' = Some ''a b''"
proof -
  let ?b = "builder_init\<lparr>rb_extraction := ''Host:  a b''\<rparr>"
  have low: "ToLowerCase ''hOST'' = ToLowerCase ''Host''" by (simp add: eval_simps str_simps)
  have ok: "rb_section_size ?b + length (rb_extraction ?b) \<le> RQ_HEADER_SECTION_LIMIT
      \<and> rb_header_count ?b < RQ_MAX_HEADER_COUNT"
    by (simp add: builder_init_def RQ_HEADER_SECTION_LIMIT_def RQ_MAX_HEADER_COUNT_def)
  have "\<exists>c. parse_header_line ?b = (BS_HEADER_FIELDS, c) \<and> (\<forall>name. GetHeaderVal (rb_rq c) name
      = (if ToLowerCase name = ToLowerCase ''Host'' then Some ''a b'' else GetHeaderVal (rb_rq ?b) name))"
    using parse_header_line_spec [of ?b "''Host''" "''  ''" "''a b''"]
    unfolding if_P [OF ok] by simp
  with low show ?thesis by auto
qed

section \<open>A whole request\<close>

text \<open>A request without a body as text, and the header fields a client may write.\<close>

definition render_field :: "string \<times> string \<Rightarrow> string" where
  [eval_simps]: "render_field = (\<lambda>(k, v). k @ '': '' @ v @ [CR, LF])"

definition render_request ::
  "string \<Rightarrow> string \<Rightarrow> string \<Rightarrow> (string \<times> string) list \<Rightarrow> string" where
  [eval_simps]: "render_request m t v hs =
     m @ [SP] @ t @ [SP] @ v @ [CR, LF] @ concat (map render_field hs) @ [CR, LF]"

definition field_ok :: "string \<times> string \<Rightarrow> bool" where
  [eval_simps]: "field_ok = (\<lambda>(k, v). IsValidHeaderKeyName k \<and> v \<noteq> [] \<and> IsValidHeaderValueName v
     \<and> length k + length v + 4 \<le> RQ_LINE_LEN_LIMIT)"

text \<open>The headers after the fields, in the order of the lines, have been read.\<close>

definition read_fields :: "(string \<times> string) list \<Rightarrow> (string, string) std_map \<Rightarrow> (string, string) std_map" where
  "read_fields hs m = fold (\<lambda>(k, v). map_assign k v) (map (\<lambda>(k, v). (ToLowerCase k, v)) hs) m"

lemma read_fields_simps [simp]:
  "read_fields [] m = m"
  "read_fields ((k, v) # hs) m = read_fields hs (map_assign (ToLowerCase k) v m)"
  by (simp_all add: read_fields_def)

lemma field_ok_chars:
  assumes "field_ok (k, v)"
  shows "CHR '':'' \<notin> set k" "hd v \<notin> {SP, HT}" "v \<noteq> []" "CR \<notin> set v"
    "CR \<notin> set (k @ '': '' @ v)" "NUL \<notin> set (k @ '': '' @ v)"
proof -
  have k: "list_all IsTokenChar k"
    using assms by (simp add: field_ok_def IsValidHeaderKeyName_def IsValidTokenName_iff)
  have v: "list_all (\<lambda>c. IsWhiteSpace c \<or> IsFieldVChar c) v" "v \<noteq> []" "IsFieldVChar (hd v)"
    using assms by (auto simp: field_ok_def IsValidHeaderValueName_def header_value_chars_eq
        split: if_splits)
  have ws: "\<not> IsFieldVChar SP" "\<not> IsFieldVChar HT"
    by (simp_all add: IsFieldVChar_def IsVChar_def IsObsText_def ctype_defs code_def)
  show "CHR '':'' \<notin> set k" using k control_not_token by (auto simp: list_all_iff)
  show "hd v \<notin> {SP, HT}" using v(3) ws by auto
  show "v \<noteq> []" by (rule v(2))
  show "CR \<notin> set v" using v(1) control_not_field by (auto simp: list_all_iff)
  then show "CR \<notin> set (k @ '': '' @ v)" using k control_not_token by (auto simp: list_all_iff)
  show "NUL \<notin> set (k @ '': '' @ v)"
    using k v(1) control_not_token control_not_field by (auto simp: list_all_iff)
qed

lemma header_field_turn:
  assumes "rb_state b = BS_HEADER_FIELDS" "field_ok (k, v)"
    "rb_parser b = \<lparr>rp_buf = render_field (k, v) @ rest, rp_idx = 0\<rparr>"
    "rb_section_size b + (length k + length v + 2) \<le> RQ_HEADER_SECTION_LIMIT"
    "rb_header_count b < RQ_MAX_HEADER_COUNT"
  shows "\<exists>x. run e b = run e (b\<lparr>rb_extraction := x, rb_parser := \<lparr>rp_buf = rest, rp_idx = 0\<rparr>,
      rb_section_size := rb_section_size b + (length k + length v + 2),
      rb_header_count := rb_header_count b + 1,
      rb_rq := (rb_rq b)\<lparr>rq_headers := map_assign (ToLowerCase k) v (rq_headers (rb_rq b))\<rparr>,
      rb_state := BS_HEADER_FIELDS\<rparr>)"
proof -
  let ?l = "k @ '': '' @ v"
  note chars = field_ok_chars [OF assms(2)]
  have "length ?l + 2 \<le> RQ_LINE_LEN_LIMIT" using assms(2) by (simp add: field_ok_def)
  moreover have "rb_parser b = \<lparr>rp_buf = ?l @ [CR, LF] @ rest, rp_idx = 0\<rparr>"
    using assms(3) by (simp add: render_field_def)
  ultimately have line: "TryToExtractLine b = (EXTRACTION_SUCCESS,
      b\<lparr>rb_extraction := ?l, rb_parser := \<lparr>rp_buf = rest, rp_idx = 0\<rparr>\<rparr>)"
    using chars(5,6) by (intro TryToExtractLine_clean)
  have "split_header_line ?l = Some (k, v)"
    using split_header_line_fields [OF chars(1) _ chars(3,2,4), of "[SP]"] by simp
  then have "BuildHeaderField b = (BS_HEADER_FIELDS,
      b\<lparr>rb_extraction := ?l, rb_parser := \<lparr>rp_buf = rest, rp_idx = 0\<rparr>,
      rb_section_size := rb_section_size b + (length k + length v + 2),
      rb_header_count := rb_header_count b + 1,
      rb_rq := (rb_rq b)\<lparr>rq_headers := map_assign (ToLowerCase k) v (rq_headers (rb_rq b))\<rparr>\<rparr>)"
    using assms(4,5)
    by (simp add: BuildHeaderField_def line parse_header_line_def Let_def InsertHeaderField_def)
  moreover have "fst (CanBuild b)"
    using assms(1,3) by (simp add: CanBuild_eq EndOfBuffer_def render_field_def)
  ultimately have "run e b = run e (set_build_state (BS_HEADER_FIELDS,
      b\<lparr>rb_extraction := ?l, rb_parser := \<lparr>rp_buf = rest, rp_idx = 0\<rparr>,
      rb_section_size := rb_section_size b + (length k + length v + 2),
      rb_header_count := rb_header_count b + 1,
      rb_rq := (rb_rq b)\<lparr>rq_headers := map_assign (ToLowerCase k) v (rq_headers (rb_rq b))\<rparr>\<rparr>))"
    using run_turn [of b e] assms(1) by (simp add: BuildStep_def)
  then show ?thesis by (intro exI [of _ ?l]) (simp add: set_build_state_def)
qed
lemma header_fields_run:
  assumes "rb_state b = BS_HEADER_FIELDS" "list_all field_ok hs"
    "rb_parser b = \<lparr>rp_buf = concat (map render_field hs) @ rest, rp_idx = 0\<rparr>"
    "rb_section_size b + length (concat (map render_field hs)) \<le> RQ_HEADER_SECTION_LIMIT"
    "rb_header_count b + length hs \<le> RQ_MAX_HEADER_COUNT"
  shows "\<exists>c. run e b = run e c \<and> rb_state c = BS_HEADER_FIELDS
    \<and> rb_parser c = \<lparr>rp_buf = rest, rp_idx = 0\<rparr> \<and> rb_has_body c = rb_has_body b \<and> rb_body c = rb_body b
    \<and> rb_section_size c \<le> RQ_HEADER_SECTION_LIMIT
    \<and> rb_rq c = (rb_rq b)\<lparr>rq_headers := read_fields hs (rq_headers (rb_rq b))\<rparr>"
  using assms
proof (induction hs arbitrary: b)
  case Nil
  then show ?case by (intro exI [of _ b]) simp
next
  case (Cons kv hs)
  obtain k v where kv: "kv = (k, v)" by fastforce
  let ?tail = "concat (map render_field hs) @ rest"
  have "length (render_field (k, v)) = length k + length v + 4" by (simp add: render_field_def)
  with Cons.prems kv obtain x where r: "run e b = run e (b\<lparr>rb_extraction := x,
      rb_parser := \<lparr>rp_buf = ?tail, rp_idx = 0\<rparr>,
      rb_section_size := rb_section_size b + (length k + length v + 2),
      rb_header_count := rb_header_count b + 1,
      rb_rq := (rb_rq b)\<lparr>rq_headers := map_assign (ToLowerCase k) v (rq_headers (rb_rq b))\<rparr>,
      rb_state := BS_HEADER_FIELDS\<rparr>)" (is "_ = run e ?b")
    using header_field_turn [of b k v ?tail e] by (auto simp: RQ_HEADER_SECTION_LIMIT_def)
  have "\<exists>c. run e ?b = run e c \<and> rb_state c = BS_HEADER_FIELDS
    \<and> rb_parser c = \<lparr>rp_buf = rest, rp_idx = 0\<rparr> \<and> rb_has_body c = rb_has_body ?b \<and> rb_body c = rb_body ?b
    \<and> rb_section_size c \<le> RQ_HEADER_SECTION_LIMIT
    \<and> rb_rq c = (rb_rq ?b)\<lparr>rq_headers := read_fields hs (rq_headers (rb_rq ?b))\<rparr>"
    using Cons.prems kv by (intro Cons.IH) (auto simp: render_field_def)
  with r kv show ?case by auto
qed

text \<open>The end of the headers and what follows it for a request without a body.\<close>

lemma end_of_headers_turn:
  assumes "rb_state b = BS_HEADER_FIELDS" "rb_section_size b \<le> RQ_HEADER_SECTION_LIMIT"
    "rb_parser b = \<lparr>rp_buf = [CR, LF] @ rest, rp_idx = 0\<rparr>"
  shows "run e b = run e (b\<lparr>rb_extraction := [], rb_parser := \<lparr>rp_buf = rest, rp_idx = 0\<rparr>,
    rb_state := BS_AFTER_HEADERS\<rparr>)"
proof -
  have line: "TryToExtractLine b = (EXTRACTION_SUCCESS,
      b\<lparr>rb_extraction := [], rb_parser := \<lparr>rp_buf = rest, rp_idx = 0\<rparr>\<rparr>)"
    using assms(3) by (intro TryToExtractLine_clean) (simp_all add: RQ_LINE_LEN_LIMIT_def)
  have "BuildHeaderField b = (BS_AFTER_HEADERS,
      b\<lparr>rb_extraction := [], rb_parser := \<lparr>rp_buf = rest, rp_idx = 0\<rparr>\<rparr>)"
    using assms(2) by (simp add: BuildHeaderField_def line parse_header_line_def Let_def)
  moreover have "fst (CanBuild b)" using assms(1,3) by (simp add: CanBuild_eq EndOfBuffer_def)
  ultimately show ?thesis using run_turn [of b e] assms(1) by (simp add: BuildStep_def)
qed

lemma after_headers_turn:
  assumes "rb_state b = BS_AFTER_HEADERS" "\<not> rb_has_body b"
    "rq_method (rb_rq b) \<noteq> HTTP_POST" "ValidateHeadersSyntax (rq_headers (rb_rq b)) = HTTP_OK"
    "GetHeaderVal (rb_rq b) ''host'' \<noteq> None" "GetHeaderVal (rb_rq b) ''content-length'' = None"
    "GetHeaderVal (rb_rq b) ''transfer-encoding'' = None"
    "hv_status (headers_ready_cb e (rb_rq b)) = HTTP_OK"
  shows "run e b = Some (Inr (b\<lparr>rb_state := BS_END\<rparr>))"
proof -
  have "InterpretHeaders b = (HTTP_OK, b)"
    using assms by (auto simp: InterpretHeaders_def Let_def note_chunked_def check_method_body_def)
  with assms have "BuildStep e b = Inr (b\<lparr>rb_state := BS_END\<rparr>)"
    by (simp add: BuildStep_def ProcessHeaders_def Let_def)
  with assms(1) run_turn [of b e] run_end [of "b\<lparr>rb_state := BS_END\<rparr>" e] show ?thesis
    by (simp add: CanBuild_eq)
qed

lemma tolower_token: "IsTokenChar c \<Longrightarrow> IsTokenChar (tolower c)"
  by (cases "isupper c")
    (auto simp: IsTokenChar_def isalnum_def islower_def isupper_def code_tolower tolower_id)

lemma read_fields_valid:
  "list_all field_ok hs \<Longrightarrow> ValidateHeadersSyntax m = HTTP_OK \<Longrightarrow>
    ValidateHeadersSyntax (read_fields hs m) = HTTP_OK"
proof (induction hs arbitrary: m)
  case (Cons kv hs)
  obtain k v where kv: "kv = (k, v)" by fastforce
  have "IsValidHeaderKeyName (ToLowerCase k)" "IsValidHeaderValueName v"
    using Cons.prems(1) kv tolower_token
    by (auto simp: field_ok_def IsValidHeaderKeyName_def IsValidTokenName_iff ToLowerCase_def
        list_all_iff)
  then have "ValidateHeadersSyntax (map_assign (ToLowerCase k) v m) = HTTP_OK"
    using Cons.prems(2) set_map_assign [of "ToLowerCase k" v m]
    by (fastforce simp: ValidateHeadersSyntax_iff)
  with Cons kv show ?case by simp
qed simp

lemma map_find_Nil: "map_find [] = Map.empty"
  by (simp add: map_find_def fun_eq_iff)

lemma read_fields_find:
  "map_sorted m \<Longrightarrow> map_find (read_fields hs m)
    = map_find m ++ map_of (rev (map (\<lambda>(k, v). (ToLowerCase k, v)) hs))"
  by (simp add: read_fields_def sorted_map.fold_assign_lookup)
lemma request_line_turn:
  assumes "rb_state b = BS_RQ_LINE"
    "rb_parser b = \<lparr>rp_buf = (m @ SP # t @ SP # v) @ [CR, LF] @ rest, rp_idx = 0\<rparr>"
    "set m \<inter> {SP, CR, NUL} = {}" "set t \<inter> {SP, CR, NUL} = {}" "set v \<inter> {SP, CR, LF, NUL} = {}"
    "v \<noteq> []" "length m + length t + length v + 4 \<le> RQ_LINE_LEN_LIMIT"
    "RqTarget_of_raw t = Inr u" "request_line_status m u v = HTTP_OK"
  shows "\<exists>x mt vs. run e b = run e (b\<lparr>rb_extraction := x,
      rb_parser := \<lparr>rp_buf = rest, rp_idx = 0\<rparr>,
      rb_section_size := rb_section_size b + (length m + length t + length v + 2),
      rb_rq := (rb_rq b)\<lparr>rq_method := mt, rq_target := u, rq_version := vs\<rparr>,
      rb_state := BS_HEADER_FIELDS\<rparr>)
    \<and> HttpMethodToStr mt = m \<and> HttpVerToStr vs = v"
proof -
  let ?l = "m @ SP # t @ SP # v"
  let ?b1 = "b\<lparr>rb_extraction := ?l, rb_parser := \<lparr>rp_buf = rest, rp_idx = 0\<rparr>\<rparr>"
  let ?b2 = "?b1\<lparr>rb_section_size := rb_section_size b + (length m + length t + length v + 2)\<rparr>"
  have line: "TryToExtractLine b = (EXTRACTION_SUCCESS, ?b1)"
    using assms(2-7) by (intro TryToExtractLine_clean) auto
  obtain mt vs where req: "set_request_line (m, t, v) ?b2 = Inr (BS_HEADER_FIELDS,
        ?b2\<lparr>rb_rq := (rb_rq ?b2)\<lparr>rq_method := mt, rq_target := u, rq_version := vs\<rparr>\<rparr>)"
      "HttpMethodToStr mt = m" "HttpVerToStr vs = v"
    using set_request_line_spec [OF assms(8), of m v ?b2] assms(9) by (auto simp: Let_def)
  have "split_request_line ?l = Some (m, t, v)"
    using split_request_line_fields [of m t v] assms(3-6) by auto
  then have "BuildFirstLine b = set_request_line (m, t, v) ?b2"
    by (simp add: BuildFirstLine_def line parse_first_line_def Let_def add.assoc)
  then have "BuildStep e b = map_outcome set_build_state (set_request_line (m, t, v) ?b2)"
    using assms(1) by (simp add: BuildStep_def)
  moreover have "fst (CanBuild b)" using assms(1,2) by (simp add: CanBuild_eq EndOfBuffer_def)
  ultimately have "run e b = run e (set_build_state (BS_HEADER_FIELDS,
      ?b2\<lparr>rb_rq := (rb_rq ?b2)\<lparr>rq_method := mt, rq_target := u, rq_version := vs\<rparr>\<rparr>))"
    using run_turn [of b e] req(1) by simp
  with req(2,3) show ?thesis by (intro exI [of _ ?l] exI [of _ mt] exI [of _ vs]) simp
qed

text \<open>The request that a text stands for, and that the builder makes exactly this one of the text.\<close>

definition rendered_request :: "http_method \<Rightarrow> rq_target \<Rightarrow> http_version \<Rightarrow> (string \<times> string) list \<Rightarrow> request" where
  "rendered_request m u v hs =
     Request_init\<lparr>rq_method := m, rq_target := u, rq_version := v, rq_headers := read_fields hs []\<rparr>"

lemma rendered_request_simps [simp]:
  "rq_method (rendered_request m u v hs) = m" "rq_target (rendered_request m u v hs) = u"
  "rq_version (rendered_request m u v hs) = v" "rq_status (rendered_request m u v hs) = HTTP_OK"
  "rq_headers (rendered_request m u v hs) = read_fields hs []"
  by (simp_all add: rendered_request_def Request_init_def)

lemma HttpMethodToStr_eq_iff: "HttpMethodToStr m = HttpMethodToStr n \<longleftrightarrow> m = n"
  by (cases m; cases n) simp_all

lemma HttpVerToStr_eq_iff: "HttpVerToStr v = HttpVerToStr w \<longleftrightarrow> v = w"
  by (cases v; cases w) simp_all

abbreviation header_map :: "(string \<times> string) list \<Rightarrow> string \<Rightarrow> string option" where
  "header_map hs \<equiv> map_of (rev (map (\<lambda>(k, v). (ToLowerCase k, v)) hs))"

lemma read_fields_header_map: "map_find (read_fields hs []) = header_map hs"
  using read_fields_find [of "[]" hs] by (simp add: map_find_Nil)

text \<open>Up to the end of the headers every request is read in the same way.\<close>

lemma headers_read:
  assumes "mt \<noteq> HTTP_NO_METHOD" "vs \<in> {HTTP_1_0, HTTP_1_1}"
    and "set t \<inter> {SP, CR, NUL} = {}" "RqTarget_of_raw t = Inr u" "Good u" "length t \<le> 8000"
    and "list_all field_ok hs" "length hs \<le> 100"
    and "length (render_request (HttpMethodToStr mt) t (HttpVerToStr vs) hs) \<le> 32768"
  shows "\<exists>c. run e (feed_builder builder_init (render_request (HttpMethodToStr mt) t (HttpVerToStr vs) hs)) = run e c \<and>
    rb_state c = BS_AFTER_HEADERS \<and> \<not> rb_has_body c \<and> rb_parser c = \<lparr>rp_buf = [], rp_idx = 0\<rparr> \<and>
    rb_rq c = rendered_request mt u vs hs \<and> rb_body c = BodyBuilder_init \<and>
    ValidateHeadersSyntax (rq_headers (rb_rq c)) = HTTP_OK"
proof -
  let ?m = "HttpMethodToStr mt" and ?v = "HttpVerToStr vs"
  let ?b = "feed_builder builder_init (render_request ?m t ?v hs)"
  have mv: "set ?m \<inter> {SP, CR, NUL} = {}" "length ?m \<le> 6" "set ?v \<inter> {SP, CR, LF, NUL} = {}"
    "?v \<noteq> []" "length ?v = 8"
    using assms(1,2) by (cases mt; auto)+
  have st: "request_line_status ?m u ?v = HTTP_OK"
    using assms(1,2,5) by (cases mt) (auto simp: request_line_status_def eval_simps)
  have "rb_parser ?b = \<lparr>rp_buf = (?m @ SP # t @ SP # ?v) @ [CR, LF]
      @ concat (map render_field hs) @ [CR, LF], rp_idx = 0\<rparr>" "rb_state ?b = BS_RQ_LINE"
    by (simp_all add: builder_init_def parser_init_def AddNewData_def render_request_def)
  from request_line_turn [OF this(2,1) mv(1) assms(3) mv(3,4) _ assms(4) st, of e] obtain b where
    b: "run e ?b = run e b" "rb_state b = BS_HEADER_FIELDS" "\<not> rb_has_body b"
      "rb_parser b = \<lparr>rp_buf = concat (map render_field hs) @ [CR, LF], rp_idx = 0\<rparr>"
      "rb_section_size b = length ?m + length t + length ?v + 2" "rb_header_count b = 0"
      "rb_rq b = Request_init\<lparr>rq_method := mt, rq_target := u, rq_version := vs\<rparr>" "rb_body b = BodyBuilder_init"
    using mv(2,5) assms(6)
    by (fastforce simp: builder_init_def Request_init_def RQ_LINE_LEN_LIMIT_def HttpMethodToStr_eq_iff
        HttpVerToStr_eq_iff)
  have "rb_section_size b + length (concat (map render_field hs)) \<le> RQ_HEADER_SECTION_LIMIT"
    using assms(9) b(5) by (simp add: render_request_def RQ_HEADER_SECTION_LIMIT_def)
  with header_fields_run [OF b(2) assms(7) b(4), of e] b assms(8) obtain c where
    c: "run e ?b = run e c" "rb_state c = BS_HEADER_FIELDS" "\<not> rb_has_body c"
      "rb_parser c = \<lparr>rp_buf = [CR, LF] @ [], rp_idx = 0\<rparr>"
      "rb_section_size c \<le> RQ_HEADER_SECTION_LIMIT"
      "rb_rq c = rendered_request mt u vs hs" "rb_body c = BodyBuilder_init"
    by (auto simp: RQ_MAX_HEADER_COUNT_def rendered_request_def Request_init_def)
  have "ValidateHeadersSyntax (rq_headers (rb_rq c)) = HTTP_OK"
    using c(6) read_fields_valid [OF assms(7), of "[]"] by simp
  with c end_of_headers_turn [OF c(2,5,4), of e] show ?thesis
    by (intro exI [of _ "c\<lparr>rb_extraction := [], rb_parser := \<lparr>rp_buf = [], rp_idx = 0\<rparr>, rb_state := BS_AFTER_HEADERS\<rparr>"]) simp
qed

lemma framing_names:
  "ToLowerCase ''host'' = ''host''" "ToLowerCase ''content-length'' = ''content-length''"
  "ToLowerCase ''transfer-encoding'' = ''transfer-encoding''"
  by (simp_all add: eval_simps str_simps)

lemma render_request_built:
  assumes "mt \<in> {HTTP_GET, HTTP_DELETE}" "vs \<in> {HTTP_1_0, HTTP_1_1}"
    and "set t \<inter> {SP, CR, NUL} = {}" "RqTarget_of_raw t = Inr u" "Good u" "length t \<le> 8000"
    and "list_all field_ok hs" "length hs \<le> 100"
    and "length (render_request (HttpMethodToStr mt) t (HttpVerToStr vs) hs) \<le> 32768"
    and "header_map hs ''host'' \<noteq> None" "header_map hs ''content-length'' = None"
    and "header_map hs ''transfer-encoding'' = None"
    and "hv_status (headers_ready_cb e (rendered_request mt u vs hs)) = HTTP_OK"
  shows "\<exists>c. Build e builder_init (render_request (HttpMethodToStr mt) t (HttpVerToStr vs) hs) = Some (Inr c) \<and>
    rb_state c = BS_END \<and> rb_status c = RB_DONE \<and> rb_rq c = rendered_request mt u vs hs \<and>
    rp_buf (rb_parser c) = [] \<and> Builder_Reset c = builder_init"
proof -
  let ?d = "render_request (HttpMethodToStr mt) t (HttpVerToStr vs) hs"
  have "mt \<noteq> HTTP_NO_METHOD" using assms(1) by auto
  from headers_read [OF this assms(2-9), of e] obtain c where
    c: "run e (feed_builder builder_init ?d) = run e c" "rb_state c = BS_AFTER_HEADERS" "\<not> rb_has_body c"
      "rb_parser c = \<lparr>rp_buf = [], rp_idx = 0\<rparr>" "rb_rq c = rendered_request mt u vs hs" "rb_body c = BodyBuilder_init"
      "ValidateHeadersSyntax (rq_headers (rb_rq c)) = HTTP_OK" by blast
  have "run e c = Some (Inr (c\<lparr>rb_state := BS_END\<rparr>))"
    using c(2,3,5,7) assms(1,10-13)
    by (intro after_headers_turn) (auto simp: GetHeaderVal_def framing_names read_fields_header_map)
  with c(1) have "Build e builder_init ?d = Some (Inr (after_loop (c\<lparr>rb_state := BS_END\<rparr>)))"
    by (simp add: Build_run render_request_def)
  moreover have "Builder_Reset (after_loop (c\<lparr>rb_state := BS_END\<rparr>)) = builder_init"
    using c(4,6) by (simp add: after_loop_def CanBuild_def Builder_Reset_def builder_init_def parser_init_def
        BodyBuilder_Reset_def BodyBuilder_init_def)
  ultimately show ?thesis using c(4,5) by (auto simp: after_loop_def CanBuild_def)
qed

text \<open>C11: a request without a body that is written out as text is read back as it was: the
  builder reaches its end with the method, target and version of the request line, each header
  name mapped to the last value given for it, and nothing left in the buffer.\<close>

theorem render_request_roundtrip:
  assumes "m \<in> {''GET'', ''DELETE''}" "v \<in> {''HTTP/1.0'', ''HTTP/1.1''}"
    and "set t \<inter> {SP, CR, NUL} = {}" "RqTarget_of_raw t = Inr u" "Good u" "length t \<le> 8000"
    and "list_all field_ok hs" "length hs \<le> 100" "length (render_request m t v hs) \<le> 32768"
    and "\<exists>w. map_of (rev (map (\<lambda>(k, v). (ToLowerCase k, v)) hs)) ''host'' = Some w"
    and "map_of (rev (map (\<lambda>(k, v). (ToLowerCase k, v)) hs)) ''content-length'' = None"
    and "map_of (rev (map (\<lambda>(k, v). (ToLowerCase k, v)) hs)) ''transfer-encoding'' = None"
    and "\<forall>rq. hv_status (headers_ready_cb e rq) = HTTP_OK"
  shows "\<exists>c. Build e builder_init (render_request m t v hs) = Some (Inr c) \<and>
    rb_state c = BS_END \<and> rb_status c = RB_DONE \<and>
    HttpMethodToStr (rq_method (rb_rq c)) = m \<and> rq_target (rb_rq c) = u \<and>
    HttpVerToStr (rq_version (rb_rq c)) = v \<and>
    map_find (rq_headers (rb_rq c)) = map_of (rev (map (\<lambda>(k, v). (ToLowerCase k, v)) hs)) \<and>
    rp_buf (rb_parser c) = []"
proof -
  obtain mt vs where mv: "mt \<in> {HTTP_GET, HTTP_DELETE}" "vs \<in> {HTTP_1_0, HTTP_1_1}" "m = HttpMethodToStr mt"
    "v = HttpVerToStr vs"
    using assms(1,2) by (metis HttpMethodToStr.simps(1,3) HttpVerToStr.simps(2,3) insert_iff singletonD)
  from render_request_built [OF mv(1,2) assms(3-8), of e] assms(9-13) mv(3,4) read_fields_header_map [of hs]
  show ?thesis by auto
qed

theorem render_request_roundtrip_witness:
  "\<exists>u c. RqTarget_of_raw ''/a'' = Inr u \<and>
    Build example_env builder_init (render_request ''GET'' ''/a'' ''HTTP/1.1''
      [(''Host'', ''x''), (''host'', ''y'')]) = Some (Inr c) \<and>
    rq_target (rb_rq c) = u \<and> map_find (rq_headers (rb_rq c)) ''host'' = Some ''y''"
proof -
  obtain u where u: "RqTarget_of_raw ''/a'' = Inr u" using RqTarget_of_raw_ok by blast
  have good: "Good u"
    using u by (auto simp: eval_simps str_simps remove_dots.simps)
  let ?hs = "[(''Host'', ''x''), (''host'', ''y'')]"
  have low: "map (\<lambda>(k, v). (ToLowerCase k, v)) ?hs = [(''host'', ''x''), (''host'', ''y'')]"
    by (simp add: eval_simps str_simps)
  have f: "list_all field_ok ?hs" by (simp add: eval_simps)
  have "\<exists>c. Build example_env builder_init (render_request ''GET'' ''/a'' ''HTTP/1.1'' ?hs) = Some (Inr c)
    \<and> rq_target (rb_rq c) = u
    \<and> map_find (rq_headers (rb_rq c)) = map_of (rev (map (\<lambda>(k, v). (ToLowerCase k, v)) ?hs))"
    using render_request_roundtrip [of "''GET''" "''HTTP/1.1''" "''/a''" u ?hs example_env, OF _ _ _ u good _ f]
    unfolding low by (auto simp: render_request_def render_field_def example_env_def)
  with u show ?thesis unfolding low by auto
qed

section \<open>A body of length zero\<close>

text \<open>The file of the body can be opened: that of the upload, which is new, or the temporary one.\<close>

definition body_opens :: "builder_env \<Rightarrow> headers_validation_result \<Rightarrow> bool" where
  "body_opens e vr \<longleftrightarrow>
     (case hv_upload_path vr of None \<Rightarrow> can_open e (tmp_name e)
      | Some path \<Rightarrow> \<not> path_exists e path \<and> can_open e path)"

lemma empty_body_turn:
  assumes "rb_state b = BS_AFTER_HEADERS" "rb_body b = BodyBuilder_init" "rb_parser b = \<lparr>rp_buf = [], rp_idx = 0\<rparr>"
    "rq_method (rb_rq b) = HTTP_POST" "ValidateHeadersSyntax (rq_headers (rb_rq b)) = HTTP_OK"
    "GetHeaderVal (rb_rq b) ''host'' \<noteq> None" "GetHeaderVal (rb_rq b) ''content-length'' = Some len"
    "GetHeaderVal (rb_rq b) ''transfer-encoding'' = None" "StrToNumericNoThrow False 64 len = Some 0"
    "hv_status (headers_ready_cb e (rb_rq b)) = HTTP_OK" "body_opens e (headers_ready_cb e (rb_rq b))"
  shows "\<exists>c. run e b = Some (Inr c) \<and> rb_state c = BS_BODY_REGULAR \<and> rb_parser c = rb_parser b \<and>
    bb_remaining (rb_body c) = 0"
proof -
  let ?i = "b\<lparr>rb_body := (rb_body b)\<lparr>bb_remaining := 0\<rparr>, rb_has_body := True\<rparr>"
  have i: "InterpretHeaders b = (HTTP_OK, ?i)"
    using assms by (auto simp: InterpretHeaders_def Let_def note_chunked_def check_method_body_def)
  obtain c where c: "PrepareBody e (headers_ready_cb e (rb_rq b)) ?i = Inr (BS_BODY_REGULAR, c)"
    "rb_parser c = rb_parser b" "bb_remaining (rb_body c) = 0"
    using assms(2,11)
    by (auto simp: PrepareBody_def open_body_def Let_def body_opens_def stream_open_def BodyBuilder_init_def
        split: option.splits)
  have "BuildStep e b = Inr (c\<lparr>rb_state := BS_BODY_REGULAR\<rparr>)"
    using assms(1,5,10) i c(1) by (simp add: BuildStep_def ProcessHeaders_def Let_def)
  moreover have "\<not> fst (CanBuild (c\<lparr>rb_state := BS_BODY_REGULAR\<rparr>))"
    using c(2) assms(3) by (simp add: CanBuild_eq EndOfBuffer_def)
  ultimately show ?thesis
    using assms(1) c(2,3) run_turn [of b e] run_end [of "c\<lparr>rb_state := BS_BODY_REGULAR\<rparr>" e] by (simp add: CanBuild_eq)
qed

text \<open>C16: a \<open>POST\<close> request whose length is zero is never completed by its own bytes: whatever its target, its
  version and its header fields, when its headers are good and accepted and its file can be opened, the
  builder has read all of them, misses not a single byte, and waits for more data.\<close>

theorem empty_post_waits:
  assumes "vs \<in> {HTTP_1_0, HTTP_1_1}" "set t \<inter> {SP, CR, NUL} = {}" "RqTarget_of_raw t = Inr u" "Good u" "length t \<le> 8000"
    and "list_all field_ok hs" "length hs \<le> 100"
    and "length (render_request ''POST'' t (HttpVerToStr vs) hs) \<le> 32768"
    and "header_map hs ''host'' \<noteq> None" "header_map hs ''transfer-encoding'' = None"
    and "header_map hs ''content-length'' = Some len" "StrToNumericNoThrow False 64 len = Some 0"
    and "hv_status (headers_ready_cb e (rendered_request HTTP_POST u vs hs)) = HTTP_OK"
    and "body_opens e (headers_ready_cb e (rendered_request HTTP_POST u vs hs))"
  shows "\<exists>c. Build e builder_init (render_request ''POST'' t (HttpVerToStr vs) hs) = Some (Inr c) \<and>
    rb_state c = BS_BODY_REGULAR \<and> rb_status c = RB_NEED_DATA_FROM_CLIENT \<and>
    rb_parser c = parser_init \<and> bb_remaining (rb_body c) = 0"
proof -
  let ?d = "render_request ''POST'' t (HttpVerToStr vs) hs"
  have "length (render_request (HttpMethodToStr HTTP_POST) t (HttpVerToStr vs) hs) \<le> 32768" using assms(8) by simp
  from headers_read [OF _ assms(1-7) this, of e] obtain b where
    b: "run e (feed_builder builder_init ?d) = run e b" "rb_state b = BS_AFTER_HEADERS"
      "rb_parser b = \<lparr>rp_buf = [], rp_idx = 0\<rparr>" "rb_rq b = rendered_request HTTP_POST u vs hs" "rb_body b = BodyBuilder_init"
      "ValidateHeadersSyntax (rq_headers (rb_rq b)) = HTTP_OK" by auto
  have "\<exists>c. run e b = Some (Inr c) \<and> rb_state c = BS_BODY_REGULAR \<and> rb_parser c = rb_parser b \<and> bb_remaining (rb_body c) = 0"
    by (rule empty_body_turn [OF b(2,5,3) _ b(6), of len])
      (use b(4) assms(9-14) in \<open>simp_all add: GetHeaderVal_def framing_names read_fields_header_map\<close>)
  then obtain c where c: "run e b = Some (Inr c)" "rb_state c = BS_BODY_REGULAR" "rb_parser c = rb_parser b"
    "bb_remaining (rb_body c) = 0" by blast
  have "Build e builder_init ?d = Some (Inr (after_loop c))"
    using b(1) c(1) by (simp add: Build_run render_request_def)
  moreover have "CanBuild c = (False, c\<lparr>rb_status := RB_NEED_DATA_FROM_CLIENT\<rparr>)"
    using c(2,3) b(3) by (simp add: CanBuild_def EndOfBuffer_def)
  ultimately show ?thesis using c(2-4) b(3) by (simp add: after_loop_def parser_init_def)
qed

theorem empty_post_waits_witness:
  "\<exists>c. Build example_env builder_init (render_request ''POST'' ''/'' ''HTTP/1.1'' [(''Host'', ''a''), (''Content-Length'', ''0'')])
     = Some (Inr c) \<and> rb_status c = RB_NEED_DATA_FROM_CLIENT \<and> bb_remaining (rb_body c) = 0"
proof -
  obtain u where u: "RqTarget_of_raw ''/'' = Inr u" using RqTarget_of_raw_ok by blast
  have good: "Good u" using u by (auto simp: eval_simps str_simps remove_dots.simps)
  let ?hs = "[(''Host'', ''a''), (''Content-Length'', ''0'')]"
  have low: "map (\<lambda>(k, v). (ToLowerCase k, v)) ?hs = [(''host'', ''a''), (''content-length'', ''0'')]"
    by (simp add: eval_simps str_simps)
  have f: "list_all field_ok ?hs" by (simp add: eval_simps)
  have zero: "StrToNumericNoThrow False 64 ''0'' = Some 0" by code_simp
  show ?thesis
    using empty_post_waits [of HTTP_1_1 "''/''" u ?hs "''0''" example_env, OF _ _ u good _ f] zero
    unfolding low by (auto simp: render_request_def render_field_def example_env_def body_opens_def)
qed

end
