(* ===== verification/Multiplexer.thy ===== *)
theory Multiplexer
  imports StdMap "HOL-Library.Word" "HOL-Library.Multiset"
begin

text \<open>
  \<open>src/c_api/multiplexers\<close> and \<open>src/c_api/EventManager.cpp\<close>: the callbacks registered for reading and
  writing, how the three multiplexers deliver them, and the postponed deletion.  What the kernel
  answers is given from outside: which control calls of \<open>epoll\<close> succeed, and which descriptors are
  ready.
\<close>

unbundle bit_operations_syntax

section \<open>State\<close>

type_synonym callback_type = "32 word"

definition CT_READ :: callback_type where [eval_simps]: "CT_READ = 1"
definition CT_WRITE :: callback_type where [eval_simps]: "CT_WRITE = 4"
definition CT_READWRITE :: callback_type where [eval_simps]: "CT_READWRITE = CT_READ OR CT_WRITE"

definition EPOLLIN :: "32 word" where [eval_simps]: "EPOLLIN = 1"
definition EPOLLOUT :: "32 word" where [eval_simps]: "EPOLLOUT = 4"

definition has_flag :: "32 word \<Rightarrow> 32 word \<Rightarrow> bool" where
  [eval_simps]: "has_flag w flag \<longleftrightarrow> w AND flag \<noteq> 0"

datatype multiplex_type = MT_SELECT | MT_POLL | MT_EPOLL

datatype epoll_op = EPOLL_CTL_ADD | EPOLL_CTL_MOD | EPOLL_CTL_DEL

type_synonym ctl_call = "epoll_op \<times> int \<times> 32 word \<times> bool"

text \<open>The two maps, and the calls of \<open>epoll_ctl\<close> made so far with their success, the last one first.\<close>

record 'cb multiplexer =
  mx_type :: multiplex_type
  rd_sockets :: "(int, 'cb) std_map"
  wr_sockets :: "(int, 'cb) std_map"
  ctl_log :: "ctl_call list"

type_synonym epoll_kernel = "epoll_op \<Rightarrow> int \<Rightarrow> 32 word \<Rightarrow> ctl_call list \<Rightarrow> bool"

definition multiplexer_init :: "multiplex_type \<Rightarrow> 'cb multiplexer" where
  [eval_simps]: "multiplexer_init t =
     \<lparr>mx_type = t, rd_sockets = [], wr_sockets = [], ctl_log = []\<rparr>"

definition is_registered :: "(int, 'cb) std_map \<Rightarrow> int \<Rightarrow> bool" where
  [eval_simps]: "is_registered m fd \<longleftrightarrow> map_find m fd \<noteq> None"

section \<open>Control of epoll\<close>

definition GetRegisteredEventType :: "int \<Rightarrow> 'cb multiplexer \<Rightarrow> 32 word" where
  [eval_simps]: "GetRegisteredEventType fd mx =
     (if is_registered (rd_sockets mx) fd then EPOLLIN else 0) OR
     (if is_registered (wr_sockets mx) fd then EPOLLOUT else 0)"

definition CbTypeToEpollEvents :: "callback_type \<Rightarrow> 32 word" where
  [eval_simps]: "CbTypeToEpollEvents t =
     (if has_flag t CT_READ then EPOLLIN else 0) OR (if has_flag t CT_WRITE then EPOLLOUT else 0)"

definition epoll_ctl ::
  "epoll_kernel \<Rightarrow> epoll_op \<Rightarrow> int \<Rightarrow> 32 word \<Rightarrow> 'cb multiplexer \<Rightarrow> bool \<times> 'cb multiplexer" where
  [eval_simps]: "epoll_ctl k op fd ev mx =
     (let ok = k op fd ev (ctl_log mx) in (ok, mx\<lparr>ctl_log := (op, fd, ev, ok) # ctl_log mx\<rparr>))"

definition Epoll_TryRegisterFdImpl ::
  "epoll_kernel \<Rightarrow> int \<Rightarrow> callback_type \<Rightarrow> 'cb multiplexer \<Rightarrow> bool \<times> 'cb multiplexer" where
  [eval_simps]: "Epoll_TryRegisterFdImpl k fd t mx =
     (if GetRegisteredEventType fd mx \<noteq> 0
      then epoll_ctl k EPOLL_CTL_MOD fd (CbTypeToEpollEvents t) mx
      else epoll_ctl k EPOLL_CTL_ADD fd (CbTypeToEpollEvents t) mx)"

definition Epoll_UnregisterFdImpl ::
  "epoll_kernel \<Rightarrow> int \<Rightarrow> callback_type \<Rightarrow> 'cb multiplexer \<Rightarrow> 'cb multiplexer" where
  [eval_simps]: "Epoll_UnregisterFdImpl k fd t mx =
     (let mod_events = GetRegisteredEventType fd mx AND NOT (CbTypeToEpollEvents t) in
      if mod_events = 0 then snd (epoll_ctl k EPOLL_CTL_DEL fd 0 mx)
      else snd (epoll_ctl k EPOLL_CTL_MOD fd mod_events mx))"

section \<open>Registration\<close>

text \<open>The two virtual functions: only \<open>epoll\<close> overrides them.\<close>

definition TryRegisterFdImpl ::
  "epoll_kernel \<Rightarrow> int \<Rightarrow> callback_type \<Rightarrow> 'cb multiplexer \<Rightarrow> bool \<times> 'cb multiplexer" where
  [eval_simps]: "TryRegisterFdImpl k fd t mx =
     (if mx_type mx = MT_EPOLL then Epoll_TryRegisterFdImpl k fd t mx else (True, mx))"

definition UnregisterFdImpl ::
  "epoll_kernel \<Rightarrow> int \<Rightarrow> callback_type \<Rightarrow> 'cb multiplexer \<Rightarrow> 'cb multiplexer" where
  [eval_simps]: "UnregisterFdImpl k fd t mx =
     (if mx_type mx = MT_EPOLL then Epoll_UnregisterFdImpl k fd t mx else mx)"

definition TryRegisterFd ::
  "epoll_kernel \<Rightarrow> int \<Rightarrow> callback_type \<Rightarrow> 'cb \<Rightarrow> 'cb multiplexer \<Rightarrow> (bool \<times> 'cb multiplexer) outcome"
  where
  [eval_simps]: "TryRegisterFd k fd t cb mx =
     (if has_flag t CT_READ \<and> has_flag t CT_WRITE then Inl Logic_error
      else if \<not> has_flag t (CT_READ OR CT_WRITE) then Inl Logic_error
      else if has_flag t CT_READ \<and> is_registered (rd_sockets mx) fd \<or>
              has_flag t CT_WRITE \<and> is_registered (wr_sockets mx) fd then Inr (False, mx)
      else case TryRegisterFdImpl k fd t mx of
        (False, mx1) \<Rightarrow> Inr (False, mx1)
      | (True, mx1) \<Rightarrow>
          Inr (True,
            if has_flag t CT_READ then mx1\<lparr>rd_sockets := map_assign fd cb (rd_sockets mx1)\<rparr>
            else if has_flag t CT_WRITE then mx1\<lparr>wr_sockets := map_assign fd cb (wr_sockets mx1)\<rparr>
            else mx1))"

definition UnregisterFd :: "epoll_kernel \<Rightarrow> int \<Rightarrow> callback_type \<Rightarrow> 'cb multiplexer \<Rightarrow> 'cb multiplexer"
  where
  [eval_simps]: "UnregisterFd k fd t mx =
     (let found_rd = has_flag t CT_READ \<and> is_registered (rd_sockets mx) fd;
          found_wr = has_flag t CT_WRITE \<and> is_registered (wr_sockets mx) fd;
          mx1 = (if found_rd \<or> found_wr then UnregisterFdImpl k fd t mx else mx);
          mx2 = (if found_rd then mx1\<lparr>rd_sockets := map_erase fd (rd_sockets mx1)\<rparr> else mx1)
      in if found_wr then mx2\<lparr>wr_sockets := map_erase fd (wr_sockets mx2)\<rparr> else mx2)"

section \<open>The event manager\<close>

record 'cb event_manager =
  em_multiplexer :: "'cb multiplexer"
  fds_to_delete :: "(int \<times> callback_type) list"

definition TryRegisterCallback ::
  "epoll_kernel \<Rightarrow> int \<Rightarrow> callback_type \<Rightarrow> 'cb \<Rightarrow> 'cb event_manager \<Rightarrow> (bool \<times> 'cb event_manager) outcome"
  where
  [eval_simps]: "TryRegisterCallback k fd t cb em =
     bind_outcome (TryRegisterFd k fd t cb (em_multiplexer em)) (\<lambda>(ok, mx).
       Inr (ok, em\<lparr>em_multiplexer := mx\<rparr>))"

definition DeleteCallback :: "int \<Rightarrow> callback_type \<Rightarrow> 'cb event_manager \<Rightarrow> 'cb event_manager" where
  [eval_simps]: "DeleteCallback fd t em = em\<lparr>fds_to_delete := fds_to_delete em @ [(fd, t)]\<rparr>"

text \<open>The first half of \<open>CheckOnce_\<close>: what was to be deleted is, then the events are delivered.\<close>

definition delete_pending :: "epoll_kernel \<Rightarrow> 'cb event_manager \<Rightarrow> 'cb event_manager" where
  [eval_simps]: "delete_pending k em =
     \<lparr>em_multiplexer = fold (\<lambda>(fd, t). UnregisterFd k fd t) (fds_to_delete em) (em_multiplexer em),
      fds_to_delete = []\<rparr>"

section \<open>Delivery\<close>

text \<open>
  The world \<open>'w\<close> is what the callbacks change, the multiplexer included; \<open>get\<close> reads the multiplexer
  from it and \<open>call\<close> runs a callback.  Each event looks its callback up again.
\<close>

definition call_found ::
  "('cb \<Rightarrow> int \<Rightarrow> 'w \<Rightarrow> 'w outcome) \<Rightarrow> (int, 'cb) std_map \<Rightarrow> int \<Rightarrow> 'w \<Rightarrow> 'w outcome" where
  [eval_simps]: "call_found call m fd w =
     (case map_find m fd of None \<Rightarrow> Inr w | Some cb \<Rightarrow> call cb fd w)"

definition deliver ::
  "('w \<Rightarrow> 'cb multiplexer) \<Rightarrow> ('cb \<Rightarrow> int \<Rightarrow> 'w \<Rightarrow> 'w outcome) \<Rightarrow> int \<times> bool \<times> bool \<Rightarrow> 'w \<Rightarrow> 'w outcome" where
  [eval_simps]: "deliver get call = (\<lambda>(fd, readable, writable) w.
     bind_outcome (if readable then call_found call (rd_sockets (get w)) fd w else Inr w) (\<lambda>v.
       if writable then call_found call (wr_sockets (get v)) fd v else Inr v))"

fun deliver_all ::
  "('w \<Rightarrow> 'cb multiplexer) \<Rightarrow> ('cb \<Rightarrow> int \<Rightarrow> 'w \<Rightarrow> 'w outcome) \<Rightarrow> (int \<times> bool \<times> bool) list \<Rightarrow> 'w \<Rightarrow> 'w outcome"
  where
  "deliver_all get call [] w = Inr w"
| "deliver_all get call (ev # evs) w =
     bind_outcome (deliver get call ev w) (deliver_all get call evs)"

text \<open>\<open>epoll_wait\<close> yields at most 64 events, or \<open>None\<close> on an error.\<close>

definition Epoll_CheckOnce ::
  "('w \<Rightarrow> 'cb multiplexer) \<Rightarrow> ('cb \<Rightarrow> int \<Rightarrow> 'w \<Rightarrow> 'w outcome) \<Rightarrow> (int \<times> 32 word) list option \<Rightarrow> 'w \<Rightarrow> 'w outcome"
  where
  "Epoll_CheckOnce get call events w =
     (case events of None \<Rightarrow> Inr w
      | Some evs \<Rightarrow> deliver_all get call
          (map (\<lambda>(fd, ev). (fd, has_flag ev EPOLLIN, has_flag ev EPOLLOUT)) evs) w)"

definition poll_fds :: "'cb multiplexer \<Rightarrow> (int \<times> 32 word) list" where
  "poll_fds mx = map (\<lambda>(fd, _). (fd, EPOLLIN)) (rd_sockets mx) @
     map (\<lambda>(fd, _). (fd, EPOLLOUT)) (wr_sockets mx)"

text \<open>\<open>poll\<close> fills in \<open>revents\<close> for each entry, or fails.\<close>

definition Poll_CheckOnce ::
  "('w \<Rightarrow> 'cb multiplexer) \<Rightarrow> ('cb \<Rightarrow> int \<Rightarrow> 'w \<Rightarrow> 'w outcome) \<Rightarrow>
   ((int \<times> 32 word) list \<Rightarrow> 32 word list option) \<Rightarrow> 'w \<Rightarrow> 'w outcome" where
  "Poll_CheckOnce get call poll w =
     (let fds = poll_fds (get w) in
      case poll fds of None \<Rightarrow> Inr w
      | Some revents \<Rightarrow> deliver_all get call
          (map (\<lambda>((fd, _), ev). (fd, has_flag ev EPOLLIN, has_flag ev EPOLLOUT)) (zip fds revents)) w)"

definition kMaxSelectFds :: int where [eval_simps]: "kMaxSelectFds = 1023"

definition map_max_key :: "(int, 'v) std_map \<Rightarrow> int" where
  [eval_simps]: "map_max_key m = fst (last m)"

definition select_max_fd :: "'cb multiplexer \<Rightarrow> int" where
  [eval_simps]: "select_max_fd mx =
     (let m1 = (if rd_sockets mx \<noteq> [] then map_max_key (rd_sockets mx) else 0);
          m2 = (if wr_sockets mx \<noteq> [] then max (map_max_key (wr_sockets mx)) m1 else m1)
      in if kMaxSelectFds < m2 then kMaxSelectFds else m2)"

text \<open>
  \<open>FD_SET\<close> writes a bit of a set of 1024, whatever the descriptor; only the loop is limited.  The
  answer of \<open>select\<close> is the part of the two sets that is ready.
\<close>

definition Select_CheckOnce ::
  "('w \<Rightarrow> 'cb multiplexer) \<Rightarrow> ('cb \<Rightarrow> int \<Rightarrow> 'w \<Rightarrow> 'w outcome) \<Rightarrow>
   (int list \<Rightarrow> int list \<Rightarrow> (int list \<times> int list) option) \<Rightarrow> 'w \<Rightarrow> 'w outcome" where
  "Select_CheckOnce get call select w =
     (let mx = get w; rds = map fst (rd_sockets mx); wrs = map fst (wr_sockets mx) in
      if \<exists>fd\<in>set (rds @ wrs). fd < 0 \<or> kMaxSelectFds < fd then Inl Undefined_behaviour
      else case select rds wrs of None \<Rightarrow> Inr w
      | Some (ready_rd, ready_wr) \<Rightarrow> deliver_all get call
          (map (\<lambda>fd. (fd, fd \<in> set ready_rd, fd \<in> set ready_wr)) [0..select_max_fd mx]) w)"

text \<open>\<open>GetTimeout_\<close>: seconds and microseconds, or no limit.\<close>

definition GetTimeout :: "int \<Rightarrow> (int \<times> int) option" where
  [eval_simps]: "GetTimeout timeout_ms =
     (if timeout_ms < 0 then None else Some (timeout_ms div 1000, timeout_ms mod 1000 * 1000))"

end
