(* ===== verification/Machine.thy ===== *)
theory Machine
  imports Prelude
begin

text \<open>
  Runs of a component that reacts to events: each callback of the code is an event, a handler may
  throw, and the environment promises which events can come in which state.  The locale
  \<open>guarded_machine\<close> turns an invariant of the handlers into one of all runs.
\<close>

fun run_events :: "('e \<Rightarrow> 's \<Rightarrow> 's outcome) \<Rightarrow> 's \<Rightarrow> 'e list \<Rightarrow> 's outcome" where
  "run_events step s [] = Inr s"
| "run_events step s (e # es) = bind_outcome (step e s) (\<lambda>t. run_events step t es)"

fun can_happen :: "('e \<Rightarrow> 's \<Rightarrow> 's outcome) \<Rightarrow> ('e \<Rightarrow> 's \<Rightarrow> bool) \<Rightarrow> 's \<Rightarrow> 'e list \<Rightarrow> bool" where
  "can_happen step guard s [] = True"
| "can_happen step guard s (e # es) =
     (guard e s \<and> (case step e s of Inl _ \<Rightarrow> True | Inr t \<Rightarrow> can_happen step guard t es))"

lemma run_events_append:
  "run_events step s (es @ fs) = bind_outcome (run_events step s es) (\<lambda>t. run_events step t fs)"
proof (induction es arbitrary: s)
  case (Cons e es)
  then show ?case by (cases "step e s") simp_all
qed simp

lemma can_happen_append:
  "can_happen step guard s (es @ fs) \<longleftrightarrow> can_happen step guard s es \<and>
     (case run_events step s es of Inl _ \<Rightarrow> True | Inr t \<Rightarrow> can_happen step guard t fs)"
proof (induction es arbitrary: s)
  case (Cons e es)
  then show ?case by (cases "step e s") simp_all
qed simp

text \<open>
  A guard may say more than the environment promises.  Then a run that keeps the promise either keeps the
  guard or comes, after events that all kept it, to a first one that does not.
\<close>

lemma can_happen_or:
  "can_happen step promise s es \<Longrightarrow> can_happen step guard s es \<or>
     (\<exists>pre e post t. es = pre @ e # post \<and> can_happen step guard s pre \<and> run_events step s pre = Inr t \<and>
        promise e t \<and> \<not> guard e t)"
proof (induction es arbitrary: s)
  case (Cons e es)
  show ?case
  proof (cases "guard e s")
    case True
    show ?thesis
    proof (cases "step e s")
      case (Inr t)
      with Cons.prems have "can_happen step promise t es" by simp
      from Cons.IH [OF this] show ?thesis
      proof (elim disjE exE conjE)
        fix pre f post u assume f: "es = pre @ f # post" "can_happen step guard t pre" "run_events step t pre = Inr u"
          "promise f u" "\<not> guard f u"
        then have "e # es = (e # pre) @ f # post" "can_happen step guard s (e # pre)" "run_events step s (e # pre) = Inr u"
          using True Inr by simp_all
        with f(4,5) show ?thesis by blast
      qed (use True Inr in simp)
    qed (use True in simp)
  next
    case False
    have "e # es = [] @ e # es" "can_happen step guard s []" "run_events step s [] = Inr s" by simp_all
    with False Cons.prems show ?thesis by fastforce
  qed
qed simp

locale guarded_machine =
  fixes step :: "'e \<Rightarrow> 's \<Rightarrow> 's outcome"
    and guard :: "'e \<Rightarrow> 's \<Rightarrow> bool"
    and inv :: "'s \<Rightarrow> bool"
  assumes handler: "inv s \<Longrightarrow> guard e s \<Longrightarrow> \<exists>t. step e s = Inr t \<and> inv t"
begin

lemma runs:
  "inv s \<Longrightarrow> can_happen step guard s es \<Longrightarrow> \<exists>t. run_events step s es = Inr t \<and> inv t"
proof (induction es arbitrary: s)
  case (Cons e es)
  then obtain t where "step e s = Inr t" "inv t" using handler [of s e] by auto
  with Cons show ?case by simp
qed simp

lemma runs_until:
  assumes "inv s" "can_happen step promise s es"
  shows "(\<exists>t. run_events step s es = Inr t \<and> inv t) \<or>
    (\<exists>pre e post t. es = pre @ e # post \<and> run_events step s pre = Inr t \<and> inv t \<and> promise e t \<and> \<not> guard e t)"
proof (cases "can_happen step guard s es")
  case False
  with can_happen_or [OF assms(2), of guard] obtain pre e post t where
    e: "es = pre @ e # post" "can_happen step guard s pre" "run_events step s pre = Inr t" "promise e t" "\<not> guard e t"
    by blast
  from runs [OF assms(1) e(2)] e(3) have "inv t" by simp
  with e show ?thesis by blast
qed (use runs [OF assms(1)] in blast)

inductive reachable :: "'s \<Rightarrow> 's \<Rightarrow> bool" for s0 where
  start: "reachable s0 s0"
| event: "reachable s0 s \<Longrightarrow> guard e s \<Longrightarrow> step e s = Inr t \<Longrightarrow> reachable s0 t"

lemma reachable_inv: "reachable s0 s \<Longrightarrow> inv s0 \<Longrightarrow> inv s"
  by (induction rule: reachable.induct) (use handler in fastforce)+

lemma no_exception: "reachable s0 s \<Longrightarrow> inv s0 \<Longrightarrow> guard e s \<Longrightarrow> \<exists>t. step e s = Inr t"
  using reachable_inv handler by blast

end

end
