(* ===== verification/MultiplexerProps.thy ===== *)
theory MultiplexerProps
  imports Multiplexer Machine
begin

text \<open>
  What the multiplexers promise: which events the kernel is asked to watch, that \<open>select\<close> and
  \<open>poll\<close> make the same calls, and what the postponed deletion means for a descriptor that is used
  again.
\<close>

section \<open>What the kernel was asked to watch\<close>

text \<open>The events of the last successful call for a descriptor, as \<open>epoll_ctl\<close> documents it.\<close>

fun requested :: "ctl_call list \<Rightarrow> int \<Rightarrow> 32 word" where
  "requested [] fd = 0"
| "requested ((op, fd1, ev, ok) # calls) fd =
     (if fd1 = fd \<and> ok then (if op = EPOLL_CTL_DEL then 0 else ev) else requested calls fd)"

text \<open>A descriptor that is watched can be modified and removed.\<close>

definition kernel_ok :: "epoll_kernel \<Rightarrow> bool" where
  "kernel_ok k \<longleftrightarrow> (\<forall>op fd ev calls. op \<noteq> EPOLL_CTL_ADD \<longrightarrow> requested calls fd \<noteq> 0 \<longrightarrow> k op fd ev calls)"

datatype 'cb mux_op = Register int callback_type 'cb | Unregister int callback_type

definition mux_step :: "epoll_kernel \<Rightarrow> 'cb mux_op \<Rightarrow> 'cb multiplexer \<Rightarrow> 'cb multiplexer outcome" where
  "mux_step k op mx =
     (case op of
        Register fd t cb \<Rightarrow> bind_outcome (TryRegisterFd k fd t cb mx) (\<lambda>(_, mx1). Inr mx1)
      | Unregister fd t \<Rightarrow> Inr (UnregisterFd k fd t mx))"

text \<open>A callback is registered for reading or for writing.\<close>

definition mux_guard :: "'cb mux_op \<Rightarrow> 'cb multiplexer \<Rightarrow> bool" where
  "mux_guard op mx \<longleftrightarrow> (case op of Register _ t _ \<Rightarrow> t = CT_READ \<or> t = CT_WRITE | Unregister _ t \<Rightarrow> True)"

definition watches :: "'cb multiplexer \<Rightarrow> int \<Rightarrow> bool" where
  "watches mx fd \<longleftrightarrow>
     (let rd = is_registered (rd_sockets mx) fd; wr = is_registered (wr_sockets mx) fd;
          ev = requested (ctl_log mx) fd
      in if rd \<and> wr then ev = EPOLLIN \<or> ev = EPOLLOUT
         else ev = (if rd then EPOLLIN else if wr then EPOLLOUT else 0))"

definition mux_inv :: "'cb multiplexer \<Rightarrow> bool" where
  "mux_inv mx \<longleftrightarrow> mx_type mx = MT_EPOLL \<and> map_sorted (rd_sockets mx) \<and> map_sorted (wr_sockets mx) \<and>
     (\<forall>fd. watches mx fd)"

lemma registered_assign [simp]: "is_registered (map_assign k v m) j \<longleftrightarrow> j = k \<or> is_registered m j"
  by (simp add: is_registered_def map_find_assign)

lemma registered_erase [simp]:
  "map_sorted m \<Longrightarrow> is_registered (map_erase k m) j \<longleftrightarrow> j \<noteq> k \<and> is_registered m j"
  by (simp add: is_registered_def map_find_erase)

lemmas event_bits = EPOLLIN_def EPOLLOUT_def CT_READ_def CT_WRITE_def CT_READWRITE_def has_flag_def

lemma events_of_type:
  "CbTypeToEpollEvents CT_READ = EPOLLIN" "CbTypeToEpollEvents CT_WRITE = EPOLLOUT"
  "has_flag CT_READ CT_READ" "\<not> has_flag CT_READ CT_WRITE"
  "has_flag CT_WRITE CT_WRITE" "\<not> has_flag CT_WRITE CT_READ"
  "has_flag CT_READ (CT_READ OR CT_WRITE)" "has_flag CT_WRITE (CT_READ OR CT_WRITE)"
  by (simp_all add: CbTypeToEpollEvents_def event_bits)

lemma registered_events_zero:
  "GetRegisteredEventType fd mx = 0 \<longleftrightarrow>
     \<not> is_registered (rd_sockets mx) fd \<and> \<not> is_registered (wr_sockets mx) fd"
  by (simp add: GetRegisteredEventType_def event_bits)

lemma register_keeps:
  assumes "mux_inv mx" "t = CT_READ \<or> t = CT_WRITE"
  shows "\<exists>ok mx1. TryRegisterFd k fd t cb mx = Inr (ok, mx1) \<and> mux_inv mx1"
proof -
  let ?op = "if GetRegisteredEventType fd mx \<noteq> 0 then EPOLL_CTL_MOD else EPOLL_CTL_ADD"
  let ?ev = "CbTypeToEpollEvents t"
  let ?ok = "k ?op fd ?ev (ctl_log mx)"
  let ?mx = "mx\<lparr>ctl_log := (?op, fd, ?ev, ?ok) # ctl_log mx\<rparr>"
  have impl: "TryRegisterFdImpl k fd t mx = (?ok, ?mx)"
    using assms(1)
    by (simp add: TryRegisterFdImpl_def Epoll_TryRegisterFdImpl_def epoll_ctl_def mux_inv_def Let_def)
  show ?thesis
    using assms(2)
  proof
    assume t: "t = CT_READ"
    show ?thesis
    proof (cases "is_registered (rd_sockets mx) fd")
      case True
      then show ?thesis using assms(1) t by (auto simp: TryRegisterFd_def events_of_type)
    next
      case False
      then show ?thesis
        using assms(1) t impl
        by (cases ?ok) (auto simp: TryRegisterFd_def events_of_type mux_inv_def watches_def Let_def
            map_sorted_assign)
    qed
  next
    assume t: "t = CT_WRITE"
    show ?thesis
    proof (cases "is_registered (wr_sockets mx) fd")
      case True
      then show ?thesis using assms(1) t by (auto simp: TryRegisterFd_def events_of_type)
    next
      case False
      then show ?thesis
        using assms(1) t impl
        by (cases ?ok) (auto simp: TryRegisterFd_def events_of_type mux_inv_def watches_def Let_def
            map_sorted_assign)
    qed
  qed
qed

lemma unregister_keeps:
  assumes "mux_inv mx" "kernel_ok k"
  shows "mux_inv (UnregisterFd k fd t mx)"
proof -
  let ?rd = "is_registered (rd_sockets mx) fd" and ?wr = "is_registered (wr_sockets mx) fd"
  let ?frd = "has_flag t CT_READ \<and> ?rd" and ?fwr = "has_flag t CT_WRITE \<and> ?wr"
  let ?mod = "GetRegisteredEventType fd mx AND NOT (CbTypeToEpollEvents t)"
  show ?thesis
  proof (cases "?frd \<or> ?fwr")
    case False
    then have "UnregisterFd k fd t mx = mx" by (auto simp: UnregisterFd_def Let_def)
    then show ?thesis using assms(1) by simp
  next
    case True
    have "watches mx fd" using assms(1) by (simp add: mux_inv_def)
    then have "requested (ctl_log mx) fd \<noteq> 0"
      using True by (auto simp: watches_def Let_def EPOLLIN_def EPOLLOUT_def split: if_splits)
    then have ok: "k EPOLL_CTL_DEL fd 0 (ctl_log mx)" "k EPOLL_CTL_MOD fd ?mod (ctl_log mx)"
      using assms(2) by (auto simp: kernel_ok_def)
    obtain ctl where ctl: "ctl = (if ?mod = 0 then (EPOLL_CTL_DEL, fd, 0, True) else (EPOLL_CTL_MOD, fd, ?mod, True))"
      by blast
    have impl: "UnregisterFdImpl k fd t mx = mx\<lparr>ctl_log := ctl # ctl_log mx\<rparr>"
      using assms(1) ok by (simp add: UnregisterFdImpl_def Epoll_UnregisterFdImpl_def epoll_ctl_def
          mux_inv_def Let_def ctl)
    have ev: "requested (ctl # ctl_log mx) fd =
        (if ?rd \<and> \<not> ?frd then EPOLLIN else if ?wr \<and> \<not> ?fwr then EPOLLOUT else 0)"
      using True by (auto simp: GetRegisteredEventType_def CbTypeToEpollEvents_def EPOLLIN_def EPOLLOUT_def ctl)
    have other: "requested (ctl # ctl_log mx) fd1 = requested (ctl_log mx) fd1" if "fd1 \<noteq> fd" for fd1
      using that by (simp add: ctl)
    let ?new = "UnregisterFd k fd t mx"
    have "ctl_log ?new = ctl # ctl_log mx \<and> mx_type ?new = mx_type mx \<and>
      rd_sockets ?new = (if ?frd then map_erase fd (rd_sockets mx) else rd_sockets mx) \<and>
      wr_sockets ?new = (if ?fwr then map_erase fd (wr_sockets mx) else wr_sockets mx)"
      using True by (cases ?frd; cases ?fwr) (auto simp: UnregisterFd_def Let_def impl)
    note new = this [THEN conjunct1] this [THEN conjunct2, THEN conjunct1]
      this [THEN conjunct2, THEN conjunct2, THEN conjunct1]
      this [THEN conjunct2, THEN conjunct2, THEN conjunct2]
    have sorted: "map_sorted (rd_sockets mx)" "map_sorted (wr_sockets mx)" "mx_type mx = MT_EPOLL"
      "watches mx fd1" for fd1
      using assms(1) by (simp_all add: mux_inv_def)
    have "watches ?new fd1" for fd1
    proof (cases "fd1 = fd")
      case True
      then show ?thesis
        using \<open>?frd \<or> ?fwr\<close> sorted(1,2) ev
        unfolding watches_def new by (auto simp: Let_def)
    next
      case False
      then show ?thesis
        using sorted(1,2) sorted(4) [of fd1] other [OF False]
        unfolding watches_def new by (auto simp: Let_def)
    qed
    then show ?thesis
      using sorted(1-3) new by (auto simp: mux_inv_def map_sorted_erase)
  qed
qed

text \<open>The promise of the kernel is part of the invariant of the machine.\<close>

lemma mux_step_inv:
  assumes "kernel_ok k \<and> mux_inv mx" "mux_guard op mx"
  shows "\<exists>mx1. mux_step k op mx = Inr mx1 \<and> kernel_ok k \<and> mux_inv mx1"
proof (cases op)
  case (Register fd t cb)
  then obtain ok mx1 where "TryRegisterFd k fd t cb mx = Inr (ok, mx1)" "mux_inv mx1"
    using register_keeps [of mx t k fd cb] assms by (auto simp: mux_guard_def)
  then show ?thesis using Register assms by (simp add: mux_step_def)
next
  case (Unregister fd t)
  then show ?thesis using unregister_keeps [of mx k fd t] assms by (simp add: mux_step_def)
qed

interpretation mux_machine: guarded_machine "mux_step k" mux_guard "\<lambda>mx. kernel_ok k \<and> mux_inv mx" for k
  by unfold_locales (rule mux_step_inv)

lemma mux_inv_init: "mux_inv (multiplexer_init MT_EPOLL)"
  by (simp add: mux_inv_def multiplexer_init_def watches_def is_registered_def map_find_def)

text \<open>C29: after any sequence of registrations and removals the kernel watches exactly the descriptors
  that have a callback; for one that has a single callback it watches what the callback is for, and
  for one that has both it watches only one of the two.\<close>

theorem epoll_watches:
  assumes "kernel_ok k" "can_happen (mux_step k) mux_guard (multiplexer_init MT_EPOLL) ops"
  shows "\<exists>mx. run_events (mux_step k) (multiplexer_init MT_EPOLL) ops = Inr mx \<and> (\<forall>fd. watches mx fd)"
  using mux_machine.runs [of k "multiplexer_init MT_EPOLL" ops] assms mux_inv_init
  by (auto simp: mux_inv_def)

text \<open>The kernel grants every control call, in this example.\<close>

definition willing_kernel :: epoll_kernel where
  "willing_kernel = (\<lambda>_ _ _ _. True)"

theorem epoll_watches_witness:
  "\<exists>mx. run_events (mux_step willing_kernel) (multiplexer_init MT_EPOLL)
      [Register 5 CT_READ ''recv'', Register 5 CT_WRITE ''send'', Unregister 5 CT_WRITE] = Inr mx
    \<and> watches mx 5"
proof -
  have "kernel_ok willing_kernel" by (simp add: kernel_ok_def willing_kernel_def)
  moreover have "can_happen (mux_step willing_kernel) mux_guard s
      [Register 5 CT_READ ''recv'', Register 5 CT_WRITE ''send'', Unregister 5 CT_WRITE]" for s
    by (simp add: mux_guard_def split: sum.split)
  ultimately show ?thesis using epoll_watches [of willing_kernel] by blast
qed

section \<open>The same calls by select and poll\<close>

text \<open>A callback that only notes that it was called.\<close>

definition note_call :: "'cb \<Rightarrow> int \<Rightarrow> ('cb \<times> int) list \<Rightarrow> ('cb \<times> int) list outcome" where
  "note_call cb fd w = Inr (w @ [(cb, fd)])"

definition calls_of :: "'cb multiplexer \<Rightarrow> int \<times> bool \<times> bool \<Rightarrow> ('cb \<times> int) list" where
  "calls_of mx = (\<lambda>(fd, readable, writable).
     (if readable then case map_find (rd_sockets mx) fd of None \<Rightarrow> [] | Some cb \<Rightarrow> [(cb, fd)] else []) @
     (if writable then case map_find (wr_sockets mx) fd of None \<Rightarrow> [] | Some cb \<Rightarrow> [(cb, fd)] else []))"

lemma deliver_all_calls:
  "deliver_all (\<lambda>_. mx) note_call evs w = Inr (w @ concat (map (calls_of mx) evs))"
proof (induction evs arbitrary: w)
  case (Cons ev evs)
  have "deliver (\<lambda>_. mx) note_call ev w = Inr (w @ calls_of mx ev)"
    by (cases ev) (auto simp: deliver_def calls_of_def call_found_def note_call_def split: option.split)
  with Cons show ?case by simp
qed simp

definition ready_calls :: "'cb multiplexer \<Rightarrow> (int \<Rightarrow> bool) \<Rightarrow> (int \<Rightarrow> bool) \<Rightarrow> ('cb \<times> int) list" where
  "ready_calls mx readable writable =
     map (\<lambda>(fd, cb). (cb, fd)) (filter (\<lambda>(fd, _). readable fd) (rd_sockets mx)) @
     map (\<lambda>(fd, cb). (cb, fd)) (filter (\<lambda>(fd, _). writable fd) (wr_sockets mx))"

text \<open>What \<open>select\<close> and \<open>poll\<close> answer for descriptors that are readable and writable.\<close>

definition select_answer ::
  "(int \<Rightarrow> bool) \<Rightarrow> (int \<Rightarrow> bool) \<Rightarrow> int list \<Rightarrow> int list \<Rightarrow> (int list \<times> int list) option" where
  "select_answer readable writable rds wrs = Some (filter readable rds, filter writable wrs)"

definition poll_answer ::
  "(int \<Rightarrow> bool) \<Rightarrow> (int \<Rightarrow> bool) \<Rightarrow> (int \<times> 32 word) list \<Rightarrow> 32 word list option" where
  "poll_answer readable writable fds = Some (map (\<lambda>(fd, ev).
     (if has_flag ev EPOLLIN \<and> readable fd then EPOLLIN else 0) OR
     (if has_flag ev EPOLLOUT \<and> writable fd then EPOLLOUT else 0)) fds)"

lemma map_sorted_distinct: "map_sorted m \<Longrightarrow> distinct (map fst m)"
  by (simp add: map_sorted_def strict_sorted_iff)

lemma map_zip_self: "map h (zip xs (map g xs)) = map (\<lambda>x. h (x, g x)) xs"
  by (induction xs) auto

lemma poll_calls:
  assumes "map_sorted (rd_sockets mx)" "map_sorted (wr_sockets mx)"
  shows "Poll_CheckOnce (\<lambda>_. mx) note_call (poll_answer readable writable) w
    = Inr (w @ ready_calls mx readable writable)"
proof -
  have find: "map_find m fd = Some cb" if "(fd, cb) \<in> set m" "map_sorted m" for m :: "(int, 'a) std_map" and fd cb
    using that(1) map_sorted_distinct [OF that(2)] by (simp add: map_find_def map_of_is_SomeI)
  have rd: "concat (map (calls_of mx \<circ> (\<lambda>(fd, _). (fd, readable fd, False))) m)
      = map (\<lambda>(fd, cb). (cb, fd)) (filter (\<lambda>(fd, _). readable fd) m)" if "set m \<subseteq> set (rd_sockets mx)" for m
    using that find [OF _ assms(1)] by (induction m) (auto simp: calls_of_def)
  have wr: "concat (map (calls_of mx \<circ> (\<lambda>(fd, _). (fd, False, writable fd))) m)
      = map (\<lambda>(fd, cb). (cb, fd)) (filter (\<lambda>(fd, _). writable fd) m)" if "set m \<subseteq> set (wr_sockets mx)" for m
    using that find [OF _ assms(2)] by (induction m) (auto simp: calls_of_def)
  let ?rev = "\<lambda>(fd, ev). (if has_flag ev EPOLLIN \<and> readable fd then EPOLLIN else 0) OR
     (if has_flag ev EPOLLOUT \<and> writable fd then EPOLLOUT else 0)"
  have evs: "map (\<lambda>((fd, _), ev). (fd, has_flag ev EPOLLIN, has_flag ev EPOLLOUT))
      (zip (poll_fds mx) (map ?rev (poll_fds mx)))
    = map (\<lambda>(fd, _). (fd, readable fd, False)) (rd_sockets mx)
      @ map (\<lambda>(fd, _). (fd, False, writable fd)) (wr_sockets mx)"
    unfolding map_zip_self by (auto simp: poll_fds_def event_bits split: if_splits)
  show ?thesis
    unfolding Poll_CheckOnce_def poll_answer_def Let_def option.case evs deliver_all_calls ready_calls_def
    using rd [OF order_refl] wr [OF order_refl] by simp
qed

lemma calls_over_range:
  assumes "distinct (map fst m)" "set (map fst m) \<subseteq> set L" "distinct L"
  shows "mset (concat (map (\<lambda>fd. if P fd then case map_of m fd of None \<Rightarrow> [] | Some cb \<Rightarrow> [(cb, fd)] else []) L))
    = mset (map (\<lambda>(fd, cb). (cb, fd)) (filter (\<lambda>(fd, _). P fd) m))"
  using assms(1,2)
proof (induction m)
  case Nil
  have "concat (map (\<lambda>fd. if P fd then [] else []) L) = ([] :: ('b \<times> 'a) list)" by (induction L) auto
  then show ?case by (simp add: if_distrib cong: if_cong)
next
  case (Cons kc m)
  obtain k c where kc: "kc = (k, c)" by (cases kc)
  with Cons.prems obtain L1 L2 where L: "L = L1 @ k # L2" by (auto dest: split_list)
  with assms(3) have notin: "k \<notin> set L1" "k \<notin> set L2" by auto
  let ?f = "\<lambda>m fd. if P fd then case map_of m fd of None \<Rightarrow> [] | Some cb \<Rightarrow> [(cb, fd)] else []"
  have same: "map (?f (kc # m)) L1 = map (?f m) L1" "map (?f (kc # m)) L2 = map (?f m) L2"
    using notin by (auto simp: kc)
  have "map_of m k = None" using Cons.prems(1) kc by (auto simp: map_of_eq_None_iff)
  then have "mset (concat (map (?f (kc # m)) L)) = mset (concat (map (?f m) L))
      + (if P k then {#(c, k)#} else {#})"
    unfolding L map_append list.map same by (simp add: kc)
  then show ?case using Cons kc by simp
qed

lemma mset_concat_append:
  "mset (concat (map (\<lambda>x. f x @ g x) xs)) = mset (concat (map f xs)) + mset (concat (map g xs))"
  by (induction xs) auto

lemma last_key_max:
  "map_sorted m \<Longrightarrow> (fd, cb) \<in> set m \<Longrightarrow> fd \<le> map_max_key m"
proof (induction m)
  case (Cons kv m)
  then show ?case
    by (cases kv; cases m rule: rev_cases) (fastforce simp: map_max_key_def map_sorted_def sorted_wrt_append)+
qed simp

text \<open>C30: for descriptors below 1024 the \<open>select\<close> and the \<open>poll\<close> multiplexer make the same calls, each
  once, up to order: the read callbacks of the readable and the write callbacks of the writable
  descriptors.\<close>

theorem select_poll_same_calls:
  assumes "map_sorted (rd_sockets mx)" "map_sorted (wr_sockets mx)"
    and "\<forall>fd\<in>set (map fst (rd_sockets mx) @ map fst (wr_sockets mx)). 0 \<le> fd \<and> fd \<le> kMaxSelectFds"
  shows "\<exists>calls. Select_CheckOnce (\<lambda>_. mx) note_call (select_answer readable writable) [] = Inr calls
    \<and> Poll_CheckOnce (\<lambda>_. mx) note_call (poll_answer readable writable) []
        = Inr (ready_calls mx readable writable)
    \<and> mset calls = mset (ready_calls mx readable writable)"
proof -
  let ?rds = "map fst (rd_sockets mx)" and ?wrs = "map fst (wr_sockets mx)"
  let ?L = "[0..select_max_fd mx]"
  let ?ev = "\<lambda>fd. (fd, fd \<in> set (filter readable ?rds), fd \<in> set (filter writable ?wrs))"
  let ?one = "\<lambda>m P fd. if P fd then case map_of m fd of None \<Rightarrow> [] | Some cb \<Rightarrow> [(cb, fd)] else []"
  have step: "calls_of mx (?ev fd) = ?one (rd_sockets mx) readable fd @ ?one (wr_sockets mx) writable fd" for fd
    by (auto simp: calls_of_def map_find_def split: option.split dest: map_of_SomeD)
      (force dest: map_of_SomeD simp: image_iff)+
  have range: "set ?rds \<subseteq> set ?L" "set ?wrs \<subseteq> set ?L"
    using assms last_key_max [OF assms(1)] last_key_max [OF assms(2)]
    by (force simp: select_max_fd_def Let_def)+
  have "mset (concat (map (calls_of mx) (map ?ev ?L)))
      = mset (concat (map (?one (rd_sockets mx) readable) ?L)) + mset (concat (map (?one (wr_sockets mx) writable) ?L))"
    unfolding map_map comp_def step by (rule mset_concat_append)
  also have "\<dots> = mset (ready_calls mx readable writable)"
    using calls_over_range [OF map_sorted_distinct [OF assms(1)] range(1), of readable]
      calls_over_range [OF map_sorted_distinct [OF assms(2)] range(2), of writable]
    by (simp add: ready_calls_def)
  finally have "mset (concat (map (calls_of mx) (map ?ev ?L))) = mset (ready_calls mx readable writable)" .
  moreover have "\<not> (\<exists>fd\<in>set (?rds @ ?wrs). fd < 0 \<or> kMaxSelectFds < fd)"
    using assms(3) by (meson not_le)
  then have "Select_CheckOnce (\<lambda>_. mx) note_call (select_answer readable writable) []
      = Inr (concat (map (calls_of mx) (map ?ev ?L)))"
    by (simp add: Select_CheckOnce_def Let_def select_answer_def deliver_all_calls)
  ultimately show ?thesis using poll_calls [OF assms(1,2), of readable writable "[]"] by simp
qed

definition example_mux :: "string multiplexer" where
  "example_mux = \<lparr>mx_type = MT_POLL, rd_sockets = [(4, ''accept''), (7, ''recv'')],
     wr_sockets = [(7, ''send'')], ctl_log = []\<rparr>"

theorem select_poll_same_calls_witness:
  "\<exists>calls. Select_CheckOnce (\<lambda>_. example_mux) note_call (select_answer (\<lambda>fd. fd = 7) (\<lambda>_. True)) [] = Inr calls
    \<and> mset calls = {#(''recv'', 7), (''send'', 7)#}"
  using select_poll_same_calls [of example_mux "\<lambda>fd. fd = 7" "\<lambda>_. True"]
  by (auto simp: example_mux_def kMaxSelectFds_def ready_calls_def)

section \<open>A descriptor that is used again\<close>

text \<open>A callback that is deleted stays registered until the next round: until then a new connection
  that gets the same descriptor is refused, and afterwards it can be registered.\<close>

lemma deletion_is_delayed:
  assumes "map_sorted (rd_sockets (em_multiplexer em))" "mx_type (em_multiplexer em) \<noteq> MT_EPOLL"
    and "is_registered (rd_sockets (em_multiplexer em)) fd" "fds_to_delete em = []"
  shows "TryRegisterCallback k fd CT_READ cb (DeleteCallback fd CT_READ em)
      = Inr (False, DeleteCallback fd CT_READ em) \<and>
    (\<exists>em1. TryRegisterCallback k fd CT_READ cb (delete_pending k (DeleteCallback fd CT_READ em)) = Inr (True, em1)
      \<and> map_find (rd_sockets (em_multiplexer em1)) fd = Some cb)"
proof -
  have "rd_sockets (em_multiplexer (delete_pending k (DeleteCallback fd CT_READ em)))
      = map_erase fd (rd_sockets (em_multiplexer em))"
    "mx_type (em_multiplexer (delete_pending k (DeleteCallback fd CT_READ em))) = mx_type (em_multiplexer em)"
    using assms(2-4)
    by (simp_all add: delete_pending_def DeleteCallback_def UnregisterFd_def UnregisterFdImpl_def
        events_of_type Let_def)
  with assms show ?thesis
    by (simp add: TryRegisterCallback_def TryRegisterFd_def events_of_type DeleteCallback_def
        TryRegisterFdImpl_def map_find_assign)
qed

lemma deletion_is_delayed_example:
  "TryRegisterCallback willing_kernel 7 CT_READ ''new''
     (DeleteCallback 7 CT_READ \<lparr>em_multiplexer = example_mux, fds_to_delete = []\<rparr>)
   = Inr (False, DeleteCallback 7 CT_READ \<lparr>em_multiplexer = example_mux, fds_to_delete = []\<rparr>)"
  using deletion_is_delayed [of "\<lparr>em_multiplexer = example_mux, fds_to_delete = []\<rparr>" 7 willing_kernel "''new''"]
  by (simp add: example_mux_def is_registered_def map_find_def)

end
