(* ===== verification/LocationConfig.thy ===== *)
theory LocationConfig
  imports Http
begin

text \<open>
  \<open>src/config/LocationConfig.h\<close> and \<open>LocationConfig.cpp\<close>: the settings of one location, their
  defaults, and the constructor, which refuses a redirect whose status is no HTTP status.
\<close>

record location_config =
  lc_route :: "string \<times> bool"
  lc_allowed_methods :: "http_method list"
  lc_redirect :: "int \<times> string"
  lc_is_cgi :: bool
  lc_cgi_extensions :: "string list"
  lc_alias_dir :: string
  lc_default_files :: "string list"
  lc_dir_listing :: bool
  lc_client_max_body_size :: "32 word"
  lc_upload_dir :: string

definition kDefaultAliasDir :: string where
  [eval_simps]: "kDefaultAliasDir = ''/docs''"

definition kDefaultClientMaxBodySize :: "32 word" where
  [eval_simps]: "kDefaultClientMaxBodySize = push_bit 20 2"

definition kDefaultIndexFile :: "string list" where
  [eval_simps]: "kDefaultIndexFile = [''index.html'']"

definition kDefaultDirListing :: bool where
  [eval_simps]: "kDefaultDirListing = False"

definition kDefaultAllowedMethods :: "http_method list" where
  [eval_simps]: "kDefaultAllowedMethods = [HTTP_GET]"

definition kDefaultCgiExtensions :: "string list" where
  [eval_simps]: "kDefaultCgiExtensions = [''.py'', ''.php'']"

definition kDefaultRoute :: "string \<times> bool" where
  [eval_simps]: "kDefaultRoute = (''/'', False)"

text \<open>
  \<open>IsCgiLocation\<close> looks only at the first \<open>/cgi-bin/\<close> of the route; the read one past it is in
  range, since the string ends in a NUL.
\<close>

definition cgi_prefix :: string where [eval_simps]: "cgi_prefix = ''/cgi-bin/''"

definition IsCgiLocation :: "string \<Rightarrow> bool" where
  [eval_simps]: "IsCgiLocation route =
     (case str_find route cgi_prefix 0 of
        None \<Rightarrow> False
      | Some p \<Rightarrow> c_at route (p + length cgi_prefix) = NUL)"

definition InitRedirect :: "int \<times> string \<Rightarrow> (int \<times> string) outcome" where
  [eval_simps]: "InitRedirect v =
     (if snd v = [] then Inr v
      else if fst v < 100 \<or> 599 < fst v then Inl Runtime_error
      else Inr v)"

definition LocationConfig_new ::
  "string \<times> bool \<Rightarrow> http_method list \<Rightarrow> int \<times> string \<Rightarrow> string list \<Rightarrow> string \<Rightarrow> string list \<Rightarrow> bool
    \<Rightarrow> 32 word \<Rightarrow> string \<Rightarrow> location_config outcome" where
  [eval_simps]: "LocationConfig_new route methods redirect exts alias default_files dir_listing max_body
      upload_dir =
     bind_outcome (InitRedirect redirect) (\<lambda>r. Inr
       \<lparr>lc_route = route, lc_allowed_methods = methods, lc_redirect = r,
        lc_is_cgi = IsCgiLocation (fst route), lc_cgi_extensions = exts, lc_alias_dir = alias,
        lc_default_files = default_files, lc_dir_listing = dir_listing,
        lc_client_max_body_size = max_body, lc_upload_dir = upload_dir\<rparr>)"

lemma IsCgiLocation_suffix:
  assumes "NUL \<notin> set route" "IsCgiLocation route"
  shows "suffix cgi_prefix route"
proof -
  from assms(2) obtain p where p: "find_sub cgi_prefix route = Some p"
    "c_at route (p + length cgi_prefix) = NUL"
    by (auto simp: IsCgiLocation_def str_find_def split: option.splits)
  from find_sub_Some [OF p(1)]
  have le: "p + length cgi_prefix \<le> length route" and pre: "prefix cgi_prefix (drop p route)" by auto
  have "\<not> p + length cgi_prefix < length route"
    using p(2) assms(1) nth_mem [of "p + length cgi_prefix" route]
    by (metis c_at_def)
  with le have "length (drop p route) = length cgi_prefix" by simp
  moreover from pre obtain zs where zs: "drop p route = cgi_prefix @ zs" by (auto simp: prefix_def)
  ultimately have "length zs = 0" by (metis add_cancel_right_right length_append)
  with zs have "drop p route = cgi_prefix" by simp
  then show ?thesis by (metis append_take_drop_id suffixI)
qed

end
