(* ===== verification/Location.thy ===== *)
theory Location
  imports LocationConfig Request
begin

text \<open>
  \<open>src/server/Location.h\<close> and \<open>Location.cpp\<close>, a location and the matching of its route, and
  \<open>src/server/utils/utils.cpp\<close>: the file a request path names and the types by extension.
\<close>

record location =
  loc_route :: "string \<times> bool"
  loc_allowed_methods :: "http_method list"
  loc_redirect :: "int \<times> string"
  loc_is_cgi :: bool
  loc_cgi_extensions :: "string list"
  loc_alias_dir :: string
  loc_default_files :: "string list"
  loc_dir_listing :: bool
  loc_client_max_body_size :: "32 word"
  loc_upload_dir :: string

definition Location_new :: "location_config \<Rightarrow> location" where
  [eval_simps]: "Location_new cfg =
     \<lparr>loc_route = lc_route cfg, loc_allowed_methods = lc_allowed_methods cfg,
      loc_redirect = lc_redirect cfg, loc_is_cgi = lc_is_cgi cfg,
      loc_cgi_extensions = lc_cgi_extensions cfg, loc_alias_dir = lc_alias_dir cfg,
      loc_default_files = lc_default_files cfg, loc_dir_listing = lc_dir_listing cfg,
      loc_client_max_body_size = lc_client_max_body_size cfg,
      loc_upload_dir = lc_upload_dir cfg\<rparr>"

text \<open>\<open>path.compare(0, n, route) == 0\<close>, with \<open>n\<close> the length of the route, is \<open>prefix\<close>.\<close>

definition MatchUriPath :: "string \<Rightarrow> string \<times> bool \<Rightarrow> string \<times> bool" where
  [eval_simps]: "MatchUriPath path route =
     (let route_path = fst route; is_exact_match = snd route in
      if path = route_path then (route_path, is_exact_match)
      else if \<not> is_exact_match \<and> prefix route_path path then (route_path, False)
      else ([], False))"

definition MatchedRoute :: "location \<Rightarrow> request \<Rightarrow> string \<times> bool" where
  [eval_simps]: "MatchedRoute l rq = MatchUriPath (get_component (rt_path (rq_target rq))) (loc_route l)"

text \<open>A method is printed by its number.\<close>

definition Location_GetDebugString :: "location \<Rightarrow> string" where
  [eval_simps]: "Location_GetDebugString l =
     [LF] @ ''--Location configuration: --'' @ [LF] @
     ''Route: '' @ fst (loc_route l) @ '' '' @
     (if snd (loc_route l) then ''(exact match)'' else ''(prefix match)'') @ [LF] @
     ''Allowed methods: '' @
     concat (map (\<lambda>m. ''  '' @ NumericToString (method_number m)) (loc_allowed_methods l)) @ [LF] @
     ''Redirect: '' @
     (if fst (loc_redirect l) \<noteq> 0
      then NumericToString (fst (loc_redirect l)) @ '' '' @ snd (loc_redirect l) else ''None'') @ [LF] @
     ''CGI: '' @ (if loc_is_cgi l then ''enabled'' else ''disabled'') @ [LF] @
     ''CGI extensions: '' @ concat (map (\<lambda>x. ''  '' @ x) (loc_cgi_extensions l)) @ [LF] @
     ''Alias directory: '' @ loc_alias_dir l @ [LF] @
     ''Default files: '' @ concat (map (\<lambda>x. ''  '' @ x) (loc_default_files l)) @ [LF] @
     ''Client max body size: '' @ NumericToString (uint (loc_client_max_body_size l)) @ '' bytes'' @
     [LF] @
     ''Directory listing: '' @ (if loc_dir_listing l then ''enabled'' else ''disabled'') @ [LF] @
     ''Upload Dir: '' @ loc_upload_dir l @ [LF]"

section \<open>Server utilities\<close>

definition kDefaultContentType :: string where
  [eval_simps]: "kDefaultContentType = ''application/octet-stream''"

definition GetTypeByExt :: "string \<Rightarrow> string" where
  [eval_simps]: "GetTypeByExt ext =
     (if ext = ''.html'' then ''text/html''
      else if ext = ''.css'' then ''text/css''
      else if ext = ''.js'' then ''application/javascript''
      else if ext = ''.txt'' then ''text/plain''
      else if ext = ''.png'' then ''image/png''
      else if ext = ''.jpg'' \<or> ext = ''.jpeg'' then ''image/jpeg''
      else if ext = ''.gif'' then ''image/gif''
      else if ext = ''.ico'' then ''image/x-icon''
      else if ext = ''.pdf'' then ''application/pdf''
      else if ext = ''.json'' then ''application/json''
      else kDefaultContentType)"

definition GetInterpreterByExt :: "string \<Rightarrow> string" where
  [eval_simps]: "GetInterpreterByExt filename =
     (case str_find_last_of filename (CHR ''.'') of
        None \<Rightarrow> []
      | Some p \<Rightarrow>
          (let ext = drop p filename in
           if ext = ''.py'' then ''/usr/bin/python3''
           else if ext = ''.php'' then ''/usr/bin/php''
           else if ext = ''.pl'' then ''/usr/bin/perl''
           else if ext = ''.sh'' then ''/bin/sh''
           else []))"

text \<open>
  \<open>UpdatePath\<close>: both \<open>substr\<close> calls throw when their position is beyond the end, for an empty
  alias or a prefix longer than the path.
\<close>

definition join_paths :: "string \<Rightarrow> string \<Rightarrow> string" where
  [eval_simps]: "join_paths updated_path remaining_path =
     (if remaining_path = [] \<or> remaining_path = ''/'' then updated_path
      else
        (if updated_path \<noteq> [] \<and> last updated_path = CHR ''/'' then butlast updated_path
         else updated_path) @ ''/'' @
        (if remaining_path \<noteq> [] \<and> hd remaining_path = CHR ''/'' then tl remaining_path
         else remaining_path))"

definition UpdatePath :: "string \<Rightarrow> string \<Rightarrow> string \<Rightarrow> string outcome" where
  [eval_simps]: "UpdatePath loc matched_prefix uri_path =
     bind_outcome (substr_from loc 1) (\<lambda>updated_path.
     bind_outcome (substr_from uri_path (length matched_prefix)) (\<lambda>remaining_path.
     Inr (join_paths updated_path remaining_path)))"

text \<open>
  \<open>CheckFileExtension\<close> of \<open>src/utils/file_utils.cpp\<close>: the byte it reads at \<open>size() - 6\<close> is outside
  the string when the name is shorter than six bytes (the read at \<open>size()\<close> would be the NUL).
\<close>

definition CheckFileExtension :: "string \<Rightarrow> string \<Rightarrow> bool outcome" where
  [eval_simps]: "CheckFileExtension file extention =
     (if length extention < length file \<and> length file < 6 then Inl Undefined_behaviour
      else if length extention < length file \<and> file ! (length file - 6) = CHR ''/'' then Inr False
      else Inr (length extention < length file \<and>
        (case str_find_last_of file (CHR ''.'') of None \<Rightarrow> False | Some p \<Rightarrow> drop p file = extention)))"

section \<open>The path of the file\<close>

text \<open>The segments of a path that the file system goes through; \<open>..\<close> is the only way up.\<close>

definition climbs :: "string \<Rightarrow> bool" where
  [eval_simps]: "climbs p \<longleftrightarrow> ''..'' \<in> set (split_on (CHR ''/'') p)"

lemma split_on_butlast_sep:
  "p \<noteq> [] \<Longrightarrow> last p = c \<Longrightarrow> split_on c p = split_on c (butlast p) @ [[]]"
  using split_on_append_sep [of c "butlast p" "[]"] append_butlast_last_id [of p] by simp

lemma split_on_later_fields: "set (tl (split_on c t)) \<subseteq> set (split_on c (s @ t))"
proof -
  have "set (tl (split_on c t)) \<subseteq> set (tl (split_on c (s @ t)))"
  proof (induction s)
    case (Cons x s)
    have "set (tl (split_on c (s @ t))) \<subseteq> set (tl (split_on c (x # s @ t)))"
      by (cases "split_on c (s @ t)") auto
    with Cons show ?case by simp
  qed simp
  also have "\<dots> \<subseteq> set (split_on c (s @ t))" by (cases "split_on c (s @ t)") auto
  finally show ?thesis .
qed

lemma split_on_fields_after: "set (split_on c t) \<subseteq> set (split_on c (s @ c # t))"
  by (simp add: split_on_append_sep)

lemma split_on_leading: "split_on c (c # t) = [] # split_on c t"
  by simp

text \<open>What the path keeps of its fields behind a route that ends at a slash.\<close>

lemma fields_behind_route:
  assumes "prefix route path" "route \<noteq> []"
    and "last route = c \<or> drop (length route) path = [] \<or> hd (drop (length route) path) = c"
  shows "set (split_on c (drop (length route) path)) \<subseteq> insert [] (set (split_on c path))"
proof -
  obtain rest where path: "path = route @ rest" using assms(1) by (auto simp: prefix_def)
  consider "last route = c" | "rest = []" | t where "rest = c # t"
    using assms(3) path by (cases rest) auto
  then show ?thesis
  proof cases
    case 1
    then have "path = butlast route @ c # rest"
      using append_butlast_last_id [OF assms(2)] path by (metis append.assoc append_Cons append_Nil)
    then have "set (split_on c rest) \<subseteq> set (split_on c path)"
      using split_on_fields_after [of c rest "butlast route"] by metis
    then show ?thesis by (auto simp: path)
  next
    case 3
    then show ?thesis using split_on_fields_after [of c t route] path by auto
  qed (simp add: path)
qed

lemma join_paths_fields:
  "set (split_on (CHR ''/'') (join_paths dir rest))
     \<subseteq> insert [] (set (split_on (CHR ''/'') dir) \<union> set (split_on (CHR ''/'') rest))"
proof -
  have dir: "set (split_on (CHR ''/'') (if dir \<noteq> [] \<and> last dir = CHR ''/'' then butlast dir else dir))
      \<subseteq> insert [] (set (split_on (CHR ''/'') dir))"
    using split_on_butlast_sep [of dir "CHR ''/''"] by auto
  have rest: "set (split_on (CHR ''/'') (if rest \<noteq> [] \<and> hd rest = CHR ''/'' then tl rest else rest))
      \<subseteq> insert [] (set (split_on (CHR ''/'') rest))"
    by (cases rest) auto
  show ?thesis
    using dir rest by (auto simp: join_paths_def split_on_append_sep split: if_splits)
qed

definition strip_slash :: "string \<Rightarrow> string" where
  [eval_simps]: "strip_slash dir = (if dir \<noteq> [] \<and> last dir = CHR ''/'' then butlast dir else dir)"

text \<open>Below a directory: the directory itself, or its name, a slash and more.\<close>

definition below :: "string \<Rightarrow> string \<Rightarrow> bool" where
  [eval_simps]: "below dir p \<longleftrightarrow> p = dir \<or> prefix (dir @ ''/'') p"

lemma below_sibling: "c \<noteq> CHR ''/'' \<Longrightarrow> \<not> below dir (dir @ c # x)"
  by (simp add: below_def)

lemma join_paths_below: "below (strip_slash dir) (join_paths dir rest)"
  using append_butlast_last_id [of dir] by (auto simp: join_paths_def strip_slash_def below_def simp del: append_butlast_last_id)

lemma UpdatePath_eq:
  "UpdatePath (CHR ''/'' # dir) route (route @ rest) = Inr (join_paths dir rest)"
  by (simp add: UpdatePath_def substr_from_def)

lemma UpdatePath_below:
  assumes "prefix route path" "route \<noteq> []" "\<not> climbs path" "\<not> climbs dir"
    and "last route = CHR ''/'' \<or> drop (length route) path = []
      \<or> hd (drop (length route) path) = CHR ''/''"
  shows "\<exists>p. UpdatePath (CHR ''/'' # dir) route path = Inr p \<and> below (strip_slash dir) p \<and> \<not> climbs p"
proof -
  obtain rest where path: "path = route @ rest" using assms(1) by (auto simp: prefix_def)
  have "set (split_on (CHR ''/'') rest) \<subseteq> insert [] (set (split_on (CHR ''/'') path))"
    using fields_behind_route [OF assms(1,2), of "CHR ''/''"] assms(5) path by simp
  then have "\<not> climbs (join_paths dir rest)"
    using join_paths_fields [of dir rest] assms(3,4) by (auto simp: climbs_def)
  then show ?thesis using UpdatePath_eq [of dir route rest] join_paths_below [of dir rest] path by auto
qed

text \<open>A request below a location is mapped below the directory of its alias, when the route
  ends at the boundary of a path segment: the file starts with the directory and has no \<open>..\<close>.\<close>

lemma UpdatePath_stays_below:
  assumes "prefix route path" "route \<noteq> []" "\<not> climbs path" "\<not> climbs dir"
    and "last route = CHR ''/'' \<or> drop (length route) path = []
      \<or> hd (drop (length route) path) = CHR ''/''"
  shows "\<exists>p. UpdatePath (CHR ''/'' # dir) route path = Inr p \<and> below (strip_slash dir) p \<and> \<not> climbs p"
  by (rule UpdatePath_below [OF assms])

lemma UpdatePath_stays_below_example:
  "\<exists>p. UpdatePath ''/docs/img/'' ''/img/'' ''/img/a/b.png'' = Inr p \<and> below ''docs/img'' p \<and> \<not> climbs p"
  using UpdatePath_stays_below [of "''/img/''" "''/img/a/b.png''" "''docs/img/''"]
  by (simp add: climbs_def strip_slash_def)

text \<open>
  The first slash of an alias is taken away, so that it is a directory of the server; but a slash is put
  before what follows, and of the alias that is only a slash nothing is left: its files are those of the
  root of the file system.
\<close>

lemma UpdatePath_root_alias:
  "rest \<noteq> [] \<Longrightarrow> hd rest \<noteq> CHR ''/'' \<Longrightarrow> UpdatePath ''/'' route (route @ rest) = Inr (CHR ''/'' # rest)"
  by (auto simp: UpdatePath_eq [of "[]", simplified] join_paths_def)

lemma UpdatePath_root_alias_example: "UpdatePath ''/'' ''/'' ''/etc/passwd'' = Inr ''/etc/passwd''"
  using UpdatePath_root_alias [of "''etc/passwd''" "''/''"] by simp

text \<open>C21: without that boundary a request leaves the directory: a location of a prefix route
  without a slash at its end also serves the route followed by \<open>../\<close> and anything, which is no
  dot segment of the request, and the file it maps to is above the alias.\<close>

theorem UpdatePath_climbs_out:
  assumes "dir \<noteq> []" "last dir \<noteq> CHR ''/''"
  shows "MatchUriPath (route @ ''../'' @ x) (route, False) = (route, False) \<and>
    UpdatePath (CHR ''/'' # dir) route (route @ ''../'' @ x) = Inr (dir @ ''/../'' @ x)"
  using assms by (simp add: MatchUriPath_def UpdatePath_eq join_paths_def)

theorem UpdatePath_climbs_out_witness:
  "\<exists>t. RqTarget_of_raw ''/img../secret'' = Inr t \<and> Good t \<and>
     MatchUriPath (get_component (rt_path t)) (''/img'', False) = (''/img'', False) \<and>
     UpdatePath ''/docs/img'' ''/img'' (get_component (rt_path t)) = Inr ''docs/img/../secret''"
proof -
  have "\<exists>t. RqTarget_of_raw ''/img../secret'' = Inr t \<and> Good t
      \<and> get_component (rt_path t) = ''/img../secret''"
    by (simp add: eval_simps str_simps remove_dots.simps)
  then show ?thesis using UpdatePath_climbs_out [of "''docs/img''" "''/img''" "''secret''"] by auto
qed

end
