(* ===== verification/ServerConfig.thy ===== *)
theory ServerConfig
  imports LocationConfig
begin

text \<open>
  \<open>src/config/ServerConfig.h\<close> and \<open>ServerConfig.cpp\<close>, the settings of one virtual server, and the
  severities of \<open>src/utils/logger.h\<close>.  An address is an \<open>in_addr_t\<close> in network order, kept as the
  32-bit word the code has, a port a 16-bit word.
\<close>

datatype severity = DEBUG | INFO | WARNING | ERROR | FATAL

fun severity_number :: "severity \<Rightarrow> int" where
  "severity_number DEBUG = 0"
| "severity_number INFO = 1"
| "severity_number WARNING = 2"
| "severity_number ERROR = 3"
| "severity_number FATAL = 4"

text \<open>
  \<open>Logger::log\<close> picks the stream: nothing below the threshold, the output stream below
  \<open>WARNING\<close>, the error stream from there on; and ending a line of severity \<open>FATAL\<close> throws.
\<close>

datatype log_stream = Null_stream | Out_stream | Err_stream

definition Logger_log :: "severity \<Rightarrow> severity \<Rightarrow> log_stream" where
  [eval_simps]: "Logger_log threshold sev =
     (if severity_number sev < severity_number threshold then Null_stream
      else if severity_number sev < severity_number WARNING then Out_stream else Err_stream)"

definition LogWrapper_end :: "severity \<Rightarrow> unit outcome" where
  [eval_simps]: "LogWrapper_end sev = (if sev = FATAL then Inl Runtime_error else Inr ())"

type_synonym listener = "32 word \<times> 16 word"

record server_config =
  sc_access_log_path :: string
  sc_access_log_level :: severity
  sc_error_log_path :: string
  sc_listeners :: "listener list"
  sc_server_names :: "string list"
  sc_locations :: "location_config list"

definition ServerConfig_new ::
  "string \<times> severity \<Rightarrow> string \<Rightarrow> listener list \<Rightarrow> string list \<Rightarrow> location_config list \<Rightarrow> server_config"
  where
  [eval_simps]: "ServerConfig_new access_log error_log_path listeners server_names locations =
     \<lparr>sc_access_log_path = fst access_log, sc_access_log_level = snd access_log,
      sc_error_log_path = error_log_path, sc_listeners = listeners,
      sc_server_names = server_names, sc_locations = locations\<rparr>"

definition kDefaultAccessLogLevel :: severity where
  [eval_simps]: "kDefaultAccessLogLevel = INFO"

definition kDefaultAccessLogPath :: string where
  [eval_simps]: "kDefaultAccessLogPath = []"

definition kDefaultErrorLogPath :: string where
  [eval_simps]: "kDefaultErrorLogPath = []"

definition kDefaultIPAddress :: "32 word" where
  [eval_simps]: "kDefaultIPAddress = 0"

definition kDefaultPort :: "16 word" where
  [eval_simps]: "kDefaultPort = 8080"

end
