(* ===== verification/Server.thy ===== *)
theory Server
  imports Location ServerConfig
begin

text \<open>
  \<open>src/server/Server.h\<close> and \<open>Server.cpp\<close>: the choice of a location for a request and of a virtual
  server for a host name.  Both are loops that keep the best candidate so far; the locale
  \<open>best_match\<close> states what such a loop finds for any strict weak order on the scores.
\<close>

section \<open>State\<close>

datatype match_type = NO_MATCH | SUFFIX_MATCH | PREFIX_MATCH | EXACT_MATCH

fun match_number :: "match_type \<Rightarrow> nat" where
  "match_number NO_MATCH = 0"
| "match_number SUFFIX_MATCH = 1"
| "match_number PREFIX_MATCH = 2"
| "match_number EXACT_MATCH = 3"

datatype location_type = CGI | STATIC_PATH | NO_LOCATION | REDIRECT

record server =
  access_log_path :: string
  access_log_level :: severity
  error_log_path :: string
  server_names :: "string list"
  error_pages :: "(int, string) std_map"
  locations :: "location list"

definition Server_new :: "server_config \<Rightarrow> (int, string) std_map \<Rightarrow> server" where
  [eval_simps]: "Server_new cfg pages =
     \<lparr>access_log_path = sc_access_log_path cfg, access_log_level = sc_access_log_level cfg,
      error_log_path = sc_error_log_path cfg, server_names = sc_server_names cfg,
      error_pages = pages, locations = map Location_new (sc_locations cfg)\<rparr>"

definition server_name :: "server \<Rightarrow> string" where
  [eval_simps]: "server_name srv = (if server_names srv = [] then [] else hd (server_names srv))"

text \<open>Where a request goes: the server, the location once it is chosen, and the mapped path.\<close>

record request_destination =
  rd_server :: server
  rd_loc :: "location option"
  rd_updated_path :: string

definition RequestDestination_new :: "server \<Rightarrow> request_destination" where
  [eval_simps]: "RequestDestination_new srv =
     \<lparr>rd_server = srv, rd_loc = None, rd_updated_path = []\<rparr>"

section \<open>Keeping the best candidate\<close>

primrec best_of ::
  "('r \<Rightarrow> 'r \<Rightarrow> bool) \<Rightarrow> ('x \<Rightarrow> 'r) \<Rightarrow> 'r \<times> 'x option \<Rightarrow> 'x list \<Rightarrow> 'r \<times> 'x option" where
  "best_of beats score best [] = best"
| "best_of beats score best (x # xs) =
     best_of beats score (if beats (score x) (fst best) then (score x, Some x) else best) xs"

locale best_match =
  fixes beats :: "'r \<Rightarrow> 'r \<Rightarrow> bool"
  assumes beats_irrefl: "\<not> beats a a"
    and beats_trans: "beats a b \<Longrightarrow> beats b c \<Longrightarrow> beats a c"
    and beats_weak: "beats a c \<Longrightarrow> beats a b \<or> beats b c"
begin

lemma best_of_none:
  "\<forall>x\<in>set xs. \<not> beats (score x) (fst best) \<Longrightarrow> best_of beats score best xs = best"
  by (induction xs arbitrary: best) auto

lemma best_of_some:
  assumes "\<exists>x\<in>set xs. beats (score x) (fst best)"
  shows "\<exists>pre x post. xs = pre @ x # post \<and> best_of beats score best xs = (score x, Some x)
    \<and> beats (score x) (fst best) \<and> (\<forall>y\<in>set pre. beats (score x) (score y))
    \<and> (\<forall>y\<in>set post. \<not> beats (score y) (score x))"
  using assms
proof (induction xs arbitrary: best)
  case (Cons x xs)
  let ?best = "if beats (score x) (fst best) then (score x, Some x) else best"
  show ?case
  proof (cases "\<exists>y\<in>set xs. beats (score y) (fst ?best)")
    case True
    from Cons.IH [OF True] obtain pre y post where y: "xs = pre @ y # post"
      "best_of beats score ?best xs = (score y, Some y)" "beats (score y) (fst ?best)"
      "\<forall>z\<in>set pre. beats (score y) (score z)" "\<forall>z\<in>set post. \<not> beats (score z) (score y)"
      by blast
    have "beats (score y) (score x)"
      using y(3) beats_weak [of "score y" "fst best" "score x"]
      by (cases "beats (score x) (fst best)") auto
    moreover have "beats (score y) (fst best)"
      using y(3) beats_trans [of "score y" "score x" "fst best"] by (auto split: if_splits)
    ultimately show ?thesis
      using y by (intro exI [of _ "x # pre"] exI [of _ y] exI [of _ post]) auto
  next
    case False
    then have "best_of beats score ?best xs = ?best" by (intro best_of_none) auto
    moreover from False Cons.prems have "beats (score x) (fst best)" by (auto split: if_splits)
    ultimately show ?thesis
      using False by (intro exI [of _ "[]"] exI [of _ x] exI [of _ xs]) auto
  qed
qed simp

text \<open>The first of the best candidates is found, if any candidate beats the start.\<close>

theorem best_of_finds:
  "case best_of beats score (b, None) xs of
     (r, None) \<Rightarrow> r = b \<and> (\<forall>x\<in>set xs. \<not> beats (score x) b)
   | (r, Some x) \<Rightarrow> x \<in> set xs \<and> r = score x \<and> beats r b \<and> (\<forall>y\<in>set xs. \<not> beats (score y) r)
       \<and> (\<exists>pre post. xs = pre @ x # post \<and> (\<forall>y\<in>set pre. beats r (score y)))"
proof (cases "\<exists>x\<in>set xs. beats (score x) b")
  case True
  then have "\<exists>x\<in>set xs. beats (score x) (fst (b, None::'a option))" by simp
  from best_of_some [of xs score "(b, None)", OF this] obtain pre x post where x: "xs = pre @ x # post"
    "best_of beats score (b, None) xs = (score x, Some x)" "beats (score x) b"
    "\<forall>y\<in>set pre. beats (score x) (score y)" "\<forall>y\<in>set post. \<not> beats (score y) (score x)"
    by auto
  moreover have "\<not> beats (score y) (score x)" if "y \<in> set pre" for y
    using x(4) that beats_trans beats_irrefl by blast
  ultimately show ?thesis using beats_irrefl by auto
next
  case False
  then show ?thesis using best_of_none [of xs score "(b, None)"] by auto
qed

end

section \<open>Locations\<close>

text \<open>The comparison of the loop in \<open>ChooseLocation\<close>: \<open>>\<close> on the flags is \<open>True > False\<close>.\<close>

definition route_beats :: "string \<times> bool \<Rightarrow> string \<times> bool \<Rightarrow> bool" where
  [eval_simps]: "route_beats match_result best \<longleftrightarrow>
     length (fst best) < length (fst match_result) \<and> snd match_result = snd best \<or>
     snd best < snd match_result"

interpretation route_order: best_match route_beats
  by unfold_locales (auto simp: route_beats_def)

definition location_kind :: "location option \<Rightarrow> location_type" where
  [eval_simps]: "location_kind loc =
     (case loc of None \<Rightarrow> NO_LOCATION
      | Some l \<Rightarrow> if snd (loc_redirect l) \<noteq> [] then REDIRECT
                else if loc_is_cgi l then CGI else STATIC_PATH)"

definition ChooseLocation :: "server \<Rightarrow> request \<Rightarrow> location option \<times> location_type" where
  [eval_simps]: "ChooseLocation srv rq =
     (let matched_location =
        snd (best_of route_beats (\<lambda>l. MatchedRoute l rq) (([], False), None) (locations srv))
      in (matched_location, location_kind matched_location))"

section \<open>Server names\<close>

text \<open>
  \<open>MatchHostName\<close>: the last name that matches with a wildcard is kept, an equal name ends the
  loop.  An empty name that is not the host is read at \<open>size() - 1\<close>, out of bounds.
\<close>

definition head_wildcard :: "string \<Rightarrow> string \<Rightarrow> bool" where
  [eval_simps]: "head_wildcard host name \<longleftrightarrow>
     hd name = CHR ''*'' \<and> length name \<le> length host \<and>
     drop (length host - (length name - 1)) host = tl name"

definition tail_wildcard :: "string \<Rightarrow> string \<Rightarrow> bool" where
  [eval_simps]: "tail_wildcard host name \<longleftrightarrow>
     last name = CHR ''*'' \<and> length name \<le> length host \<and> 2 < length name \<and>
     take (length name - 1) host = butlast name"

fun match_names ::
  "string \<Rightarrow> match_type \<times> string \<Rightarrow> string list \<Rightarrow> (match_type \<times> string) outcome" where
  "match_names host best [] = Inr best"
| "match_names host best (name # names) =
     (if host = name then Inr (EXACT_MATCH, name)
      else if name = [] then Inl Undefined_behaviour
      else if head_wildcard host name then match_names host (PREFIX_MATCH, name) names
      else if tail_wildcard host name then match_names host (SUFFIX_MATCH, name) names
      else match_names host best names)"

definition MatchHostName :: "string \<Rightarrow> string list \<Rightarrow> (match_type \<times> string) outcome" where
  [eval_simps]: "MatchHostName host names = match_names host (NO_MATCH, []) names"

text \<open>\<open>value()\<close> of a missing \<open>Host\<close> header throws.\<close>

definition MatchedServerName :: "server \<Rightarrow> request \<Rightarrow> (match_type \<times> string) outcome" where
  [eval_simps]: "MatchedServerName srv rq =
     (case GetHeaderVal rq ''host'' of
        None \<Rightarrow> Inl Runtime_error
      | Some host \<Rightarrow> MatchHostName host (server_names srv))"

definition Server_GetDebugString :: "server \<Rightarrow> string" where
  [eval_simps]: "Server_GetDebugString srv =
     [LF, HT] @ ''--Server information: --'' @
     [LF, HT] @ ''Access log path: '' @ access_log_path srv @
     [LF, HT] @ ''Access log level: '' @ NumericToString (severity_number (access_log_level srv)) @
     [LF, HT] @ ''Error log path: '' @ error_log_path srv @
     [LF, HT] @ ''Server names:'' @
     concat (map (\<lambda>n. '' '' @ n) (server_names srv)) @
     concat (map Location_GetDebugString (locations srv))"

text \<open>The comparison of the loop in \<open>ServerCluster::ChooseServer\<close>.\<close>

definition name_beats :: "match_type \<times> string \<Rightarrow> match_type \<times> string \<Rightarrow> bool" where
  [eval_simps]: "name_beats match_result best \<longleftrightarrow>
     length (snd best) < length (snd match_result) \<and> fst match_result = fst best \<or>
     match_number (fst best) < match_number (fst match_result)"

lemma match_number_inject [simp]: "match_number a = match_number b \<longleftrightarrow> a = b"
  by (cases a; cases b) simp_all

interpretation name_order: best_match name_beats
proof
  fix a b c :: "match_type \<times> string"
  show "name_beats a c \<Longrightarrow> name_beats a b \<or> name_beats b c"
    unfolding name_beats_def using linorder_neqE_nat match_number_inject by fastforce
qed (auto simp: name_beats_def)

section \<open>What the choices mean\<close>

text \<open>A route serves a path that equals it or, unless it asks for an exact match, starts with it.\<close>

definition route_serves :: "string \<times> bool \<Rightarrow> string \<Rightarrow> bool" where
  [eval_simps]: "route_serves route path \<longleftrightarrow>
     (if snd route then path = fst route else fst route \<noteq> [] \<and> prefix (fst route) path)"

definition target_path :: "request \<Rightarrow> string" where
  [eval_simps]: "target_path rq = get_component (rt_path (rq_target rq))"

lemma MatchedRoute_serves:
  "route_serves (loc_route l) (target_path rq) \<Longrightarrow> MatchedRoute l rq = loc_route l"
  by (cases "loc_route l")
    (auto simp: route_serves_def MatchedRoute_def MatchUriPath_def target_path_def split: if_splits)

lemma MatchedRoute_not_serves:
  "\<not> route_serves (loc_route l) (target_path rq) \<Longrightarrow> MatchedRoute l rq = ([], False)"
  by (cases "loc_route l")
    (auto simp: route_serves_def MatchedRoute_def MatchUriPath_def target_path_def split: if_splits)

lemma route_beats_none: "route_beats (MatchedRoute l rq) ([], False) \<longleftrightarrow>
    route_serves (loc_route l) (target_path rq)"
proof (cases "route_serves (loc_route l) (target_path rq)")
  case True
  then show ?thesis
    by (cases "loc_route l") (auto simp: MatchedRoute_serves route_beats_def route_serves_def split: if_splits)
qed (simp add: MatchedRoute_not_serves route_beats_def)

lemma location_chosen:
  "case ChooseLocation srv rq of
     (None, t) \<Rightarrow> t = NO_LOCATION \<and>
       (\<forall>l\<in>set (locations srv). \<not> route_serves (loc_route l) (target_path rq))
   | (Some l, t) \<Rightarrow> t \<noteq> NO_LOCATION \<and> route_serves (loc_route l) (target_path rq) \<and>
       (\<exists>pre post. locations srv = pre @ l # post \<and>
         (\<forall>m\<in>set (pre @ l # post). route_serves (loc_route m) (target_path rq) \<longrightarrow>
           \<not> route_beats (loc_route m) (loc_route l)) \<and>
         (\<forall>m\<in>set pre. route_serves (loc_route m) (target_path rq) \<longrightarrow>
           route_beats (loc_route l) (loc_route m)))"
proof -
  let ?score = "\<lambda>l. MatchedRoute l rq"
  note finds = route_order.best_of_finds
    [where score = ?score and b = "([], False)" and xs = "locations srv"]
  show ?thesis
  proof (cases "snd (best_of route_beats ?score (([], False), None) (locations srv))")
    case None
    then show ?thesis
      using finds by (auto simp: ChooseLocation_def location_kind_def route_beats_none split: prod.splits)
  next
    case (Some l)
    obtain r where r: "best_of route_beats ?score (([], False), None) (locations srv) = (r, Some l)"
      using Some by (metis prod.collapse)
    from finds r have l: "r = MatchedRoute l rq" "route_beats r ([], False)"
      "\<forall>m\<in>set (locations srv). \<not> route_beats (MatchedRoute m rq) r"
      "\<exists>pre post. locations srv = pre @ l # post \<and> (\<forall>m\<in>set pre. route_beats r (MatchedRoute m rq))"
      by auto
    then have serves: "route_serves (loc_route l) (target_path rq)" by (simp add: route_beats_none)
    then have "r = loc_route l" using l(1) by (simp add: MatchedRoute_serves)
    with l(3,4) obtain pre post where "locations srv = pre @ l # post"
      "\<forall>m\<in>set (pre @ l # post). route_serves (loc_route m) (target_path rq) \<longrightarrow>
         \<not> route_beats (loc_route m) (loc_route l)"
      "\<forall>m\<in>set pre. route_serves (loc_route m) (target_path rq) \<longrightarrow>
         route_beats (loc_route l) (loc_route m)"
      by (metis MatchedRoute_serves)
    with serves show ?thesis
      using Some by (auto simp: ChooseLocation_def location_kind_def Let_def)
  qed
qed

text \<open>C19: the location of a request is the one the configuration promises: an exact route before
  any prefix, among prefixes the longest, the first of equals, and none only if none serves it.\<close>

theorem ChooseLocation_best:
  "case ChooseLocation srv rq of
     (None, t) \<Rightarrow> t = NO_LOCATION \<and>
       (\<forall>l\<in>set (locations srv). \<not> route_serves (loc_route l) (target_path rq))
   | (Some l, t) \<Rightarrow> t \<noteq> NO_LOCATION \<and> route_serves (loc_route l) (target_path rq) \<and>
       (\<exists>pre post. locations srv = pre @ l # post \<and>
         (\<forall>m\<in>set (pre @ l # post). route_serves (loc_route m) (target_path rq) \<longrightarrow>
           \<not> route_beats (loc_route m) (loc_route l)) \<and>
         (\<forall>m\<in>set pre. route_serves (loc_route m) (target_path rq) \<longrightarrow>
           route_beats (loc_route l) (loc_route m)))"
  by (rule location_chosen)

text \<open>A location without settings, for concrete inputs.\<close>

definition plain_location :: "string \<Rightarrow> bool \<Rightarrow> location" where
  [eval_simps]: "plain_location route is_exact =
     \<lparr>loc_route = (route, is_exact), loc_allowed_methods = [HTTP_GET], loc_redirect = (0, []),
      loc_is_cgi = False, loc_cgi_extensions = [], loc_alias_dir = ''/docs'',
      loc_default_files = [''index.html''], loc_dir_listing = False,
      loc_client_max_body_size = 100, loc_upload_dir = []\<rparr>"

definition example_server :: server where
  [eval_simps]: "example_server =
     \<lparr>access_log_path = [], access_log_level = INFO, error_log_path = [],
      server_names = [''example.com'', ''*.example.com''], error_pages = [],
      locations = [plain_location ''/'' False, plain_location ''/a/'' False,
        plain_location ''/a/b'' True]\<rparr>"

definition request_for :: "string \<Rightarrow> request" where
  [eval_simps]: "request_for path =
     Request_init\<lparr>rq_target := RqTarget_empty\<lparr>rt_path := maybe_of path\<rparr>,
       rq_headers := [(''host'', ''www.example.com'')], rq_method := HTTP_GET\<rparr>"

theorem ChooseLocation_best_witness:
  "ChooseLocation example_server (request_for ''/a/c'') = (Some (plain_location ''/a/'' False), STATIC_PATH)
   \<and> (\<exists>pre post. locations example_server = pre @ plain_location ''/a/'' False # post
       \<and> (\<forall>m\<in>set pre. route_serves (loc_route m) ''/a/c'' \<longrightarrow> route_beats (''/a/'', False) (loc_route m)))"
proof -
  have 1: "ChooseLocation example_server (request_for ''/a/c'')
      = (Some (plain_location ''/a/'' False), STATIC_PATH)"
    by (simp add: eval_simps)
  have 2: "target_path (request_for ''/a/c'') = ''/a/c''"
    "loc_route (plain_location ''/a/'' False) = (''/a/'', False)"
    by (simp_all add: eval_simps)
  from ChooseLocation_best [of example_server "request_for ''/a/c''"] show ?thesis
    unfolding 1 by (auto simp: 2)
qed

text \<open>The patterns of a server name: \<open>*.example.com\<close> and \<open>www.*\<close>.\<close>

definition name_kind :: "string \<Rightarrow> string \<Rightarrow> match_type" where
  "name_kind host name =
     (if \<exists>p s. p \<noteq> [] \<and> host = p @ s \<and> name = CHR ''*'' # s then PREFIX_MATCH
      else if \<exists>p s. p \<noteq> [] \<and> host = s @ p \<and> name = s @ ''*'' \<and> 1 < length s then SUFFIX_MATCH
      else NO_MATCH)"

lemma head_wildcard_iff:
  assumes "name \<noteq> []"
  shows "head_wildcard host name \<longleftrightarrow> (\<exists>p s. p \<noteq> [] \<and> host = p @ s \<and> name = CHR ''*'' # s)"
proof
  assume *: "head_wildcard host name"
  then have "name = CHR ''*'' # tl name" using assms by (cases name) (auto simp: head_wildcard_def)
  moreover have "host = take (length host - (length name - 1)) host @ tl name"
    using * by (metis append_take_drop_id head_wildcard_def)
  moreover have "take (length host - (length name - 1)) host \<noteq> []"
    using * assms by (cases name) (auto simp: head_wildcard_def)
  ultimately show "\<exists>p s. p \<noteq> [] \<and> host = p @ s \<and> name = CHR ''*'' # s" by blast
next
  assume "\<exists>p s. p \<noteq> [] \<and> host = p @ s \<and> name = CHR ''*'' # s"
  then obtain p s where "p \<noteq> []" "host = p @ s" "name = CHR ''*'' # s" by blast
  then show "head_wildcard host name" by (cases p) (auto simp: head_wildcard_def)
qed

lemma tail_wildcard_iff:
  assumes "name \<noteq> []"
  shows "tail_wildcard host name \<longleftrightarrow>
    (\<exists>p s. p \<noteq> [] \<and> host = s @ p \<and> name = s @ ''*'' \<and> 1 < length s)"
proof
  assume *: "tail_wildcard host name"
  then have "name = butlast name @ ''*''"
    using assms by (metis append_butlast_last_id tail_wildcard_def)
  moreover have "host = butlast name @ drop (length name - 1) host"
    using * by (metis append_take_drop_id tail_wildcard_def)
  moreover have "drop (length name - 1) host \<noteq> []" "1 < length (butlast name)"
    using * by (auto simp: tail_wildcard_def)
  ultimately show "\<exists>p s. p \<noteq> [] \<and> host = s @ p \<and> name = s @ ''*'' \<and> 1 < length s" by blast
next
  assume "\<exists>p s. p \<noteq> [] \<and> host = s @ p \<and> name = s @ ''*'' \<and> 1 < length s"
  then obtain p s where "p \<noteq> []" "host = s @ p" "name = s @ ''*''" "1 < length s" by blast
  then show "tail_wildcard host name" by (cases p) (auto simp: tail_wildcard_def)
qed

lemma match_names_spec:
  assumes "[] \<notin> set names"
  shows "match_names host best names = Inr
    (if host \<in> set names then (EXACT_MATCH, host)
     else case filter (\<lambda>n. name_kind host n \<noteq> NO_MATCH) names of
       [] \<Rightarrow> best
     | ns \<Rightarrow> (name_kind host (last ns), last ns))"
  using assms
proof (induction host best names rule: match_names.induct)
  case (2 host best name names)
  consider (1) "host = name" | (2) "host \<noteq> name" "head_wildcard host name"
    | (3) "host \<noteq> name" "\<not> head_wildcard host name" "tail_wildcard host name"
    | (4) "host \<noteq> name" "\<not> head_wildcard host name" "\<not> tail_wildcard host name" by blast
  moreover from 2(4) have ne: "name \<noteq> []" by auto
  have kind: "name_kind host name = (if head_wildcard host name then PREFIX_MATCH
      else if tail_wildcard host name then SUFFIX_MATCH else NO_MATCH)"
    by (simp only: name_kind_def head_wildcard_iff [OF ne] tail_wildcard_iff [OF ne])
  ultimately show ?case
    using 2 by cases (auto split: list.splits)
qed simp

text \<open>C20: among non-empty server names the host itself wins; otherwise the last name that matches as
  \<open>*\<close> and a suffix of the host, or as a prefix of the host and \<open>*\<close>, with something for the
  \<open>*\<close>; and the kind of the match is reported.\<close>

theorem MatchHostName_spec:
  assumes "[] \<notin> set names"
  shows "MatchHostName host names = Inr
    (if host \<in> set names then (EXACT_MATCH, host)
     else case filter (\<lambda>n. name_kind host n \<noteq> NO_MATCH) names of
       [] \<Rightarrow> (NO_MATCH, [])
     | ns \<Rightarrow> (name_kind host (last ns), last ns))"
  unfolding MatchHostName_def by (rule match_names_spec [OF assms])

theorem MatchHostName_spec_witness:
  "MatchHostName ''a.b'' [''a.b'', ''*.b''] = Inr (EXACT_MATCH, ''a.b'')"
  using MatchHostName_spec [of "[''a.b'', ''*.b'']" "''a.b''"] by simp

end
