(* ===== verification/Response.thy ===== *)
theory Response
  imports Http StdMap
begin

text \<open>
  \<open>src/http/Response.h\<close> and \<open>Response.cpp\<close>.  The phrase of a response code comes from
  \<open>GetResponseCodeDescr\<close>, which the build generates: it is the parameter \<open>descr\<close>.
\<close>

record response =
  rs_code :: response_code
  rs_version :: http_version
  rs_headers :: "(string, string) std_map"
  rs_body :: string
  rs_body_file :: "string option"

text \<open>The two constructors: a body in memory, or the path of a file with the body.\<close>

definition Response_body ::
  "response_code \<Rightarrow> http_version \<Rightarrow> (string, string) std_map \<Rightarrow> string \<Rightarrow> response" where
  [eval_simps]: "Response_body rc version headers body =
     \<lparr>rs_code = rc, rs_version = version, rs_headers = headers, rs_body = body,
      rs_body_file = None\<rparr>"

definition Response_file ::
  "response_code \<Rightarrow> http_version \<Rightarrow> (string, string) std_map \<Rightarrow> string \<Rightarrow> response" where
  [eval_simps]: "Response_file rc version headers path =
     \<lparr>rs_code = rc, rs_version = version, rs_headers = headers, rs_body = [],
      rs_body_file = Some path\<rparr>"

definition status_line :: "(response_code \<Rightarrow> string) \<Rightarrow> response \<Rightarrow> string" where
  [eval_simps]: "status_line descr rs =
     HttpVerToStr (rs_version rs) @ '' '' @ NumericToString (rs_code rs) @ '' '' @ descr (rs_code rs)"

definition dump_header :: "string \<times> string \<Rightarrow> string" where
  [eval_simps]: "dump_header = (\<lambda>(k, v). k @ '': '' @ v)"

definition dump_head :: "(response_code \<Rightarrow> string) \<Rightarrow> response \<Rightarrow> string" where
  [eval_simps]: "dump_head descr rs =
     status_line descr rs @ [CR, LF] @ concat (map (\<lambda>h. dump_header h @ [CR, LF]) (rs_headers rs))
       @ [CR, LF]"

definition Dump :: "(response_code \<Rightarrow> string) \<Rightarrow> response \<Rightarrow> string" where
  [eval_simps]: "Dump descr rs = dump_head descr rs @ rs_body rs"

definition Response_GetDebugString :: "(response_code \<Rightarrow> string) \<Rightarrow> response \<Rightarrow> string" where
  "Response_GetDebugString descr rs = dump_head descr rs @
     (if rs_body rs \<noteq> []
      then ''has body of size: '' @ NumericToString (int (length (rs_body rs))) @ [CR, LF] else []) @
     (case rs_body_file rs of None \<Rightarrow> []
      | Some path \<Rightarrow> ''body is in a file: '' @ path @ [CR, LF])"

definition AddHeader :: "string \<times> string \<Rightarrow> response \<Rightarrow> response \<times> bool" where
  [eval_simps]: "AddHeader = (\<lambda>(k, v) rs.
     case map_insert k v (rs_headers rs) of (m, inserted) \<Rightarrow> (rs\<lparr>rs_headers := m\<rparr>, inserted))"

section \<open>The head of a response ends where it should\<close>

abbreviation crlf_crlf :: string where
  "crlf_crlf \<equiv> [CR, LF, CR, LF]"

lemma find_blank_line_step:
  assumes "CR \<notin> set l" "t \<noteq> []"
    and "\<not> prefix [CR, LF] t"
  shows "find_sub crlf_crlf (l @ [CR, LF] @ t)
    = map_option (\<lambda>n. n + length l + 2) (find_sub crlf_crlf t)"
  using assms(1)
proof (induction l)
  case Nil
  then show ?case using assms(2,3)
    by (cases "find_sub crlf_crlf t") (auto simp: find_sub_Cons)
next
  case (Cons c l)
  then show ?case
    by (cases "find_sub crlf_crlf t") (auto simp: find_sub_Cons)
qed

lemma find_blank_line_end:
  assumes "CR \<notin> set l"
  shows "find_sub crlf_crlf (l @ [CR, LF] @ [CR, LF] @ body) = Some (length l)"
  using assms by (induction l) (auto simp: find_sub_Cons)

text \<open>The blank line that ends a block of lines is the first one.\<close>

lemma find_blank_line:
  assumes "\<forall>l\<in>set (l0 # ls). CR \<notin> set l" "\<forall>l\<in>set ls. l \<noteq> []"
  shows "find_sub crlf_crlf (l0 @ [CR, LF] @ concat (map (\<lambda>l. l @ [CR, LF]) ls) @ [CR, LF] @ body)
    = Some (length (l0 @ [CR, LF] @ concat (map (\<lambda>l. l @ [CR, LF]) ls)) - 2)"
  using assms
proof (induction ls arbitrary: l0)
  case Nil
  then show ?case using find_blank_line_end [of l0 body] by simp
next
  case (Cons l ls)
  let ?t = "l @ [CR, LF] @ concat (map (\<lambda>l. l @ [CR, LF]) ls) @ [CR, LF] @ body"
  have "l \<noteq> []" "CR \<notin> set l" using Cons.prems by auto
  then have "\<not> prefix [CR, LF] ?t" by (cases l) auto
  with Cons.prems have "find_sub crlf_crlf (l0 @ [CR, LF] @ ?t)
      = map_option (\<lambda>n. n + length l0 + 2) (find_sub crlf_crlf ?t)"
    by (intro find_blank_line_step) auto
  with Cons.IH [of l] Cons.prems show ?case by simp
qed

definition no_cr :: "string \<Rightarrow> bool" where
  [eval_simps]: "no_cr s \<longleftrightarrow> CR \<notin> set s"

lemma status_line_no_cr:
  assumes "no_cr (descr (rs_code rs))"
  shows "CR \<notin> set (status_line descr rs)"
proof -
  have "\<not> isdigit CR" by (simp add: ctype_defs code_def)
  then have "CR \<notin> set (NumericToString (rs_code rs))"
    using print_base_isdigit by (auto simp: NumericToString_def list_all_iff)
  moreover have "CR \<notin> set (HttpVerToStr (rs_version rs))" by (cases "rs_version rs") auto
  ultimately show ?thesis using assms by (simp add: status_line_def no_cr_def)
qed

lemma Dump_blank_line:
  assumes "no_cr (descr (rs_code rs))"
    and "\<forall>(k, v)\<in>set (rs_headers rs). no_cr k \<and> no_cr v"
  shows "find_sub crlf_crlf (Dump descr rs) = Some (length (dump_head descr rs) - 4)"
proof -
  let ?ls = "map dump_header (rs_headers rs)"
  have "\<forall>l\<in>set (status_line descr rs # ?ls). CR \<notin> set l"
    using assms(2) status_line_no_cr [of descr rs, OF assms(1)]
    by (auto simp: dump_header_def no_cr_def)
  moreover have "\<forall>l\<in>set ?ls. l \<noteq> []" by (auto simp: dump_header_def)
  ultimately have "find_sub crlf_crlf (status_line descr rs @ [CR, LF]
      @ concat (map (\<lambda>l. l @ [CR, LF]) ?ls) @ [CR, LF] @ rs_body rs)
    = Some (length (status_line descr rs @ [CR, LF] @ concat (map (\<lambda>l. l @ [CR, LF]) ?ls)) - 2)"
    by (rule find_blank_line)
  then show ?thesis by (simp add: Dump_def dump_head_def comp_def)
qed

text \<open>C22: no response splitting: when the phrase and the headers are free of carriage returns, the
  first empty line of the bytes that are sent is the one that ends the head, and what follows it
  is the body.\<close>

theorem Dump_head_ends_at_blank_line:
  assumes "no_cr (descr (rs_code rs))"
    and "\<forall>(k, v)\<in>set (rs_headers rs). no_cr k \<and> no_cr v"
  shows "find_sub crlf_crlf (Dump descr rs) = Some (length (dump_head descr rs) - 4) \<and>
    drop (length (dump_head descr rs)) (Dump descr rs) = rs_body rs"
  using Dump_blank_line [of descr rs, OF assms] by (simp add: Dump_def)

theorem Dump_head_ends_at_blank_line_witness:
  "find_sub crlf_crlf (Dump (\<lambda>_. ''OK'') (Response_body HTTP_OK HTTP_1_1 [(''A'', ''b'')] crlf_crlf))
     = Some 21"
  using Dump_head_ends_at_blank_line [of "\<lambda>_. ''OK''"
      "Response_body HTTP_OK HTTP_1_1 [(''A'', ''b'')] crlf_crlf"]
  by (simp add: eval_simps print_base.simps)

text \<open>\<open>AddHeader\<close> never overwrites: a header that is already there keeps its value and the
  function answers \<open>false\<close>; otherwise the header is added and nothing else changes.\<close>

lemma AddHeader_keeps_first:
  "map_find (rs_headers (fst (AddHeader (k, v) rs))) j =
     (if j = k \<and> map_find (rs_headers rs) k = None then Some v else map_find (rs_headers rs) j) \<and>
   snd (AddHeader (k, v) rs) = (map_find (rs_headers rs) k = None)"
  by (simp add: AddHeader_def map_insert_def map_find_assign)

end
