(* ===== verification/Cgi.thy ===== *)
theory Cgi
  imports Response Request
begin

text \<open>
  \<open>src/http/cgi/cgi.cpp\<close>: the output of a script as a response, its environment, and the split of
  a URL path into location, script and extra path.
\<close>

section \<open>Header lines of a script\<close>

definition IsKeyValid :: "string \<Rightarrow> bool" where
  [eval_simps]: "IsKeyValid key \<longleftrightarrow> key \<noteq> [] \<and>
     list_all (\<lambda>c. isalnum c \<or> c = CHR ''-'' \<or> c = CHR ''_'') key"

text \<open>A \<open>char\<close> is signed: a byte above 127 is less than a blank.\<close>

definition IsValValid :: "string \<Rightarrow> bool" where
  [eval_simps]: "IsValValid val \<longleftrightarrow> list_all (\<lambda>c. 32 \<le> code c \<and> code c \<le> 126) val"

text \<open>\<open>None\<close> is the answer \<open>false\<close>.\<close>

definition ExtractHeaderToMap ::
  "(string, string) std_map \<Rightarrow> string \<Rightarrow> (string, string) std_map option" where
  [eval_simps]: "ExtractHeaderToMap headers rs_line =
     (case str_find rs_line '':'' 0 of
        None \<Rightarrow> None
      | Some separator \<Rightarrow>
          (let key = cut 0 separator rs_line;
               val = Trim (drop (separator + 1) rs_line) [SP, HT]
           in if \<not> IsKeyValid key then None
              else if \<not> IsValValid val then None
              else Some (if val \<noteq> [] then map_assign key val headers else headers)))"

text \<open>The test of the byte after the number is on index 4, one past the separator.\<close>

definition ExtractStatus :: "string \<Rightarrow> int option" where
  [eval_simps]: "ExtractStatus status_str =
     (if length status_str < 5 then None
      else case StrToNumericNoThrow True 32 (cut 0 3 status_str) of
        None \<Rightarrow> None
      | Some status \<Rightarrow>
          (if status < 100 then None
           else if c_at status_str 4 \<noteq> SP \<and> c_at status_str 4 \<noteq> HT
                   \<or> \<not> isalnum (c_at status_str 5) then None
           else Some status))"

section \<open>The output of a script\<close>

text \<open>The loop over the lines: the headers and what is left of the buffer.\<close>

function cgi_headers ::
  "(string, string) std_map \<Rightarrow> string \<Rightarrow> ((string, string) std_map \<times> string) option" where
  "cgi_headers headers buf =
     (case find_idx (\<lambda>c. c = LF) buf of
        None \<Rightarrow> Some (headers, buf)
      | Some line_len \<Rightarrow>
          (if line_len = 0 then Some (headers, drop 1 buf)
           else case ExtractHeaderToMap headers (take line_len buf) of
             None \<Rightarrow> None
           | Some headers1 \<Rightarrow> cgi_headers headers1 (drop (line_len + 1) buf)))"
  by pat_completeness auto
termination
  by (relation "measure (\<lambda>(_, buf). length buf)") (auto dest!: find_idx_Some)

declare cgi_headers.simps [simp del]

text \<open>The response, or \<open>None\<close>, and the buffer, which is cut when the headers have been read.\<close>

definition cgi_response :: "(string, string) std_map \<Rightarrow> string \<Rightarrow> response option" where
  [eval_simps]: "cgi_response headers buf =
     (let headers1 = (if map_find headers ''Content-Length'' = None \<and> buf \<noteq> []
            then map_assign ''Content-Length'' (NumericToString (int (length buf))) headers
            else headers)
      in case map_find headers ''Status'' of
        None \<Rightarrow> Some (Response_body HTTP_OK HTTP_1_1 headers1 buf)
      | Some status \<Rightarrow>
          (case ExtractStatus status of
             None \<Rightarrow> None
           | Some rc \<Rightarrow> Some (Response_body rc HTTP_1_1 headers1 buf)))"

definition ParseCgiResponse :: "string \<Rightarrow> response option \<times> string" where
  [eval_simps]: "ParseCgiResponse buf =
     (if buf = [] \<or> hd buf = LF then (None, buf)
      else case cgi_headers [] buf of
        None \<Rightarrow> (None, buf)
      | Some (headers, rest) \<Rightarrow> (cgi_response headers rest, rest))"

section \<open>The environment of a script\<close>

record script_loc_details =
  sl_location :: string
  sl_name :: string
  sl_extra_path :: string

text \<open>\<open>value()\<close> of an unset \<open>maybe\<close> throws.\<close>

definition value_or_throw :: "'a option \<Rightarrow> 'a outcome" where
  [eval_simps]: "value_or_throw v = (case v of None \<Rightarrow> Inl Runtime_error | Some x \<Rightarrow> Inr x)"

definition env_entry :: "string \<Rightarrow> string option \<Rightarrow> string list" where
  [eval_simps]: "env_entry name v = (case v of None \<Rightarrow> [] | Some x \<Rightarrow> [name @ ''='' @ x])"

definition GetEnv :: "script_loc_details \<Rightarrow> request \<Rightarrow> string list outcome" where
  [eval_simps]: "GetEnv script rq =
     bind_outcome (value_or_throw (GetHeaderVal rq ''Host'')) (\<lambda>host.
       Inr ([''GATEWAY_INTERFACE=CGI/1.1'', ''SERVER_SOFTWARE=webserv/1.0'',
             ''SERVER_PROTOCOL='' @ HttpVerToStr (rq_version rq),
             ''SCRIPT_NAME='' @ sl_name script,
             ''REQUEST_METHOD='' @ HttpMethodToStr (rq_method rq),
             ''PATH_INFO='' @ sl_extra_path script,
             ''QUERY_STRING='' @ get_component (rt_query (rq_target rq)),
             ''REMOTE_HOST='' @ host, ''SERVER_NAME='' @ host]
            @ (if has_body rq
               then env_entry ''CONTENT_LENGTH'' (GetHeaderVal rq ''Content-Length'')
                    @ env_entry ''CONTENT_TYPE'' (GetHeaderVal rq ''Content-Type'')
               else [])
            @ env_entry ''AUTH_TYPE'' (GetHeaderVal rq ''Authorization'')
            @ env_entry ''ACCEPT'' (GetHeaderVal rq ''Accept'')))"

definition GetScriptLocDetails :: "string \<Rightarrow> script_loc_details option" where
  [eval_simps]: "GetScriptLocDetails path =
     (case str_find path ''/cgi-bin/'' 0 of
        None \<Rightarrow> None
      | Some cgi_pos \<Rightarrow>
          (let script_pos = cgi_pos + length ''/cgi-bin/'' in
           if script_pos = length path then None
           else let extra_path_pos = str_find path ''/'' script_pos;
                    location = cut 0 script_pos path;
                    name = (case extra_path_pos of
                        None \<Rightarrow> drop script_pos path
                      | Some e \<Rightarrow> cut script_pos (e - script_pos) path)
             in if str_find name ''.'' 0 = None then None
                else Some \<lparr>sl_location = location, sl_name = name,
                       sl_extra_path = (case extra_path_pos of None \<Rightarrow> [] | Some e \<Rightarrow> drop e path)\<rparr>))"

section \<open>Splitting the path of a script\<close>

lemma str_find_char: "str_find s [c] pos =
  (if pos \<le> length s then map_option (\<lambda>i. pos + i) (find_idx (\<lambda>d. d = c) (drop pos s)) else None)"
  by (simp add: str_find_def find_sub_single)

lemma GetScriptLocDetails_eq:
  assumes "find_sub ''/cgi-bin/'' path = Some p"
  shows "GetScriptLocDetails path =
    (let q = p + 9; e = find_idx (\<lambda>d. d = CHR ''/'') (drop q path);
         name = (case e of None \<Rightarrow> drop q path | Some n \<Rightarrow> take n (drop q path))
     in if q = length path \<or> CHR ''.'' \<notin> set name then None
        else Some \<lparr>sl_location = take q path, sl_name = name,
               sl_extra_path = (case e of None \<Rightarrow> [] | Some n \<Rightarrow> drop (q + n) path)\<rparr>)"
proof -
  have q: "p + 9 \<le> length path" using find_sub_Some [OF assms] by simp
  have cgi: "str_find path ''/cgi-bin/'' 0 = Some p" using assms by (simp add: str_find_def)
  have "length ''/cgi-bin/'' = 9" by simp
  moreover have dot: "str_find s ''.'' 0 = None \<longleftrightarrow> CHR ''.'' \<notin> set s" for s
    by (auto simp: str_find_char find_idx_None_iff)
  moreover have "str_find path ''/'' (p + 9)
      = map_option (\<lambda>i. p + 9 + i) (find_idx (\<lambda>d. d = CHR ''/'') (drop (p + 9) path))"
    using q by (simp add: str_find_char)
  ultimately show ?thesis
    unfolding GetScriptLocDetails_def cgi
    by (cases "find_idx (\<lambda>d. d = CHR ''/'') (drop (p + 9) path)")
      (simp_all only: option.case option.map Let_def cut_def drop_0 add_diff_cancel_left', auto)
qed

text \<open>The split of a URL path loses nothing and is unambiguous: the three parts put together
  are the path, the location is everything up to the first \<open>/cgi-bin/\<close>, the script name has no
  slash and contains a dot, and the extra path is empty or starts with a slash.\<close>

lemma GetScriptLocDetails_splits:
  assumes "GetScriptLocDetails path = Some d"
  shows "sl_location d @ sl_name d @ sl_extra_path d = path \<and>
    (\<exists>pre. sl_location d = pre @ ''/cgi-bin/'' \<and> find_sub ''/cgi-bin/'' path = Some (length pre)) \<and>
    CHR ''/'' \<notin> set (sl_name d) \<and> CHR ''.'' \<in> set (sl_name d) \<and>
    (sl_extra_path d = [] \<or> hd (sl_extra_path d) = CHR ''/'')"
proof -
  obtain p where p: "find_sub ''/cgi-bin/'' path = Some p"
    using assms by (auto simp: GetScriptLocDetails_def str_find_def split: option.splits)
  have loc: "\<exists>pre. take (p + 9) path = pre @ ''/cgi-bin/'' \<and> find_sub ''/cgi-bin/'' path = Some (length pre)"
    using p find_sub_Some [OF p] by (intro exI [of _ "take p path"]) (auto simp: prefix_def take_add)
  let ?rest = "drop (p + 9) path"
  show ?thesis
  proof (cases "find_idx (\<lambda>d. d = CHR ''/'') ?rest")
    case None
    with assms have "d = \<lparr>sl_location = take (p + 9) path, sl_name = ?rest, sl_extra_path = []\<rparr>"
      "CHR ''.'' \<in> set ?rest"
      by (auto simp: GetScriptLocDetails_eq [OF p] Let_def split: if_splits)
    with None loc show ?thesis by (auto simp: find_idx_None_iff)
  next
    case (Some e)
    with assms have d: "d = \<lparr>sl_location = take (p + 9) path, sl_name = take e ?rest,
        sl_extra_path = drop (p + 9 + e) path\<rparr>" "CHR ''.'' \<in> set (take e ?rest)"
      by (auto simp: GetScriptLocDetails_eq [OF p] Let_def split: if_splits)
    have e: "e < length ?rest" "?rest ! e = CHR ''/''" "CHR ''/'' \<notin> set (take e ?rest)"
      using find_idx_Some [OF Some] by (auto simp: in_set_conv_nth)
    then have "hd (drop (p + 9 + e) path) = CHR ''/''" by (simp add: hd_drop_conv_nth)
    moreover have "take (p + 9) path @ take e ?rest @ drop (p + 9 + e) path = path"
      by (metis append_assoc append_take_drop_id take_add)
    ultimately show ?thesis using d loc e(3) by simp
  qed
qed

lemma GetScriptLocDetails_splits_example:
  "\<exists>d. GetScriptLocDetails ''/x/cgi-bin/a.py/b'' = Some d \<and> sl_name d = ''a.py''
    \<and> sl_location d @ sl_name d @ sl_extra_path d = ''/x/cgi-bin/a.py/b''"
proof -
  have "GetScriptLocDetails ''/x/cgi-bin/a.py/b'' =
    Some \<lparr>sl_location = ''/x/cgi-bin/'', sl_name = ''a.py'', sl_extra_path = ''/b''\<rparr>"
    by (simp add: eval_simps str_simps)
  from GetScriptLocDetails_splits [OF this] this show ?thesis by simp
qed

section \<open>The status of a script\<close>

lemma StrToNumeric_three_digits:
  assumes "100 \<le> n" "n \<le> 999"
  shows "length (print_base 10 n) = 3" "StrToNumericNoThrow True 32 (print_base 10 n) = Some (int n)"
proof -
  have "print_base 10 n = [digit_char (n div 10 div 10), digit_char (n div 10 mod 10), digit_char (n mod 10)]"
  proof -
    have "n div 10 div 10 < 10" "\<not> n div 10 < 10" "\<not> n < 10" using assms by linarith+
    then show ?thesis
      using print_base.simps [of 10 n] print_base.simps [of 10 "n div 10"]
        print_base.simps [of 10 "n div 10 div 10"] by simp
  qed
  then show "length (print_base 10 n) = 3" by simp
  show "StrToNumericNoThrow True 32 (print_base 10 n) = Some (int n)"
    using assms StrToNumericNoThrow_digits [of "print_base 10 n" True 32] print_base_isdigit [of n]
    by (simp add: num_of_print_base)
qed

text \<open>The \<open>Status\<close> header of a script is understood when two blanks separate the number from
  the phrase; in the usual form, with one blank, the whole output is refused.\<close>

lemma ExtractStatus_wants_two_blanks:
  assumes "100 \<le> n" "n \<le> 999" "isalnum (hd phrase)" "phrase \<noteq> []"
  shows "ExtractStatus (NumericToString (int n) @ '' '' @ phrase) = None \<and>
    ExtractStatus (NumericToString (int n) @ ''  '' @ phrase) = Some (int n)"
proof -
  obtain c cs where p: "phrase = c # cs" using assms(4) by (cases phrase) auto
  have c: "isalnum c" "c \<noteq> SP" "c \<noteq> HT" using assms(3) by (auto simp: p ctype_defs code_def)
  have num: "NumericToString (int n) = print_base 10 n" by (simp add: NumericToString_def)
  note three = StrToNumeric_three_digits [OF assms(1,2)]
  then obtain x y z where d: "print_base 10 n = [x, y, z]"
    by (auto simp: length_Suc_conv numeral_eq_Suc)
  show ?thesis
    using c assms(1) three(2) by (simp add: num d p ExtractStatus_def cut_def c_at_def)
qed

lemma ExtractStatus_wants_two_blanks_example:
  "ExtractStatus (NumericToString (int 404) @ '' '' @ ''Not Found'') = None"
  using ExtractStatus_wants_two_blanks [of 404 "''Not Found''"] by (simp add: ctype_defs code_def)
section \<open>The headers of a script\<close>

definition script_header_ok :: "string \<times> string \<Rightarrow> bool" where
  [eval_simps]: "script_header_ok = (\<lambda>(k, v). IsKeyValid k \<and> IsValValid v)"

lemma script_header_chars:
  assumes "script_header_ok (k, v)"
  shows "no_cr k \<and> no_cr v \<and> LF \<notin> set k \<and> LF \<notin> set v \<and> NUL \<notin> set k \<and> NUL \<notin> set v"
  using assms
  by (auto simp: script_header_ok_def IsKeyValid_def IsValValid_def no_cr_def list_all_iff
      ctype_defs code_def)

lemma ExtractHeaderToMap_ok:
  assumes "ExtractHeaderToMap m l = Some m'" "\<forall>h\<in>set m. script_header_ok h"
  shows "\<forall>h\<in>set m'. script_header_ok h"
proof
  fix h assume h: "h \<in> set m'"
  from assms(1) obtain k v where kv: "IsKeyValid k" "IsValValid v" "m' = m \<or> m' = map_assign k v m"
    by (auto simp: ExtractHeaderToMap_def Let_def split: option.splits if_splits)
  with h set_map_assign [of k v m] have "h \<in> set m \<or> h = (k, v)" by auto
  with kv assms(2) show "script_header_ok h" by (auto simp: script_header_ok_def)
qed

lemma cgi_headers_ok:
  "cgi_headers m buf = Some (m', rest) \<Longrightarrow> \<forall>h\<in>set m. script_header_ok h \<Longrightarrow>
    \<forall>h\<in>set m'. script_header_ok h"
proof (induction m buf rule: cgi_headers.induct)
  case (1 m buf)
  show ?case
  proof (cases "find_idx (\<lambda>c. c = LF) buf")
    case None
    with "1.prems" show ?thesis by (simp add: cgi_headers.simps [of m buf])
  next
    case (Some n)
    show ?thesis
    proof (cases "n = 0")
      case True
      with Some "1.prems" show ?thesis by (simp add: cgi_headers.simps [of m buf])
    next
      case False
      with Some "1.prems"(1) obtain m1 where
        m1: "ExtractHeaderToMap m (take n buf) = Some m1"
          "cgi_headers m1 (drop (n + 1) buf) = Some (m', rest)"
        by (subst (asm) (1) cgi_headers.simps) (auto split: option.splits)
      with "1.IH" [OF Some False m1(1) m1(2)] ExtractHeaderToMap_ok [OF m1(1) "1.prems"(2)]
      show ?thesis by simp
    qed
  qed
qed

lemma NumericToString_digits: "0 \<le> i \<Longrightarrow> list_all isdigit (NumericToString i)"
  by (simp add: NumericToString_def print_base_isdigit)

lemma cgi_response_ok:
  assumes "cgi_response m buf = Some rs" "\<forall>h\<in>set m. script_header_ok h"
  shows "(\<forall>h\<in>set (rs_headers rs). script_header_ok h) \<and> rs_body rs = buf"
proof -
  let ?len = "NumericToString (int (length buf))"
  have "list_all isdigit ?len" by (rule NumericToString_digits) simp
  then have "IsValValid ?len"
    by (auto simp: IsValValid_def list_all_iff ctype_defs)
  moreover have "IsKeyValid ''Content-Length''" by (simp add: IsKeyValid_def ctype_defs code_def)
  ultimately have new: "script_header_ok (''Content-Length'', ?len)" by (simp add: script_header_ok_def)
  have "\<forall>h\<in>set (map_assign ''Content-Length'' ?len m). script_header_ok h"
    using assms(2) set_map_assign [of "''Content-Length''" ?len m] new by blast
  with assms show ?thesis
    by (auto simp: cgi_response_def Let_def Response_body_def split: option.splits if_splits)
qed

text \<open>C23: whatever a script prints, the headers of the response made from it contain no CR, LF or
  NUL, so that the response that is sent ends its head where the server ends it.\<close>

theorem cgi_response_not_split:
  assumes "ParseCgiResponse buf = (Some rs, rest)" "no_cr (descr (rs_code rs))"
  shows "rs_body rs = rest \<and>
    (\<forall>(k, v)\<in>set (rs_headers rs). {CR, LF, NUL} \<inter> (set k \<union> set v) = {}) \<and>
    find_sub crlf_crlf (Dump descr rs) = Some (length (dump_head descr rs) - 4)"
proof -
  from assms(1) obtain m where m: "cgi_headers [] buf = Some (m, rest)" "cgi_response m rest = Some rs"
    by (auto simp: ParseCgiResponse_def split: if_splits option.splits)
  from cgi_response_ok [OF m(2)] cgi_headers_ok [OF m(1)]
  have ok: "\<forall>h\<in>set (rs_headers rs). script_header_ok h" "rs_body rs = rest" by simp_all
  have chars: "\<forall>(k, v)\<in>set (rs_headers rs). no_cr k \<and> no_cr v \<and> LF \<notin> set k \<and> LF \<notin> set v
      \<and> NUL \<notin> set k \<and> NUL \<notin> set v"
    using ok(1) script_header_chars by blast
  then have "find_sub crlf_crlf (Dump descr rs) = Some (length (dump_head descr rs) - 4)"
    using assms(2) by (intro Dump_blank_line) auto
  moreover have "\<forall>(k, v)\<in>set (rs_headers rs). {CR, LF, NUL} \<inter> (set k \<union> set v) = {}"
    using chars by (fastforce simp: no_cr_def)
  ultimately show ?thesis using ok(2) by simp
qed

theorem cgi_response_not_split_witness:
  "\<exists>rs. ParseCgiResponse (''A: b'' @ [LF, LF] @ ''x'') = (Some rs, ''x'') \<and> rs_body rs = ''x''"
proof -
  have "cgi_headers [] (''A: b'' @ [LF, LF] @ ''x'') = Some ([(''A'', ''b'')], ''x'')"
    by (simp add: cgi_headers.simps eval_simps str_simps)
  then have p: "ParseCgiResponse (''A: b'' @ [LF, LF] @ ''x'') = (cgi_response [(''A'', ''b'')] ''x'', ''x'')"
    by (simp add: ParseCgiResponse_def)
  moreover obtain rs where "cgi_response [(''A'', ''b'')] ''x'' = Some rs"
    by (simp add: cgi_response_def map_find_def Let_def)
  ultimately show ?thesis using cgi_response_not_split [of _ rs "''x''" "\<lambda>_. ''OK''"]
    by (auto simp: no_cr_def)
qed

section \<open>Reading back what a script writes\<close>

definition script_line :: "string \<times> string \<Rightarrow> string" where
  [eval_simps]: "script_line = (\<lambda>(k, v). k @ '': '' @ v @ [LF])"

definition trimmed :: "string \<Rightarrow> bool" where
  [eval_simps]: "trimmed v \<longleftrightarrow> v \<noteq> [] \<and> hd v \<notin> {SP, HT} \<and> last v \<notin> {SP, HT}"

lemma ExtractHeaderToMap_line:
  assumes "script_header_ok (k, v)" "trimmed v"
  shows "ExtractHeaderToMap m (k @ '': '' @ v) = Some (map_assign k v m)"
proof -
  have "CHR '':'' \<notin> set k"
    using assms(1) by (auto simp: script_header_ok_def IsKeyValid_def list_all_iff ctype_defs code_def)
  then have "find_idx (\<lambda>d. d = CHR '':'') (k @ '': '' @ v) = Some (length k)"
    using find_idx_append_hit [of k "\<lambda>d. d = CHR '':''" "CHR '':''"] by auto
  then have "str_find (k @ '': '' @ v) '':'' 0 = Some (length k)" by (simp add: str_find_char)
  moreover have "Trim (SP # v) [SP, HT] = v"
    using assms(2) Trim_unique [of "SP # v" "[SP]" v "[]"] by (auto simp: trimmed_def)
  ultimately show ?thesis
    using assms by (simp add: ExtractHeaderToMap_def Let_def cut_def script_header_ok_def trimmed_def)
qed

text \<open>A script that prints its headers one per line, an empty line and a body is read back: the
  headers, each with the last value given for it, and the body unchanged.\<close>

lemma cgi_headers_roundtrip:
  "\<forall>(k, v)\<in>set hs. script_header_ok (k, v) \<and> trimmed v \<Longrightarrow>
    cgi_headers m (concat (map script_line hs) @ [LF] @ body)
      = Some (fold (\<lambda>(k, v). map_assign k v) hs m, body)"
proof (induction hs arbitrary: m)
  case Nil
  then show ?case by (simp add: cgi_headers.simps)
next
  case (Cons kv hs)
  obtain k v where kv: "kv = (k, v)" by fastforce
  define tail where "tail = concat (map script_line hs) @ [LF] @ body"
  define l where "l = k @ '': '' @ v"
  have ok: "script_header_ok (k, v)" "trimmed v" using Cons.prems kv by auto
  have "LF \<notin> set l" using script_header_chars [OF ok(1)] by (simp add: l_def)
  then have "find_idx (\<lambda>c. c = LF) (l @ LF # tail) = Some (length l)"
    by (intro find_idx_append_hit) auto
  moreover have "l \<noteq> []" by (simp add: l_def)
  ultimately have "cgi_headers m (l @ LF # tail) = cgi_headers (map_assign k v m) tail"
    using ExtractHeaderToMap_line [OF ok, of m, folded l_def] by (subst cgi_headers.simps) simp
  moreover have "concat (map script_line (kv # hs)) @ [LF] @ body = l @ LF # tail"
    by (simp add: kv script_line_def l_def tail_def)
  ultimately show ?case using Cons kv by (simp add: tail_def)
qed

lemma cgi_headers_roundtrip_example:
  "cgi_headers [] (concat (map script_line [(''A'', ''b''), (''A'', ''c'')]) @ [LF] @ ''x'')
     = Some ([(''A'', ''c'')], ''x'')"
  using cgi_headers_roundtrip [of "[(''A'', ''b''), (''A'', ''c'')]" "[]" "''x''"]
  by (simp add: eval_simps)

lemma GetEnv_total: "(\<exists>env. GetEnv script rq = Inr env) \<longleftrightarrow> GetHeaderVal rq ''Host'' \<noteq> None"
  by (auto simp: GetEnv_def value_or_throw_def split: option.splits)

end
