(* ===== verification/FileUtils.thy ===== *)
theory FileUtils
  imports NumericUtils "HOL-Library.Word"
begin

text \<open>
  \<open>src/utils/file_utils.cpp\<close>, \<open>time_utils.cpp\<close> and \<open>rand.cpp\<close>.  The operating system is a parameter:
  \<open>file_system\<close> holds what \<open>access\<close>, \<open>stat\<close>, \<open>remove\<close>, \<open>open\<close> and \<open>readdir\<close> answer for a path.
\<close>

unbundle bit_operations_syntax

section \<open>What the operating system answers\<close>

record file_stat =
  st_mode :: "32 word"
  st_size :: nat
  st_mtime :: int

record raw_dirent =
  d_name :: string
  d_type_is_dir :: bool

record file_system =
  access_f :: "string \<Rightarrow> bool"
  access_r :: "string \<Rightarrow> bool"
  access_x :: "string \<Rightarrow> bool"
  stat_of :: "string \<Rightarrow> file_stat option"
  remove_ok :: "string \<Rightarrow> bool"
  content_of :: "string \<Rightarrow> string option"
  readdir_of :: "string \<Rightarrow> raw_dirent list option"

text \<open>A path is handed over as \<open>c_str()\<close>: it ends at its first NUL.\<close>

definition c_str :: "string \<Rightarrow> string" where
  [eval_simps]: "c_str s = takeWhile (\<lambda>c. c \<noteq> NUL) s"

definition S_IFDIR :: "32 word" where [eval_simps]: "S_IFDIR = 0x4000"
definition S_IFREG :: "32 word" where [eval_simps]: "S_IFREG = 0x8000"

section \<open>Files\<close>

definition DoesPathExist :: "file_system \<Rightarrow> string \<Rightarrow> bool" where
  [eval_simps]: "DoesPathExist fs path \<longleftrightarrow> access_f fs (c_str path)"

definition IsReadable :: "file_system \<Rightarrow> string \<Rightarrow> bool" where
  [eval_simps]: "IsReadable fs path \<longleftrightarrow> access_r fs (c_str path)"

definition IsExecutable :: "file_system \<Rightarrow> string \<Rightarrow> bool" where
  [eval_simps]: "IsExecutable fs path \<longleftrightarrow> access_x fs (c_str path)"

text \<open>The file types are codes, not bits: a socket has the bits of a directory and of a file.\<close>

definition IsDirectory :: "file_system \<Rightarrow> string \<Rightarrow> bool" where
  [eval_simps]: "IsDirectory fs path \<longleftrightarrow>
     (case stat_of fs (c_str path) of None \<Rightarrow> False | Some info \<Rightarrow> st_mode info AND S_IFDIR \<noteq> 0)"

definition IsRegularFile :: "file_system \<Rightarrow> string \<Rightarrow> bool" where
  [eval_simps]: "IsRegularFile fs path \<longleftrightarrow>
     (case stat_of fs (c_str path) of None \<Rightarrow> False | Some info \<Rightarrow> st_mode info AND S_IFREG \<noteq> 0)"

definition ReadFileToString :: "file_system \<Rightarrow> string \<Rightarrow> string option" where
  [eval_simps]: "ReadFileToString fs path =
     (if c_at path 0 = NUL then None else content_of fs (c_str path))"

definition GetFileSize :: "file_system \<Rightarrow> string \<Rightarrow> nat" where
  [eval_simps]: "GetFileSize fs path =
     (if \<not> IsRegularFile fs path then 0
      else case stat_of fs (c_str path) of None \<Rightarrow> 0 | Some info \<Rightarrow> st_size info)"

section \<open>Directories\<close>

datatype dir_entry_type = DE_FILE | DE_DIR

record dir_entry =
  de_name :: string
  de_type :: dir_entry_type
  de_last_modified :: int
  de_size :: nat

text \<open>The loop over \<open>readdir\<close>: an entry that cannot be examined is left out.\<close>

definition entry_of :: "file_system \<Rightarrow> string \<Rightarrow> raw_dirent \<Rightarrow> dir_entry option" where
  [eval_simps]: "entry_of fs directory e =
     (case stat_of fs (c_str (directory @ ''/'' @ d_name e)) of
        None \<Rightarrow> None
      | Some info \<Rightarrow> Some
          \<lparr>de_name = d_name e @ (if d_type_is_dir e then ''/'' else []),
           de_type = (if d_type_is_dir e then DE_DIR else DE_FILE),
           de_last_modified = st_mtime info, de_size = st_size info\<rparr>)"

definition GetDirEntries :: "file_system \<Rightarrow> string \<Rightarrow> dir_entry list option" where
  [eval_simps]: "GetDirEntries fs directory =
     map_option (List.map_filter (entry_of fs directory)) (readdir_of fs (c_str directory))"

text \<open>\<open>CloseProcessFdsButStd\<close>: the descriptors to close, given the names in \<open>/proc/self/fd\<close>.\<close>

definition fds_to_close :: "string list \<Rightarrow> int list" where
  [eval_simps]: "fds_to_close names =
     filter (\<lambda>fd. fd \<noteq> 0 \<and> fd \<noteq> 1 \<and> fd \<noteq> 2) (List.map_filter (StrToNumericNoThrow True 32) names)"

definition CloseProcessFdsButStd :: "string list option \<Rightarrow> bool \<times> int list" where
  [eval_simps]: "CloseProcessFdsButStd names =
     (case names of None \<Rightarrow> (False, []) | Some ns \<Rightarrow> (True, fds_to_close ns))"

section \<open>Random names\<close>

definition random_charset :: string where
  [eval_simps]: "random_charset = ''abcdefghijklmnopqrstuvwxyzABCDEFGHIJKLMNOPQRSTUVWXYZ0123456789''"

text \<open>The numbers \<open>rand()\<close> yields, one per character.\<close>

definition GenerateRandomString :: "nat list \<Rightarrow> string" where
  [eval_simps]: "GenerateRandomString rands = map (\<lambda>r. random_charset ! (r mod 62)) rands"

text \<open>
  \<open>CreateAndOpenTmpFileToStream\<close> draws names until one does not exist; \<open>draws\<close> are the draws that
  are made, and \<open>None\<close> that they do not suffice.
\<close>

fun fresh_tmp_name :: "file_system \<Rightarrow> nat list list \<Rightarrow> string option" where
  "fresh_tmp_name fs [] = None"
| "fresh_tmp_name fs (rands # draws) =
     (let tmp_name = ''/tmp/'' @ GenerateRandomString rands in
      if DoesPathExist fs tmp_name then fresh_tmp_name fs draws else Some tmp_name)"

definition CreateAndOpenTmpFileToStream ::
  "file_system \<Rightarrow> (string \<Rightarrow> bool) \<Rightarrow> nat list list \<Rightarrow> string option option" where
  [eval_simps]: "CreateAndOpenTmpFileToStream fs opens draws =
     map_option (\<lambda>tmp_name. if opens tmp_name then Some tmp_name else None) (fresh_tmp_name fs draws)"

lemma random_char_alnum: "isalnum (random_charset ! (r mod 62))"
proof -
  have "list_all isalnum random_charset" by (simp add: eval_simps)
  moreover have "r mod 62 < length random_charset" by (simp add: random_charset_def)
  ultimately show ?thesis by (metis list_all_length)
qed

lemma fresh_tmp_name_new:
  "fresh_tmp_name fs draws = Some p \<Longrightarrow> \<not> DoesPathExist fs p \<and> prefix ''/tmp/'' p \<and>
     CHR ''/'' \<notin> set (drop 5 p) \<and> NUL \<notin> set p"
proof (induction fs draws rule: fresh_tmp_name.induct)
  case (2 fs rands draws)
  have "\<not> isalnum (CHR ''/'')" "\<not> isalnum NUL" by (simp_all add: ctype_defs code_def)
  then have "CHR ''/'' \<notin> set (GenerateRandomString rands)" "NUL \<notin> set (GenerateRandomString rands)"
    using random_char_alnum by (auto simp: GenerateRandomString_def)
  with 2 show ?case by (auto simp: Let_def split: if_splits)
qed simp

section \<open>Dates\<close>

text \<open>\<open>gmtime\<close>: days since 1970 to a date of the proleptic Gregorian calendar.\<close>

record broken_time =
  tm_mday :: int
  tm_mon :: int
  tm_year :: int
  tm_wday :: int
  tm_hour :: int
  tm_min :: int
  tm_sec :: int

definition gmtime :: "int \<Rightarrow> broken_time" where
  [eval_simps]: "gmtime t =
     (let days = t div 86400; secs = t mod 86400;
          z = days + 719468; era = z div 146097; doe = z mod 146097;
          yoe = (doe - doe div 1460 + doe div 36524 - doe div 146096) div 365;
          doy = doe - (365 * yoe + yoe div 4 - yoe div 100);
          mp = (5 * doy + 2) div 153;
          mon = (if mp < 10 then mp + 2 else mp - 10)
      in \<lparr>tm_mday = doy - (153 * mp + 2) div 5 + 1, tm_mon = mon,
          tm_year = yoe + era * 400 + (if mon < 2 then 1 else 0) - 1900, tm_wday = (days + 4) mod 7,
          tm_hour = secs div 3600, tm_min = secs mod 3600 div 60, tm_sec = secs mod 60\<rparr>)"

definition day_names :: "string list" where
  [eval_simps]: "day_names = [''Sun'', ''Mon'', ''Tue'', ''Wed'', ''Thu'', ''Fri'', ''Sat'']"

definition month_names :: "string list" where
  [eval_simps]: "month_names = [''Jan'', ''Feb'', ''Mar'', ''Apr'', ''May'', ''Jun'',
     ''Jul'', ''Aug'', ''Sep'', ''Oct'', ''Nov'', ''Dec'']"

text \<open>\<open>setw(2)\<close> with \<open>setfill('0')\<close>.\<close>

definition two_digits :: "int \<Rightarrow> string" where
  [eval_simps]: "two_digits n = (let s = NumericToString n in replicate (2 - length s) (CHR ''0'') @ s)"

text \<open>The time 0 stands for the current time, also when a file was last changed at 0.\<close>

definition GetFormatedTime :: "int \<Rightarrow> int \<Rightarrow> string" where
  [eval_simps]: "GetFormatedTime now raw_time =
     (let t = gmtime (if raw_time = 0 then now else raw_time) in
      day_names ! nat (tm_wday t) @ '', '' @ two_digits (tm_mday t) @ '' '' @
      month_names ! nat (tm_mon t) @ '' '' @ NumericToString (1900 + tm_year t) @ '' '' @
      two_digits (tm_hour t) @ '':'' @ two_digits (tm_min t) @ '':'' @ two_digits (tm_sec t) @ '' GMT'')"

lemma gmtime_example:
  "gmtime 1720000000 = \<lparr>tm_mday = 3, tm_mon = 6, tm_year = 124, tm_wday = 3, tm_hour = 9,
     tm_min = 46, tm_sec = 40\<rparr>"
  by code_simp

lemma GetFormatedTime_example:
  "GetFormatedTime 0 1720000000 = ''Wed, 03 Jul 2024 09:46:40 GMT''"
  unfolding GetFormatedTime_def
  by (simp add: gmtime_example two_digits_def day_names_def month_names_def NumericToString_def
      print_base.simps eval_simps Let_def del: gmtime_def)

end
