(* ===== verification/Processors.thy ===== *)
theory Processors
  imports Server Response Cgi FileUtils
begin

text \<open>
  \<open>src/server/response_processors\<close>: the processors that turn an accepted request into a response,
  and \<open>Server::ProcessRequest\<close>, which picks one.  A processor answers through its callback or hands
  the callback to the processor it delegates to, so each is the function that computes the answer.
  The phrase of a response code is the parameter \<open>descr\<close>, the file system \<open>fs\<close>, and the answer of
  \<open>fork\<close> and of the event manager, for CGI, two flags.
\<close>

section \<open>Answers\<close>

record exec_params =
  interpreter :: string
  script_location :: string
  script_name :: string
  child_env :: "string list"
  redirect_input_from_file :: string

text \<open>What the processor does: a response, a file removed before it, or a child to wait for.\<close>

datatype answer = Answer response | Removed string response | Await exec_params

record proc_env =
  pe_fs :: file_system
  pe_descr :: "response_code \<Rightarrow> string"
  pe_child_ok :: bool
  pe_callback_ok :: bool
  pe_now :: int

definition quote :: string where [eval_simps]: "quote = [CHR 0x22]"

section \<open>Errors\<close>

definition GenerateErrorPage :: "(response_code \<Rightarrow> string) \<Rightarrow> response_code \<Rightarrow> string" where
  [eval_simps]: "GenerateErrorPage descr rc =
     ''<!DOCTYPE html>'' @ [LF] @
     ''<html lang='' @ quote @ ''en'' @ quote @ ''>'' @
     ''<head>'' @
     ''<meta charset='' @ quote @ ''UTF-8'' @ quote @ ''>'' @
     ''<title>'' @ NumericToString rc @ '' '' @ descr rc @ ''</title>'' @
     ''</head>'' @
     ''<body style='' @ quote @ ''font-family: Arial, sans-serif; text-align: center; color: black; '' @
     ''background-color: white; padding: 20px;'' @ quote @ ''>'' @
     ''<h1 style='' @ quote @ ''font-size: 48px; margin: 0;'' @ quote @ ''>'' @ NumericToString rc @ ''</h1>'' @
     ''<p style='' @ quote @ ''font-size: 16px; margin: 10px 0;'' @ quote @ ''>'' @ descr rc @
     ''</p>'' @
     ''</body>'' @
     ''</html>''"

definition html_headers :: "nat \<Rightarrow> (string, string) std_map" where
  [eval_simps]: "html_headers n =
     map_assign ''Content-Length'' (NumericToString (int n))
       (map_assign ''Connection'' ''Close'' (map_assign ''Content-Type'' ''text/html'' []))"

definition GeneratedErrorProcessor :: "proc_env \<Rightarrow> response_code \<Rightarrow> response" where
  [eval_simps]: "GeneratedErrorProcessor e rc =
     (let body = GenerateErrorPage (pe_descr e) rc
      in Response_body rc HTTP_1_1 (html_headers (length body)) body)"

definition ErrorProcessor :: "proc_env \<Rightarrow> request_destination \<Rightarrow> response_code \<Rightarrow> response" where
  [eval_simps]: "ErrorProcessor e dest rc =
     (case map_find (error_pages (rd_server dest)) rc of
        None \<Rightarrow> GeneratedErrorProcessor e rc
      | Some file_path \<Rightarrow>
          (if \<not> DoesPathExist (pe_fs e) file_path \<or> IsDirectory (pe_fs e) file_path
           then GeneratedErrorProcessor e rc
           else if \<not> IsRegularFile (pe_fs e) file_path \<or> \<not> IsReadable (pe_fs e) file_path
           then GeneratedErrorProcessor e rc
           else Response_file rc HTTP_1_1 (html_headers (GetFileSize (pe_fs e) file_path)) file_path))"

definition DelegateToErrProc :: "proc_env \<Rightarrow> request_destination \<Rightarrow> response_code \<Rightarrow> answer" where
  [eval_simps]: "DelegateToErrProc e dest rc = Answer (ErrorProcessor e dest rc)"

section \<open>Redirects\<close>

definition RedirectProcessor ::
  "proc_env \<Rightarrow> request_destination \<Rightarrow> response_code \<Rightarrow> string \<Rightarrow> answer" where
  [eval_simps]: "RedirectProcessor e dest rc redirect_uri =
     (if rc < 300 then DelegateToErrProc e dest HTTP_INTERNAL_SERVER_ERROR
      else if 400 \<le> rc then DelegateToErrProc e dest rc
      else Answer (Response_body rc HTTP_1_1 (map_assign ''Location'' redirect_uri []) []))"

section \<open>Directories\<close>

definition kAutoIndexStyle :: string where
  [eval_simps]: "kAutoIndexStyle =
     ''body { font-family: 'Courier New', Courier, monospace; background-color: '' @
     ''#121212;color: #e0e0e0;margin: 0; padding: 0; }'' @
     ''h1 { padding: 20px; background-color: #1e1e1e; margin: 0; border-bottom: 1px solid '' @
     ''#444; }'' @
     ''table { width: 100%; border-collapse: collapse; margin: 20px 0; }'' @
     ''th, td { padding: 10px; text-align: left; border: 1px solid #444; }'' @
     ''th { background-color: #1e1e1e;    color: #e0e0e0; text-transform: uppercase; '' @
     ''font-size: 14px; }'' @
     ''tr:nth-child(odd) { background-color: #1a1a1a; }'' @
     ''tr:nth-child(even) { background-color: #2a2a2a; }'' @
     ''a { color: #80c0ff; text-decoration: none; }'' @
     ''a:hover { text-decoration: underline; }''"

definition index_head :: string where
  "index_head =
     ''<html>'' @ [LF] @ ''<head>'' @ [LF] @
     ''<meta charset='' @ quote @ ''UTF-8'' @ quote @ ''>'' @ [LF] @
     ''<title>Webserv Directory Listing</title>'' @ [LF] @ ''</head>'' @ [LF] @
     ''<style>'' @ [LF] @ kAutoIndexStyle @ [LF] @ ''</style>'' @ [LF] @
     ''<base href='' @ quote @ quote @ ''>'' @ ''<body>'' @
     ''<table border='' @ quote @ ''0'' @ quote @ ''>'' @ [LF] @
     ''<thead>'' @ [LF] @ ''<tr>'' @ [LF] @ ''<th>Name</th>'' @ [LF] @
     ''<th>Last Modified</th>'' @ [LF] @ ''<th>Size (Bytes)</th>'' @ [LF] @
     ''</tr>'' @ [LF] @ ''</thead>'' @ [LF] @ ''<tbody>'' @ [LF]"

text \<open>An entry whose name starts with a dot is left out, the parent directory excepted.\<close>

definition index_row :: "int \<Rightarrow> dir_entry \<Rightarrow> string" where
  "index_row now entry =
     (if c_at (de_name entry) 0 = CHR ''.'' \<and> de_name entry \<noteq> ''../'' then []
      else ''<tr><td><a href='' @ quote @ PercentEncode (de_name entry) (Some ''/'') @ quote @
        (if de_type entry = DE_FILE then '' target='' @ quote @ ''_blank'' @ quote else []) @
        ''>'' @
        (if de_name entry = ''../'' then ''&#x21B0; Parent Directory'' else de_name entry) @
        ''</a></td>'' @ [LF] @
        ''<td>'' @ GetFormatedTime now (de_last_modified entry) @ ''</td>'' @ [LF] @ ''<td>'' @
        (if de_type entry = DE_FILE then NumericToString (int (de_size entry)) else []) @
        ''</td>'' @ [LF] @ ''</tr>'' @ [LF])"

definition GenerateAutoIndexPage :: "int \<Rightarrow> dir_entry list \<Rightarrow> string" where
  "GenerateAutoIndexPage now entries =
     index_head @ concat (map (index_row now) entries) @
     ''</tbody>'' @ [LF] @ ''</table>'' @ [LF] @ ''</body>'' @ [LF] @ ''</html>'' @ [LF]"

definition ListDirectory :: "proc_env \<Rightarrow> string \<Rightarrow> response option" where
  [eval_simps]: "ListDirectory e path =
     (case GetDirEntries (pe_fs e) path of
        None \<Rightarrow> None
      | Some entries \<Rightarrow>
          (let body = GenerateAutoIndexPage (pe_now e) (sort_key de_name entries)
           in Some (Response_body HTTP_OK HTTP_1_1
             (map_assign ''Content-Length'' (NumericToString (int (length body)))
               (map_assign ''Content-Type'' ''text/html'' [])) body)))"

text \<open>The last byte of an empty path would be read before its first.\<close>

definition DirectoryProcessor :: "proc_env \<Rightarrow> request_destination \<Rightarrow> request \<Rightarrow> answer outcome" where
  [eval_simps]: "DirectoryProcessor e dest rq =
     (let path = rd_updated_path dest in
      if path = [] then Inl Undefined_behaviour
      else if last path \<noteq> CHR ''/'' then
        bind_outcome (AddTrailingSlashToPath (rq_target rq)) (\<lambda>redirected_target.
          Inr (RedirectProcessor e dest HTTP_MOVED_PERMANENTLY (ToStr redirected_target)))
      else if rq_method rq \<noteq> HTTP_GET then Inr (DelegateToErrProc e dest HTTP_METHOD_NOT_ALLOWED)
      else case ListDirectory e path of
        None \<Rightarrow> Inr (DelegateToErrProc e dest HTTP_INTERNAL_SERVER_ERROR)
      | Some r \<Rightarrow> Inr (Answer r))"

section \<open>Files\<close>

definition GetContentType :: "string \<Rightarrow> string" where
  [eval_simps]: "GetContentType file =
     (case str_find_last_of file (CHR ''.'') of
        None \<Rightarrow> kDefaultContentType
      | Some dot_pos \<Rightarrow> GetTypeByExt (c_str (drop dot_pos file)))"

definition no_body :: "response_code \<Rightarrow> response" where
  [eval_simps]: "no_body rc = Response_body rc HTTP_1_1 [] []"

definition ProcessPost :: "proc_env \<Rightarrow> request_destination \<Rightarrow> answer" where
  [eval_simps]: "ProcessPost e dest =
     (if DoesPathExist (pe_fs e) (rd_updated_path dest) then Answer (no_body HTTP_CREATED)
      else DelegateToErrProc e dest HTTP_INTERNAL_SERVER_ERROR)"

definition ProcessDelete :: "proc_env \<Rightarrow> request_destination \<Rightarrow> answer" where
  [eval_simps]: "ProcessDelete e dest =
     (if \<not> remove_ok (pe_fs e) (c_str (rd_updated_path dest))
      then DelegateToErrProc e dest HTTP_NOT_FOUND
      else Removed (c_str (rd_updated_path dest)) (no_body HTTP_NO_CONTENT))"

text \<open>The loop over the default files: the first that is a file.\<close>

fun default_file :: "file_system \<Rightarrow> string \<Rightarrow> string list \<Rightarrow> string option" where
  "default_file fs path [] = None"
| "default_file fs path (f # files) =
     (if DoesPathExist fs (path @ f) \<and> IsRegularFile fs (path @ f) then Some (path @ f)
      else default_file fs path files)"

definition serve_file :: "proc_env \<Rightarrow> request_destination \<Rightarrow> answer" where
  [eval_simps]: "serve_file e dest =
     (let path = rd_updated_path dest; fs = pe_fs e in
      if \<not> IsRegularFile fs path \<or> \<not> IsReadable fs path
      then DelegateToErrProc e dest HTTP_NOT_FOUND
      else Answer (Response_file HTTP_OK HTTP_1_1
        (map_assign ''Content-Length'' (NumericToString (int (GetFileSize fs path)))
          (map_assign ''Content-Type'' (GetContentType path) [])) path))"

text \<open>
  \<open>ProcessGet_\<close> calls itself on the default file of a directory.  A file that is both, which a
  socket is for the two tests, would be entered again: the recursion is over \<open>option\<close>.
\<close>

partial_function (option) ProcessGet ::
  "proc_env \<Rightarrow> request_destination \<Rightarrow> request \<Rightarrow> answer outcome option" where
  "ProcessGet e dest rq =
     (case rd_loc dest of
        None \<Rightarrow> Some (Inl Runtime_error)
      | Some loc \<Rightarrow>
          (if IsDirectory (pe_fs e) (rd_updated_path dest) then
             (case default_file (pe_fs e) (rd_updated_path dest) (loc_default_files loc) of
                Some f \<Rightarrow> ProcessGet e (dest\<lparr>rd_updated_path := f\<rparr>) rq
              | None \<Rightarrow>
                  Some (if loc_dir_listing loc then DirectoryProcessor e dest rq
                        else Inr (DelegateToErrProc e dest HTTP_FORBIDDEN)))
           else Some (Inr (serve_file e dest))))"

definition FileProcessor ::
  "proc_env \<Rightarrow> request_destination \<Rightarrow> request \<Rightarrow> answer outcome option" where
  "FileProcessor e dest rq =
     (case rq_method rq of
        HTTP_GET \<Rightarrow> ProcessGet e dest rq
      | HTTP_POST \<Rightarrow> Some (Inr (ProcessPost e dest))
      | HTTP_DELETE \<Rightarrow> Some (Inr (ProcessDelete e dest))
      | HTTP_NO_METHOD \<Rightarrow> Some (Inl Logic_error))"

section \<open>Scripts\<close>

fun IsValidExtension :: "string \<Rightarrow> string list \<Rightarrow> bool outcome" where
  "IsValidExtension filename [] = Inr False"
| "IsValidExtension filename (ext # exts) =
     bind_outcome (CheckFileExtension filename ext) (\<lambda>ok.
       if ok then Inr True else IsValidExtension filename exts)"

definition start_child ::
  "proc_env \<Rightarrow> request_destination \<Rightarrow> request \<Rightarrow> location \<Rightarrow> script_loc_details \<Rightarrow> answer outcome" where
  [eval_simps]: "start_child e dest rq loc script =
     bind_outcome (UpdatePath (loc_alias_dir loc) (fst (loc_route loc)) (sl_location script)) (\<lambda>location.
       let full_script_loc = location @ ''/'' @ sl_extra_path script @ ''/'' in
       if \<not> IsReadable (pe_fs e) (full_script_loc @ sl_name script)
       then Inr (DelegateToErrProc e dest HTTP_INTERNAL_SERVER_ERROR)
       else bind_outcome (GetEnv (script\<lparr>sl_location := location\<rparr>) rq) (\<lambda>env.
         if \<not> pe_child_ok e \<or> \<not> pe_callback_ok e
         then Inr (DelegateToErrProc e dest HTTP_INTERNAL_SERVER_ERROR)
         else Inr (Await \<lparr>interpreter = GetInterpreterByExt (sl_name script),
           script_location = full_script_loc, script_name = sl_name script, child_env = env,
           redirect_input_from_file = c_str (bs_path (rq_body rq))\<rparr>)))"

definition CGIProcessor :: "proc_env \<Rightarrow> request_destination \<Rightarrow> request \<Rightarrow> answer outcome" where
  [eval_simps]: "CGIProcessor e dest rq =
     (case GetScriptLocDetails (get_component (rt_path (rq_target rq))) of
        None \<Rightarrow> Inr (DelegateToErrProc e dest HTTP_BAD_REQUEST)
      | Some script \<Rightarrow>
          (case rd_loc dest of
             None \<Rightarrow> Inl Runtime_error
           | Some loc \<Rightarrow>
               bind_outcome (IsValidExtension (sl_name script) (loc_cgi_extensions loc)) (\<lambda>ok.
                 if \<not> ok then Inr (DelegateToErrProc e dest HTTP_NOT_IMPLEMENTED)
                 else start_child e dest rq loc script)))"

section \<open>The choice of a processor\<close>

definition GetResponseProcessor ::
  "proc_env \<Rightarrow> request \<Rightarrow> request_destination \<Rightarrow> answer outcome option" where
  "GetResponseProcessor e rq dest =
     (case rd_loc dest of
        None \<Rightarrow> Some (Inl Runtime_error)
      | Some loc \<Rightarrow>
          (if snd (loc_redirect loc) \<noteq> [] then
             Some (Inr (RedirectProcessor e dest (fst (loc_redirect loc)) (snd (loc_redirect loc))))
           else if loc_is_cgi loc then Some (CGIProcessor e dest rq)
           else FileProcessor e dest rq))"

definition ProcessRequest ::
  "proc_env \<Rightarrow> request \<Rightarrow> request_destination \<Rightarrow> answer outcome option" where
  "ProcessRequest e rq dest =
     (if rq_status rq = HTTP_OK then GetResponseProcessor e rq dest
      else Some (Inr (Answer (ErrorProcessor e dest (rq_status rq)))))"

section \<open>Every request is answered\<close>

text \<open>No file is of a type whose code has the bits of a directory and of a regular file.\<close>

definition types_distinct :: "file_system \<Rightarrow> bool" where
  "types_distinct fs \<longleftrightarrow> (\<forall>p. \<not> (IsDirectory fs p \<and> IsRegularFile fs p))"

lemma default_file_Some:
  "default_file fs path files = Some p \<Longrightarrow>
     \<exists>f\<in>set files. p = path @ f \<and> DoesPathExist fs p \<and> IsRegularFile fs p"
  by (induction fs path files rule: default_file.induct) (auto split: if_splits)

text \<open>What \<open>ProcessGet_\<close> answers when it enters a directory once.\<close>

lemma ProcessGet_eq:
  assumes "types_distinct (pe_fs e)" "rd_loc dest = Some loc"
  shows "ProcessGet e dest rq = Some
    (if IsDirectory (pe_fs e) (rd_updated_path dest) then
       (case default_file (pe_fs e) (rd_updated_path dest) (loc_default_files loc) of
          Some f \<Rightarrow> Inr (serve_file e (dest\<lparr>rd_updated_path := f\<rparr>))
        | None \<Rightarrow> if loc_dir_listing loc then DirectoryProcessor e dest rq
            else Inr (DelegateToErrProc e dest HTTP_FORBIDDEN))
     else Inr (serve_file e dest))"
proof (cases "default_file (pe_fs e) (rd_updated_path dest) (loc_default_files loc)")
  case None
  with assms show ?thesis by (simp add: ProcessGet.simps [of e dest])
next
  case (Some f)
  then have "\<not> IsDirectory (pe_fs e) f"
    using default_file_Some [OF Some] assms(1) by (auto simp: types_distinct_def)
  with assms Some show ?thesis
    by (simp add: ProcessGet.simps [of e dest] ProcessGet.simps [of e "dest\<lparr>rd_updated_path := f\<rparr>"])
qed

lemma AddTrailingSlashToPath_ok:
  "get_component (rt_path t) \<noteq> [] \<Longrightarrow> \<exists>u. AddTrailingSlashToPath t = Inr u"
  by (auto simp: AddTrailingSlashToPath_def get_component_def split: if_splits)

lemma DirectoryProcessor_ok:
  assumes "rd_updated_path dest \<noteq> []" "target_path rq \<noteq> []"
  shows "\<exists>a. DirectoryProcessor e dest rq = Inr a"
  using assms AddTrailingSlashToPath_ok [of "rq_target rq"]
  by (auto simp: DirectoryProcessor_def Let_def target_path_def split: option.splits)

lemma FileProcessor_ok:
  assumes "types_distinct (pe_fs e)" "rd_loc dest = Some loc" "rq_method rq \<noteq> HTTP_NO_METHOD"
    "rd_updated_path dest = [] \<longrightarrow> \<not> IsDirectory (pe_fs e) []" "target_path rq \<noteq> []"
  shows "\<exists>a. FileProcessor e dest rq = Some (Inr a)"
proof (cases "rq_method rq")
  case HTTP_GET
  then show ?thesis
    using ProcessGet_eq [OF assms(1,2), of rq] DirectoryProcessor_ok [OF _ assms(5), of dest e] assms(4)
    by (cases "rd_updated_path dest = []") (auto simp: FileProcessor_def split: option.splits)
qed (use assms(3) in \<open>auto simp: FileProcessor_def\<close>)

text \<open>Below a CGI location the directory of the script is the route itself.\<close>

lemma find_sub_empty: "find_sub [] t = Some 0"
  by (subst find_sub.simps) simp

lemma find_sub_prefix:
  "find_sub p s = Some n \<Longrightarrow> prefix s t \<Longrightarrow> find_sub p t = Some n"
proof (induction s arbitrary: n t)
  case Nil
  then have "p = []" "n = 0" by (auto simp: find_sub_Nil split: if_splits)
  then show ?case by (simp add: find_sub_empty)
next
  case (Cons c s)
  from Cons.prems(2) obtain t' where t: "t = c # t'" "prefix s t'" by (cases t) auto
  show ?case
  proof (cases "prefix p (c # s)")
    case True
    then have "prefix p (c # t')" using t(2) prefix_order.order_trans by fastforce
    with True Cons.prems t show ?thesis by (auto simp: find_sub_Cons)
  next
    case False
    with Cons.prems obtain m where m: "find_sub p s = Some m" "n = Suc m"
      by (auto simp: find_sub_Cons)
    have "\<not> prefix p (c # t')"
    proof
      assume p: "prefix p (c # t')"
      have "m + length p \<le> length s" using find_sub_Some [OF m(1)] by simp
      then have "length p \<le> length (c # s)" by simp
      moreover have "prefix (c # s) (c # t')" using t(2) by simp
      ultimately have "prefix p (c # s)" using p prefix_length_prefix by blast
      with False show False ..
    qed
    with Cons.IH [OF m(1) t(2)] m t show ?thesis by (simp add: find_sub_Cons)
  qed
qed

lemma cgi_script_location:
  assumes "IsCgiLocation route" "NUL \<notin> set route" "prefix route path"
    and "GetScriptLocDetails path = Some script"
  shows "sl_location script = route"
proof -
  from assms(1) obtain p where p: "find_sub cgi_prefix route = Some p"
    "c_at route (p + length cgi_prefix) = NUL"
    by (auto simp: IsCgiLocation_def str_find_def split: option.splits)
  have "p + length cgi_prefix \<le> length route" using find_sub_Some [OF p(1)] by simp
  moreover have "\<not> p + length cgi_prefix < length route"
    using p(2) assms(2) nth_mem [of "p + length cgi_prefix" route] by (metis c_at_def)
  ultimately have len: "length route = p + 9" by (simp add: cgi_prefix_def)
  have "find_sub ''/cgi-bin/'' path = Some p"
    using find_sub_prefix [OF p(1) assms(3)] by (simp add: cgi_prefix_def)
  then have "sl_location script = take (p + 9) path"
    using assms(4) by (auto simp: GetScriptLocDetails_eq Let_def split: if_splits)
  with assms(3) len show ?thesis by (auto simp: prefix_def)
qed

lemma IsValidExtension_ok:
  "\<forall>ext\<in>set exts. length name \<le> length ext \<or> 6 \<le> length name \<Longrightarrow>
     \<exists>ok. IsValidExtension name exts = Inr ok"
  by (induction name exts rule: IsValidExtension.induct) (auto simp: CheckFileExtension_def)

definition script_name_ok :: "location \<Rightarrow> string \<Rightarrow> bool" where
  [eval_simps]: "script_name_ok loc path \<longleftrightarrow>
     (case GetScriptLocDetails path of None \<Rightarrow> True
      | Some script \<Rightarrow> list_all (\<lambda>ext. length (sl_name script) \<le> length ext \<or> 6 \<le> length (sl_name script))
          (loc_cgi_extensions loc))"

lemma started_child:
  assumes "IsCgiLocation (fst (loc_route loc))" "NUL \<notin> set (fst (loc_route loc))"
    "route_serves (loc_route loc) (target_path rq)" "loc_alias_dir loc \<noteq> []"
    "GetHeaderVal rq ''Host'' \<noteq> None" "GetScriptLocDetails (target_path rq) = Some script"
  shows "\<exists>a. start_child e dest rq loc script = Inr a"
proof -
  have "prefix (fst (loc_route loc)) (target_path rq)"
    using assms(3) by (auto simp: route_serves_def split: if_splits)
  then have "sl_location script = fst (loc_route loc)"
    by (rule cgi_script_location [OF assms(1,2) _ assms(6)])
  moreover obtain c dir where "loc_alias_dir loc = c # dir" using assms(4) by (cases "loc_alias_dir loc") auto
  ultimately obtain u where u: "UpdatePath (loc_alias_dir loc) (fst (loc_route loc)) (sl_location script) = Inr u"
    by (simp add: UpdatePath_def substr_from_def)
  obtain env where "GetEnv (script\<lparr>sl_location := u\<rparr>) rq = Inr env"
    using assms(5) by (auto simp: GetEnv_def value_or_throw_def)
  with u show ?thesis by (simp add: start_child_def)
qed

lemma CGIProcessor_ok:
  assumes "rd_loc dest = Some loc" "IsCgiLocation (fst (loc_route loc))" "NUL \<notin> set (fst (loc_route loc))"
    "route_serves (loc_route loc) (target_path rq)" "loc_alias_dir loc \<noteq> []"
    "GetHeaderVal rq ''Host'' \<noteq> None" "script_name_ok loc (target_path rq)"
  shows "\<exists>a. CGIProcessor e dest rq = Inr a"
proof (cases "GetScriptLocDetails (target_path rq)")
  case (Some script)
  obtain a where a: "start_child e dest rq loc script = Inr a"
    using started_child [OF assms(2-6) Some] by blast
  obtain ok where ok: "IsValidExtension (sl_name script) (loc_cgi_extensions loc) = Inr ok"
    using IsValidExtension_ok [of "loc_cgi_extensions loc" "sl_name script"] assms(7) Some
    by (auto simp: script_name_ok_def list_all_iff)
  show ?thesis
    using Some assms(1) by (simp add: CGIProcessor_def target_path_def a ok)
qed (simp add: CGIProcessor_def target_path_def)

lemma IsValidExtension_fails:
  "IsValidExtension name exts = Inl x \<Longrightarrow> x = Undefined_behaviour"
  by (induction name exts rule: IsValidExtension.induct)
    (auto simp: CheckFileExtension_def bind_outcome_def Let_def split: sum.splits if_splits)

text \<open>
  What a good request needs: the builder and the configuration see to it, and \<open>stat\<close> of an empty path
  fails.
\<close>

definition servable :: "proc_env \<Rightarrow> request_destination \<Rightarrow> request \<Rightarrow> location \<Rightarrow> bool" where
  "servable e dest rq loc \<longleftrightarrow>
     rd_loc dest = Some loc \<and> rq_method rq \<noteq> HTTP_NO_METHOD \<and> target_path rq \<noteq> [] \<and>
     GetHeaderVal rq ''Host'' \<noteq> None \<and> route_serves (loc_route loc) (target_path rq) \<and>
     loc_is_cgi loc = IsCgiLocation (fst (loc_route loc)) \<and> loc_alias_dir loc \<noteq> [] \<and>
     (rd_updated_path dest = [] \<longrightarrow> \<not> IsDirectory (pe_fs e) []) \<and>
     (loc_is_cgi loc \<longrightarrow> NUL \<notin> set (fst (loc_route loc)))"

text \<open>The two ways in which the processors fail.\<close>

definition short_script_name :: "request_destination \<Rightarrow> request \<Rightarrow> bool" where
  [eval_simps]: "short_script_name dest rq \<longleftrightarrow>
     (case rd_loc dest of None \<Rightarrow> False | Some loc \<Rightarrow> loc_is_cgi loc \<and> \<not> script_name_ok loc (target_path rq))"

lemma CGIProcessor_fails:
  assumes "servable e dest rq loc" "loc_is_cgi loc" "CGIProcessor e dest rq = Inl x"
  shows "x = Undefined_behaviour \<and> short_script_name dest rq"
proof -
  have loc: "rd_loc dest = Some loc" using assms(1) by (simp add: servable_def)
  have "\<not> script_name_ok loc (target_path rq)"
  proof
    assume "script_name_ok loc (target_path rq)"
    then have "\<exists>a. CGIProcessor e dest rq = Inr a"
      using assms(1,2) by (intro CGIProcessor_ok [of dest loc]) (auto simp: servable_def)
    with assms(3) show False by simp
  qed
  moreover from this obtain script where script: "GetScriptLocDetails (target_path rq) = Some script"
    by (auto simp: script_name_ok_def split: option.splits)
  have "x = Undefined_behaviour"
  proof (cases "IsValidExtension (sl_name script) (loc_cgi_extensions loc)")
    case (Inl y)
    with assms(3) script loc IsValidExtension_fails [OF Inl] show ?thesis
      by (simp add: CGIProcessor_def target_path_def)
  next
    case (Inr ok)
    have "\<exists>a. start_child e dest rq loc script = Inr a"
      using started_child [of loc rq script e dest] assms(1,2) script by (simp add: servable_def)
    with assms(3) script loc Inr show ?thesis by (auto simp: CGIProcessor_def target_path_def split: if_splits)
  qed
  ultimately show ?thesis using loc assms(2) by (simp add: short_script_name_def)
qed

lemma request_answered:
  assumes "rq_status rq = HTTP_OK \<longrightarrow> servable e dest rq loc"
  shows "(\<exists>a. ProcessRequest e rq dest = Some (Inr a)) \<or>
    ProcessRequest e rq dest = Some (Inl Undefined_behaviour) \<and> short_script_name dest rq \<or>
    \<not> types_distinct (pe_fs e) \<and> rq_method rq = HTTP_GET"
proof (cases "rq_status rq = HTTP_OK")
  case True
  with assms have s: "servable e dest rq loc" by simp
  then have loc: "rd_loc dest = Some loc" by (simp add: servable_def)
  show ?thesis
  proof (cases "loc_is_cgi loc")
    case cgi: True
    show ?thesis
      using True cgi loc CGIProcessor_fails [OF s cgi]
      by (cases "CGIProcessor e dest rq") (auto simp: ProcessRequest_def GetResponseProcessor_def)
  next
    case False
    have "(\<exists>a. FileProcessor e dest rq = Some (Inr a)) \<or> \<not> types_distinct (pe_fs e) \<and> rq_method rq = HTTP_GET"
    proof (cases "types_distinct (pe_fs e)")
      case distinct: True
      then have "\<exists>a. FileProcessor e dest rq = Some (Inr a)"
        using s by (intro FileProcessor_ok [of e dest loc]) (auto simp: servable_def)
      then show ?thesis by blast
    qed (use s in \<open>cases "rq_method rq"; simp add: FileProcessor_def servable_def\<close>)
    then show ?thesis using True False loc by (auto simp: ProcessRequest_def GetResponseProcessor_def)
  qed
qed (simp add: ProcessRequest_def)


section \<open>What is sent\<close>

definition declared_length :: "file_system \<Rightarrow> response \<Rightarrow> nat" where
  "declared_length fs r =
     (case rs_body_file r of None \<Rightarrow> length (rs_body r) | Some p \<Rightarrow> GetFileSize fs p)"

definition framed :: "file_system \<Rightarrow> response \<Rightarrow> bool" where
  "framed fs r \<longleftrightarrow> map_find (rs_headers r) ''Content-Length''
     = Some (NumericToString (int (declared_length fs r)))"

definition unframed :: "response \<Rightarrow> bool" where
  "unframed r \<longleftrightarrow> map_find (rs_headers r) ''Content-Length'' = None \<and>
     map_find (rs_headers r) ''Connection'' = None \<and> rs_body r = [] \<and> rs_body_file r = None"

lemma error_response:
  "rs_code (ErrorProcessor e dest rc) = rc \<and> framed (pe_fs e) (ErrorProcessor e dest rc) \<and>
   map_find (rs_headers (ErrorProcessor e dest rc)) ''Connection'' = Some ''Close'' \<and>
   (case rs_body_file (ErrorProcessor e dest rc) of
      None \<Rightarrow> rs_body (ErrorProcessor e dest rc) = GenerateErrorPage (pe_descr e) rc
    | Some p \<Rightarrow> map_find (error_pages (rd_server dest)) rc = Some p \<and> IsRegularFile (pe_fs e) p \<and>
        IsReadable (pe_fs e) p \<and> \<not> IsDirectory (pe_fs e) p)"
proof -
  have "map_find (html_headers n) ''Content-Length'' = Some (NumericToString (int n))"
    "map_find (html_headers n) ''Connection'' = Some ''Close''" for n
    by (simp_all add: html_headers_def map_find_def)
  then show ?thesis
    by (simp add: ErrorProcessor_def GeneratedErrorProcessor_def Response_body_def Response_file_def
        framed_def declared_length_def Let_def split: option.split)
qed

text \<open>An error response has the status asked for, says that the connection closes, states the
  exact length of its body, and the body is the generated page or a configured, readable file.\<close>

lemma ErrorProcessor_response:
  "rs_code (ErrorProcessor e dest rc) = rc \<and> framed (pe_fs e) (ErrorProcessor e dest rc) \<and>
   map_find (rs_headers (ErrorProcessor e dest rc)) ''Connection'' = Some ''Close'' \<and>
   (case rs_body_file (ErrorProcessor e dest rc) of
      None \<Rightarrow> rs_body (ErrorProcessor e dest rc) = GenerateErrorPage (pe_descr e) rc
    | Some p \<Rightarrow> map_find (error_pages (rd_server dest)) rc = Some p \<and> IsRegularFile (pe_fs e) p \<and>
        IsReadable (pe_fs e) p \<and> \<not> IsDirectory (pe_fs e) p)"
  by (rule error_response)

text \<open>How an answer of the processors can look, apart from a running script.\<close>

definition answer_ok :: "proc_env \<Rightarrow> request_destination \<Rightarrow> answer \<Rightarrow> bool" where
  "answer_ok e dest a \<longleftrightarrow>
     (case a of
        Answer r \<Rightarrow> framed (pe_fs e) r \<or>
          (rs_code r = HTTP_CREATED \<or> 300 \<le> rs_code r \<and> rs_code r < 400) \<and> unframed r
      | Removed p r \<Rightarrow> rs_code r = HTTP_NO_CONTENT \<and> unframed r \<and> p = c_str (rd_updated_path dest)
      | Await params \<Rightarrow> True)"

lemma answer_ok_error [simp]: "answer_ok e dest (DelegateToErrProc e d rc)"
  by (simp add: answer_ok_def DelegateToErrProc_def error_response)

lemma answer_ok_redirect [simp]: "answer_ok e dest (RedirectProcessor e d rc uri)"
  by (auto simp: RedirectProcessor_def answer_ok_def error_response DelegateToErrProc_def unframed_def
      Response_body_def map_find_def)

lemma answer_ok_serve [simp]: "answer_ok e dest (serve_file e d)"
proof (cases "IsRegularFile (pe_fs e) (rd_updated_path d) \<and> IsReadable (pe_fs e) (rd_updated_path d)")
  case True
  then show ?thesis
    by (simp add: serve_file_def Let_def answer_ok_def framed_def declared_length_def Response_file_def map_find_def)
qed (auto simp: serve_file_def)

lemma answer_ok_listing: "ListDirectory e p = Some r \<Longrightarrow> answer_ok e dest (Answer r)"
  by (auto simp: ListDirectory_def Let_def answer_ok_def framed_def declared_length_def
      Response_body_def map_find_def split: option.splits)

lemma answer_ok_directory: "DirectoryProcessor e d rq = Inr a \<Longrightarrow> answer_ok e dest a"
  by (auto simp: DirectoryProcessor_def Let_def bind_outcome_Inr_iff split: if_splits option.splits
      intro: answer_ok_listing)

lemma answer_ok_get:
  assumes "types_distinct (pe_fs e)" "ProcessGet e dest rq = Some (Inr a)"
  shows "answer_ok e dest a"
proof (cases "rd_loc dest")
  case None
  with assms(2) show ?thesis by (simp add: ProcessGet.simps [of e dest])
next
  case (Some loc)
  from assms(2) ProcessGet_eq [OF assms(1) Some, of rq] show ?thesis
    by (auto split: if_splits option.splits intro: answer_ok_directory)
qed

lemma answer_ok_cgi: "CGIProcessor e dest rq = Inr a \<Longrightarrow> answer_ok e dest a"
  by (auto simp: CGIProcessor_def start_child_def Let_def bind_outcome_Inr_iff
      split: option.splits if_splits) (simp add: answer_ok_def)



section \<open>The properties on concrete input\<close>

definition example_fs :: file_system where
  [eval_simps]: "example_fs =
     \<lparr>access_f = (\<lambda>p. p = ''docs/c''), access_r = (\<lambda>p. p = ''docs/c''), access_x = (\<lambda>_. False),
      stat_of = (\<lambda>p. if p = ''docs/c''
        then Some \<lparr>st_mode = 0x81A4, st_size = 5, st_mtime = 0\<rparr> else None),
      remove_ok = (\<lambda>_. False), content_of = (\<lambda>_. None), readdir_of = (\<lambda>_. None)\<rparr>"

definition example_proc_env :: proc_env where
  [eval_simps]: "example_proc_env =
     \<lparr>pe_fs = example_fs, pe_descr = (\<lambda>_. ''OK''), pe_child_ok = True, pe_callback_ok = True,
      pe_now = 1720000000\<rparr>"

definition example_dest :: request_destination where
  [eval_simps]: "example_dest = \<lparr>rd_server = example_server,
     rd_loc = Some (plain_location ''/a/'' False), rd_updated_path = ''docs/c''\<rparr>"

lemma example_types_distinct: "types_distinct (pe_fs example_proc_env)"
  by (simp add: types_distinct_def IsDirectory_def IsRegularFile_def example_proc_env_def example_fs_def
      S_IFDIR_def S_IFREG_def)

lemma example_get:
  "ProcessGet example_proc_env example_dest rq =
     Some (Inr (Answer (Response_file HTTP_OK HTTP_1_1
       [(''Content-Length'', ''5''), (''Content-Type'', ''application/octet-stream'')] ''docs/c'')))"
proof -
  have "\<not> IsDirectory example_fs ''docs/c''" by (simp add: eval_simps)
  moreover have "serve_file example_proc_env example_dest =
      Answer (Response_file HTTP_OK HTTP_1_1
       [(''Content-Length'', ''5''), (''Content-Type'', ''application/octet-stream'')] ''docs/c'')"
    by (simp add: eval_simps str_simps print_base.simps)
  ultimately show ?thesis
    using ProcessGet_eq [OF example_types_distinct, of example_dest "plain_location ''/a/'' False" rq]
    by (simp add: example_dest_def example_proc_env_def)
qed


lemma example_request:
  "rq_status (request_for ''/a/c'') = HTTP_OK" "rq_method (request_for ''/a/c'') = HTTP_GET"
  "target_path (request_for ''/a/c'') = ''/a/c''" "GetHeaderVal (request_for ''/a/c'') ''Host'' \<noteq> None"
  by (simp_all add: eval_simps)



end
