(* ===== verification/CgiProcess.thy ===== *)
theory CgiProcess
  imports Processors Machine
begin

text \<open>
  The life of \<open>src/server/response_processors/CGIProcessor.cpp\<close> after its constructor: output of the
  script arrives on a socket, the end of the child process is reported by the process manager, and
  both have to happen before the response is made.
\<close>

unbundle bit_operations_syntax

section \<open>State\<close>

definition CGI_CHILD_OUTPUT_READ :: "32 word" where [eval_simps]: "CGI_CHILD_OUTPUT_READ = 1"
definition CGI_CHILD_EXITED :: "32 word" where [eval_simps]: "CGI_CHILD_EXITED = 2"

definition CGI_READY_TO_PROCEED :: "32 word" where
  [eval_simps]: "CGI_READY_TO_PROCEED = CGI_CHILD_EXITED OR CGI_CHILD_OUTPUT_READ"

definition CGI_DONE :: "32 word" where
  [eval_simps]: "CGI_DONE = 4 OR CGI_READY_TO_PROCEED"

text \<open>
  \<open>cp_child\<close> is the description of the child (set or unset), \<open>cp_callback\<close> whether the response
  callback is still owned, \<open>cp_sent\<close> what was handed to it.  \<open>cp_registered\<close> and \<open>cp_listed\<close> are
  what the processor made of the two managers: its read callback is registered and not yet to be
  deleted, and the child is in the list of children.
\<close>

record cgi_processor =
  cp_child :: bool
  cp_out :: string
  cp_state :: "32 word"
  cp_callback :: bool
  cp_sent :: "response list"
  cp_registered :: bool
  cp_listed :: bool

definition CGIProcessor_started :: cgi_processor where
  [eval_simps]: "CGIProcessor_started =
     \<lparr>cp_child = True, cp_out = [], cp_state = 0, cp_callback = True, cp_sent = [],
      cp_registered = True, cp_listed = True\<rparr>"

section \<open>Handlers\<close>

text \<open>Calling through a callback that was handed on throws.\<close>

definition call_response_cb :: "response \<Rightarrow> cgi_processor \<Rightarrow> cgi_processor outcome" where
  [eval_simps]: "call_response_cb r p =
     (if cp_callback p then Inr (p\<lparr>cp_sent := cp_sent p @ [r]\<rparr>) else Inl Runtime_error)"

definition delegate_error ::
  "proc_env \<Rightarrow> request_destination \<Rightarrow> response_code \<Rightarrow> cgi_processor \<Rightarrow> cgi_processor outcome" where
  [eval_simps]: "delegate_error e dest rc p =
     bind_outcome (call_response_cb (ErrorProcessor e dest rc) p) (\<lambda>q. Inr (q\<lparr>cp_callback := False\<rparr>))"

definition ProceedWithRsIfRdy ::
  "proc_env \<Rightarrow> request_destination \<Rightarrow> cgi_processor \<Rightarrow> cgi_processor outcome" where
  [eval_simps]: "ProceedWithRsIfRdy e dest p =
     (if cp_state p \<noteq> CGI_READY_TO_PROCEED then Inr p
      else
        let parsed = ParseCgiResponse (cp_out p);
            q = p\<lparr>cp_state := CGI_DONE, cp_child := False, cp_out := snd parsed\<rparr>
        in case fst parsed of
          None \<Rightarrow> delegate_error e dest HTTP_INTERNAL_SERVER_ERROR q
        | Some r \<Rightarrow> call_response_cb r q)"

datatype cgi_event = Recv_error | Recv_data string | Recv_closed | Child_done int

text \<open>\<open>child_process_description_->\<close> throws when the description is unset.\<close>

definition DeleteCallback_of_child :: "cgi_processor \<Rightarrow> cgi_processor outcome" where
  [eval_simps]: "DeleteCallback_of_child p =
     (if cp_child p then Inr (p\<lparr>cp_registered := False\<rparr>) else Inl Runtime_error)"

definition ReadChildOutput ::
  "proc_env \<Rightarrow> request_destination \<Rightarrow> cgi_event \<Rightarrow> cgi_processor \<Rightarrow> cgi_processor outcome" where
  [eval_simps]: "ReadChildOutput e dest pack p =
     (if \<not> cp_child p then Inl Runtime_error
      else case pack of
        Recv_error \<Rightarrow>
          bind_outcome (DeleteCallback_of_child p) (\<lambda>q.
            delegate_error e dest HTTP_INTERNAL_SERVER_ERROR (q\<lparr>cp_listed := False, cp_child := False\<rparr>))
      | Recv_data s \<Rightarrow> Inr (p\<lparr>cp_out := cp_out p @ s\<rparr>)
      | Recv_closed \<Rightarrow>
          bind_outcome (DeleteCallback_of_child (p\<lparr>cp_state := cp_state p OR CGI_CHILD_OUTPUT_READ\<rparr>))
            (ProceedWithRsIfRdy e dest)
      | Child_done _ \<Rightarrow> Inr p)"

definition ChildProcessDone ::
  "proc_env \<Rightarrow> request_destination \<Rightarrow> int \<Rightarrow> cgi_processor \<Rightarrow> cgi_processor outcome" where
  [eval_simps]: "ChildProcessDone e dest child_exit_status p =
     (if child_exit_status \<noteq> 0 then
        bind_outcome (DeleteCallback_of_child p) (\<lambda>q.
          delegate_error e dest HTTP_INTERNAL_SERVER_ERROR (q\<lparr>cp_child := False\<rparr>))
      else ProceedWithRsIfRdy e dest (p\<lparr>cp_state := cp_state p OR CGI_CHILD_EXITED\<rparr>))"

text \<open>The destructor gives up the callback and kills a child that is still there.\<close>

definition CGIProcessor_destroy :: "cgi_processor \<Rightarrow> cgi_processor" where
  [eval_simps]: "CGIProcessor_destroy p =
     (if cp_child p then p\<lparr>cp_registered := False, cp_listed := False\<rparr> else p)"

text \<open>The process manager drops a child from its list after it has called back.\<close>

definition cgi_step ::
  "proc_env \<Rightarrow> request_destination \<Rightarrow> cgi_event \<Rightarrow> cgi_processor \<Rightarrow> cgi_processor outcome" where
  [eval_simps]: "cgi_step e dest ev p =
     (case ev of
        Child_done status \<Rightarrow>
          bind_outcome (ChildProcessDone e dest status p) (\<lambda>q. Inr (q\<lparr>cp_listed := False\<rparr>))
      | _ \<Rightarrow> ReadChildOutput e dest ev p)"

text \<open>Output is read only while the callback is registered, an exit is reported once.\<close>

definition cgi_guard :: "cgi_event \<Rightarrow> cgi_processor \<Rightarrow> bool" where
  [eval_simps]: "cgi_guard ev p \<longleftrightarrow> (case ev of Child_done _ \<Rightarrow> cp_listed p | _ \<Rightarrow> cp_registered p)"

section \<open>One response\<close>

text \<open>
  While the child is there nothing was sent, and each of the two bits of the state says that the
  event it stands for will not come again; once it is gone there is one response and nothing is
  waited for.
\<close>

definition cgi_inv :: "cgi_processor \<Rightarrow> bool" where
  "cgi_inv p \<longleftrightarrow>
     (if cp_child p then cp_callback p \<and> cp_sent p = [] \<and>
        (cp_registered p \<and> cp_listed p \<and> cp_state p = 0 \<or>
         \<not> cp_registered p \<and> cp_listed p \<and> cp_state p = CGI_CHILD_OUTPUT_READ \<or>
         cp_registered p \<and> \<not> cp_listed p \<and> cp_state p = CGI_CHILD_EXITED)
      else \<not> cp_registered p \<and> \<not> cp_listed p \<and> length (cp_sent p) = 1)"

lemmas cgi_flags = CGI_CHILD_OUTPUT_READ_def CGI_CHILD_EXITED_def CGI_READY_TO_PROCEED_def CGI_DONE_def

lemma cgi_flag_sums [simp]:
  "CGI_CHILD_EXITED OR CGI_CHILD_OUTPUT_READ = CGI_READY_TO_PROCEED"
  "CGI_CHILD_OUTPUT_READ OR CGI_CHILD_EXITED = CGI_READY_TO_PROCEED"
  "CGI_CHILD_EXITED \<noteq> CGI_READY_TO_PROCEED" "CGI_CHILD_OUTPUT_READ \<noteq> CGI_READY_TO_PROCEED"
  by (simp_all add: cgi_flags)

lemma Proceed_waits: "cp_state p \<noteq> CGI_READY_TO_PROCEED \<Longrightarrow> ProceedWithRsIfRdy e dest p = Inr p"
  by (simp add: ProceedWithRsIfRdy_def)

text \<open>The response of the output: what the script printed, or the error page.\<close>

definition script_response :: "proc_env \<Rightarrow> request_destination \<Rightarrow> string \<Rightarrow> response" where
  "script_response e dest out =
     (case fst (ParseCgiResponse out) of
        None \<Rightarrow> ErrorProcessor e dest HTTP_INTERNAL_SERVER_ERROR | Some r \<Rightarrow> r)"

lemma Proceed_sends:
  assumes "cp_state p = CGI_READY_TO_PROCEED" "cp_callback p"
  shows "\<exists>q. ProceedWithRsIfRdy e dest p = Inr q \<and> \<not> cp_child q \<and>
    cp_sent q = cp_sent p @ [script_response e dest (cp_out p)] \<and>
    cp_registered q = cp_registered p \<and> cp_listed q = cp_listed p"
  using assms
  by (cases "fst (ParseCgiResponse (cp_out p))")
    (simp_all add: ProceedWithRsIfRdy_def Let_def delegate_error_def call_response_cb_def script_response_def)

lemma cgi_step_inv:
  assumes "cgi_inv p" "cgi_guard ev p"
  shows "\<exists>q. cgi_step e dest ev p = Inr q \<and> cgi_inv q"
proof -
  have child: "cp_child p" using assms by (auto simp: cgi_inv_def cgi_guard_def split: cgi_event.splits if_splits)
  show ?thesis
  proof (cases ev)
    case Recv_error
    with assms child show ?thesis
      by (auto simp: cgi_step_def ReadChildOutput_def DeleteCallback_of_child_def delegate_error_def
          call_response_cb_def cgi_inv_def)
  next
    case (Recv_data s)
    with assms child show ?thesis by (auto simp: cgi_step_def ReadChildOutput_def cgi_inv_def)
  next
    case Recv_closed
    let ?p = "p\<lparr>cp_state := cp_state p OR CGI_CHILD_OUTPUT_READ, cp_registered := False\<rparr>"
    have step: "cgi_step e dest ev p = ProceedWithRsIfRdy e dest ?p"
      using Recv_closed child by (simp add: cgi_step_def ReadChildOutput_def DeleteCallback_of_child_def)
    from assms child Recv_closed consider "cp_listed p" "cp_state p = 0"
      | "\<not> cp_listed p" "cp_state p = CGI_CHILD_EXITED"
      by (auto simp: cgi_inv_def cgi_guard_def)
    then show ?thesis
    proof cases
      case 1
      then have "cp_state ?p = CGI_CHILD_OUTPUT_READ" by simp
      then have "ProceedWithRsIfRdy e dest ?p = Inr ?p" by (intro Proceed_waits) simp
      moreover have "cgi_inv ?p" using assms(1) child 1 by (simp add: cgi_inv_def)
      ultimately show ?thesis using step by simp
    next
      case 2
      then have ready: "cp_state ?p = CGI_READY_TO_PROCEED" "cp_callback ?p" "cp_sent p = []"
        using assms(1) child by (simp_all add: cgi_inv_def)
      obtain q where "ProceedWithRsIfRdy e dest ?p = Inr q" "cgi_inv q"
        using Proceed_sends [OF ready(1,2), of e dest] 2 ready(3) by (auto simp: cgi_inv_def)
      then show ?thesis using step by simp
    qed
  next
    case (Child_done status)
    show ?thesis
    proof (cases "status = 0")
      case False
      with assms child Child_done show ?thesis
        by (auto simp: cgi_step_def ChildProcessDone_def DeleteCallback_of_child_def delegate_error_def
            call_response_cb_def cgi_inv_def)
    next
      case True
      let ?p = "p\<lparr>cp_state := cp_state p OR CGI_CHILD_EXITED\<rparr>"
      have step: "cgi_step e dest ev p =
          bind_outcome (ProceedWithRsIfRdy e dest ?p) (\<lambda>q. Inr (q\<lparr>cp_listed := False\<rparr>))"
        using Child_done True by (simp add: cgi_step_def ChildProcessDone_def)
      from assms child Child_done consider "cp_registered p" "cp_state p = 0"
        | "\<not> cp_registered p" "cp_state p = CGI_CHILD_OUTPUT_READ"
        by (auto simp: cgi_inv_def cgi_guard_def)
      then show ?thesis
      proof cases
        case 1
        then have "cp_state ?p = CGI_CHILD_EXITED" by simp
        then have "ProceedWithRsIfRdy e dest ?p = Inr ?p" by (intro Proceed_waits) simp
        moreover have "cgi_inv (?p\<lparr>cp_listed := False\<rparr>)"
          using assms(1) child 1 by (simp add: cgi_inv_def)
        ultimately show ?thesis using step by simp
      next
        case 2
        then have ready: "cp_state ?p = CGI_READY_TO_PROCEED" "cp_callback ?p" "cp_sent p = []"
          using assms(1) child by (simp_all add: cgi_inv_def)
        obtain q where "ProceedWithRsIfRdy e dest ?p = Inr q" "cgi_inv (q\<lparr>cp_listed := False\<rparr>)"
          using Proceed_sends [OF ready(1,2), of e dest] 2 ready(3) by (auto simp: cgi_inv_def)
        then show ?thesis using step by simp
      qed
    qed
  qed
qed

interpretation cgi_machine: guarded_machine "cgi_step e dest" cgi_guard cgi_inv for e dest
  by unfold_locales (rule cgi_step_inv)

lemma cgi_started_inv: "cgi_inv CGIProcessor_started"
  by (simp add: cgi_inv_def CGIProcessor_started_def)

text \<open>C27: whatever happens to a running script, in whatever order, no handler throws, at most one
  response is handed on, and one is exactly when neither output nor the exit is waited for.\<close>

theorem cgi_one_response:
  assumes "can_happen (cgi_step e dest) cgi_guard CGIProcessor_started evs"
  shows "\<exists>p. run_events (cgi_step e dest) CGIProcessor_started evs = Inr p \<and> length (cp_sent p) \<le> 1 \<and>
    (length (cp_sent p) = 1 \<longleftrightarrow> \<not> cp_registered p \<and> \<not> cp_listed p)"
proof -
  obtain p where "run_events (cgi_step e dest) CGIProcessor_started evs = Inr p" "cgi_inv p"
    using cgi_machine.runs [OF cgi_started_inv assms] by blast
  then show ?thesis by (auto simp: cgi_inv_def split: if_splits)
qed

section \<open>Which response\<close>

fun event_output :: "cgi_event \<Rightarrow> string" where
  "event_output (Recv_data s) = s"
| "event_output _ = []"

fun event_failed :: "cgi_event \<Rightarrow> bool" where
  "event_failed Recv_error = True"
| "event_failed (Child_done status) = (status \<noteq> 0)"
| "event_failed _ = False"

definition final_response :: "proc_env \<Rightarrow> request_destination \<Rightarrow> cgi_event list \<Rightarrow> response" where
  "final_response e dest evs =
     (if \<exists>ev\<in>set evs. event_failed ev then ErrorProcessor e dest HTTP_INTERNAL_SERVER_ERROR
      else script_response e dest (concat (map event_output evs)))"

lemma cgi_inv_child: "cgi_inv p \<Longrightarrow> cgi_guard ev p \<Longrightarrow> cp_child p \<and> cp_callback p \<and> cp_sent p = []"
  by (auto simp: cgi_inv_def cgi_guard_def split: cgi_event.splits if_splits)

lemma ready_or_waits:
  assumes "cp_callback p" "cp_sent p = []" "cp_child p" "ProceedWithRsIfRdy e dest p = Inr q"
  shows "if cp_child q then cp_out q = cp_out p
    else cp_sent q = [script_response e dest (cp_out p)]"
proof (cases "cp_state p = CGI_READY_TO_PROCEED")
  case True
  with Proceed_sends [OF True assms(1), of e dest] assms show ?thesis by auto
next
  case False
  with assms show ?thesis by (auto simp: Proceed_waits)
qed

lemma cgi_step_result:
  assumes "cgi_inv p" "cgi_guard ev p" "cgi_step e dest ev p = Inr q"
  shows "if cp_child q then cp_out q = cp_out p @ event_output ev \<and> \<not> event_failed ev
    else cp_sent q = [if event_failed ev then ErrorProcessor e dest HTTP_INTERNAL_SERVER_ERROR
      else script_response e dest (cp_out p @ event_output ev)]"
proof -
  note child = cgi_inv_child [OF assms(1,2)]
  show ?thesis
  proof (cases ev)
    case Recv_error
    with assms(3) child show ?thesis
      by (auto simp: cgi_step_def ReadChildOutput_def DeleteCallback_of_child_def delegate_error_def
          call_response_cb_def)
  next
    case (Recv_data s)
    with assms(3) child show ?thesis by (auto simp: cgi_step_def ReadChildOutput_def)
  next
    case Recv_closed
    let ?p = "p\<lparr>cp_state := cp_state p OR CGI_CHILD_OUTPUT_READ, cp_registered := False\<rparr>"
    have "ProceedWithRsIfRdy e dest ?p = Inr q"
      using Recv_closed child assms(3)
      by (simp add: cgi_step_def ReadChildOutput_def DeleteCallback_of_child_def)
    then show ?thesis using ready_or_waits [of ?p e dest q] child Recv_closed by simp
  next
    case (Child_done status)
    show ?thesis
    proof (cases "status = 0")
      case False
      with assms(3) child Child_done show ?thesis
        by (auto simp: cgi_step_def ChildProcessDone_def DeleteCallback_of_child_def delegate_error_def
            call_response_cb_def)
    next
      case True
      let ?p = "p\<lparr>cp_state := cp_state p OR CGI_CHILD_EXITED\<rparr>"
      obtain r where "ProceedWithRsIfRdy e dest ?p = Inr r" "q = r\<lparr>cp_listed := False\<rparr>"
        using Child_done True assms(3)
        by (auto simp: cgi_step_def ChildProcessDone_def bind_outcome_Inr_iff)
      then show ?thesis using ready_or_waits [of ?p e dest r] child Child_done True by simp
    qed
  qed
qed

lemma cgi_run_result:
  assumes "can_happen (cgi_step e dest) cgi_guard CGIProcessor_started evs"
    "run_events (cgi_step e dest) CGIProcessor_started evs = Inr p"
  shows "cgi_inv p \<and> (if cp_child p
    then cp_out p = concat (map event_output evs) \<and> (\<forall>ev\<in>set evs. \<not> event_failed ev)
    else cp_sent p = [final_response e dest evs])"
  using assms
proof (induction evs arbitrary: p rule: rev_induct)
  case Nil
  have "cp_child CGIProcessor_started" "cp_out CGIProcessor_started = []"
    by (simp_all add: CGIProcessor_started_def)
  with Nil show ?case by (auto simp: cgi_started_inv)
next
  case (snoc ev evs)
  then obtain m where m: "run_events (cgi_step e dest) CGIProcessor_started evs = Inr m"
    "cgi_step e dest ev m = Inr p"
    by (auto simp: run_events_append bind_outcome_Inr_iff)
  with snoc.prems(1) have can: "can_happen (cgi_step e dest) cgi_guard CGIProcessor_started evs"
    and guard: "cgi_guard ev m" by (auto simp: can_happen_append)
  note IH = snoc.IH [OF can m(1)]
  have child: "cp_child m" using IH cgi_inv_child [of m ev] guard by simp
  have "cgi_inv p" using cgi_step_inv [of m ev e dest] IH guard m(2) by auto
  with cgi_step_result [of m ev e dest p] IH child guard m(2) show ?case
    by (auto simp: final_response_def split: if_splits)
qed

text \<open>C28: the response of a script depends only on what it printed and on whether something failed:
  it is made from the whole output, however the output was cut into reads and whether the exit of the
  child or the end of the output is noticed first; a failure gives the error page 500.\<close>

theorem cgi_response_of_output:
  assumes "can_happen (cgi_step e dest) cgi_guard CGIProcessor_started evs"
    and "run_events (cgi_step e dest) CGIProcessor_started evs = Inr p"
  shows "cp_sent p = (if cp_child p then [] else [final_response e dest evs])"
  using cgi_run_result [OF assms] by (auto simp: cgi_inv_def)

section \<open>The properties on concrete input\<close>

definition example_events :: "cgi_event list" where
  "example_events = [Recv_data ''A: b'', Child_done 0, Recv_data [LF, LF], Recv_closed]"

definition waiting_child :: "string \<Rightarrow> cgi_processor" where
  "waiting_child out = \<lparr>cp_child = True, cp_out = out, cp_state = CGI_CHILD_EXITED, cp_callback = True,
     cp_sent = [], cp_registered = True, cp_listed = False\<rparr>"

lemma example_prefix:
  "run_events (cgi_step e dest) CGIProcessor_started [Recv_data ''A: b'', Child_done 0, Recv_data [LF, LF]]
     = Inr (waiting_child (''A: b'' @ [LF, LF]))
   \<and> can_happen (cgi_step e dest) cgi_guard CGIProcessor_started
      [Recv_data ''A: b'', Child_done 0, Recv_data [LF, LF]]"
  by (simp add: eval_simps waiting_child_def)

lemma example_events_happen:
  "can_happen (cgi_step e dest) cgi_guard CGIProcessor_started example_events"
proof -
  let ?es = "[Recv_data ''A: b'', Child_done 0, Recv_data [LF, LF]]"
  have split: "example_events = ?es @ [Recv_closed]" by (simp add: example_events_def)
  have last_step: "can_happen (cgi_step e dest) cgi_guard (waiting_child out) [Recv_closed]" for out
    by (simp add: cgi_guard_def waiting_child_def split: sum.split)
  from example_prefix [of e dest] have run: "run_events (cgi_step e dest) CGIProcessor_started ?es
      = Inr (waiting_child (''A: b'' @ [LF, LF]))"
    and can: "can_happen (cgi_step e dest) cgi_guard CGIProcessor_started ?es" by blast+
  show ?thesis
    unfolding split can_happen_append run using can last_step by (simp only: sum.case simp_thms)
qed

theorem cgi_one_response_witness:
  "\<exists>p. run_events (cgi_step example_proc_env example_dest) CGIProcessor_started example_events = Inr p
    \<and> length (cp_sent p) \<le> 1"
  using cgi_one_response [OF example_events_happen, of example_proc_env example_dest] by blast

theorem cgi_response_of_output_witness:
  "\<exists>p. run_events (cgi_step example_proc_env example_dest) CGIProcessor_started example_events = Inr p
    \<and> cp_sent p = (if cp_child p then []
        else [final_response example_proc_env example_dest example_events])"
  using cgi_response_of_output [OF example_events_happen, of example_proc_env example_dest]
    cgi_machine.runs [OF cgi_started_inv example_events_happen, of example_proc_env example_dest] by blast

end
