(* ===== verification/ChildProcesses.thy ===== *)
theory ChildProcesses
  imports Processors
begin

text \<open>
  \<open>src/c_api/ChildProcessesManager.cpp\<close>: the children that run scripts, their time limit, and the
  report of their exit.  What \<open>socketpair\<close>, \<open>fork\<close>, \<open>waitpid\<close> and the calls of the child answer is
  given from outside.
\<close>

section \<open>The list of children\<close>

record 'cb child =
  time_to_kill :: int
  cb_on_exit :: 'cb

type_synonym 'cb children = "(int, 'cb child) std_map"

definition kDefaultTimeoutSeconds :: int where
  [eval_simps]: "kDefaultTimeoutSeconds = 5"

definition RegisterChildProcess :: "int \<Rightarrow> int \<Rightarrow> 'cb \<Rightarrow> 'cb children \<Rightarrow> 'cb children" where
  [eval_simps]: "RegisterChildProcess child_pid timeout_ts cb children =
     fst (map_insert child_pid \<lparr>time_to_kill = timeout_ts, cb_on_exit = cb\<rparr> children)"

text \<open>
  The parent's side: \<open>None\<close> when \<open>socketpair\<close> or \<open>fork\<close> failed, else the process id; the child's side
  does not return.
\<close>

definition TryRunChildProcess ::
  "bool \<Rightarrow> int \<Rightarrow> int \<Rightarrow> 'cb \<Rightarrow> 'cb children \<Rightarrow> int option \<times> 'cb children" where
  [eval_simps]: "TryRunChildProcess socket_pair_ok fork_result now cb children =
     (if \<not> socket_pair_ok then (None, children)
      else if fork_result < 0 then (None, children)
      else (Some fork_result,
        RegisterChildProcess fork_result (now + kDefaultTimeoutSeconds) cb children))"

definition KillChildProcess :: "int \<Rightarrow> 'cb children \<Rightarrow> int list \<times> 'cb children" where
  [eval_simps]: "KillChildProcess pid children =
     (if map_find children pid = None then ([], children) else ([pid], map_erase pid children))"

text \<open>
  One round.  The children over their time are killed.  Then the callback of each child that ended is
  called with its status, in the order of the process ids; \<open>wait\<close> is what \<open>waitpid\<close> answers, \<open>None\<close> for a
  child that still runs, and \<open>call\<close> what a callback does to the state of the program, with the exception
  it throws if it throws one.  The children that were reported are dropped after the loop, so an exception
  leaves all of them in the list.  No callback of the program starts or kills a child itself.
\<close>

definition overdue :: "int \<Rightarrow> 'cb children \<Rightarrow> int list" where
  [eval_simps]: "overdue now children = map fst (filter (\<lambda>(_, c). time_to_kill c \<le> now) children)"

fun report_exits :: "('cb \<Rightarrow> int \<Rightarrow> 's \<Rightarrow> exn option \<times> 's) \<Rightarrow> (int \<Rightarrow> int option) \<Rightarrow> 'cb children \<Rightarrow> int list \<Rightarrow> 's
    \<Rightarrow> (exn + int list) \<times> 's" where
  "report_exits call wait [] to_delete s = (Inr to_delete, s)"
| "report_exits call wait ((pid, c) # children) to_delete s =
     (case wait pid of None \<Rightarrow> report_exits call wait children to_delete s
      | Some status \<Rightarrow> (case call (cb_on_exit c) status s of
          (Some e, t) \<Rightarrow> (Inl e, t)
        | (None, t) \<Rightarrow> report_exits call wait children (to_delete @ [pid]) t))"

definition Children_CheckOnce ::
  "('cb \<Rightarrow> int \<Rightarrow> 's \<Rightarrow> exn option \<times> 's) \<Rightarrow> int \<Rightarrow> (int \<Rightarrow> int option) \<Rightarrow> 'cb children \<Rightarrow> 's
     \<Rightarrow> int list \<times> exn option \<times> 'cb children \<times> 's" where
  [eval_simps]: "Children_CheckOnce call now wait children s =
     (overdue now children,
      (case report_exits call wait children [] s of
         (Inl e, t) \<Rightarrow> (Some e, children, t)
       | (Inr to_delete, t) \<Rightarrow> (None, fold map_erase to_delete children, t)))"

section \<open>The child\<close>

text \<open>How the forked process ends: with an exit code, or by running the interpreter.\<close>

datatype child_end = Exit_with int
  | Exec string "string list" "string list" string

record child_system =
  dup_stdout_ok :: bool
  open_input_ok :: "string \<Rightarrow> bool"
  dup_stdin_ok :: bool
  fd_names :: "string list option"
  chdir_ok :: "string \<Rightarrow> bool"
  execve_ok :: "string \<Rightarrow> bool"

definition CHILD_ERROR_EXIT_CODE :: int where
  [eval_simps]: "CHILD_ERROR_EXIT_CODE = 7"

definition SetUpChild :: "child_system \<Rightarrow> exec_params \<Rightarrow> child_end" where
  [eval_simps]: "SetUpChild sys params =
     (if \<not> dup_stdout_ok sys then Exit_with 1
      else if redirect_input_from_file params \<noteq> [] \<and> \<not> open_input_ok sys (c_str (redirect_input_from_file params))
      then Exit_with CHILD_ERROR_EXIT_CODE
      else if redirect_input_from_file params \<noteq> [] \<and> \<not> dup_stdin_ok sys
      then Exit_with CHILD_ERROR_EXIT_CODE
      else if \<not> fst (CloseProcessFdsButStd (fd_names sys)) then Exit_with CHILD_ERROR_EXIT_CODE
      else if \<not> chdir_ok sys (c_str (script_location params)) then Exit_with CHILD_ERROR_EXIT_CODE
      else if \<not> execve_ok sys (c_str (interpreter params)) then Exit_with CHILD_ERROR_EXIT_CODE
      else Exec (c_str (interpreter params))
        [c_str (interpreter params), c_str (script_name params)] (map c_str (child_env params))
        (c_str (script_location params)))"

section \<open>Reports\<close>

text \<open>The calls that a round has to make, and what making them in turn comes to.\<close>

definition exited :: "(int \<Rightarrow> int option) \<Rightarrow> 'cb children \<Rightarrow> (int \<times> int \<times> 'cb) list" where
  [eval_simps]: "exited wait children =
     List.map_filter (\<lambda>(pid, c). map_option (\<lambda>status. (pid, status, cb_on_exit c)) (wait pid)) children"

fun call_all :: "('cb \<Rightarrow> int \<Rightarrow> 's \<Rightarrow> exn option \<times> 's) \<Rightarrow> (int \<times> int \<times> 'cb) list \<Rightarrow> 's \<Rightarrow> exn option \<times> 's" where
  "call_all call [] s = (None, s)"
| "call_all call ((_, status, cb) # reports) s =
     (case call cb status s of (Some e, t) \<Rightarrow> (Some e, t) | (None, t) \<Rightarrow> call_all call reports t)"

lemma report_exits_calls:
  "report_exits call wait children to_delete s = (case call_all call (exited wait children) s of
     (Some e, t) \<Rightarrow> (Inl e, t) | (None, t) \<Rightarrow> (Inr (to_delete @ map fst (exited wait children)), t))"
proof (induction children arbitrary: to_delete s)
  case (Cons pc children)
  then show ?case
    by (cases pc) (auto simp: exited_def List.map_filter_simps split: option.split prod.split)
qed (simp add: exited_def List.map_filter_simps)

lemma fold_erase_find:
  "map_sorted m \<Longrightarrow> map_sorted (fold map_erase ks m) \<and>
     map_find (fold map_erase ks m) j = (if j \<in> set ks then None else map_find m j)"
  by (induction ks arbitrary: m) (auto simp: map_sorted_erase map_find_erase)

lemma exited_iff:
  "map_sorted children \<Longrightarrow> (pid, status, cb) \<in> set (exited wait children) \<longleftrightarrow>
     (\<exists>c. map_find children pid = Some c \<and> cb = cb_on_exit c \<and> wait pid = Some status)"
proof -
  assume "map_sorted children"
  then have "distinct (map fst children)" by (simp add: map_sorted_def strict_sorted_iff)
  then have "map_find children pid = Some c \<longleftrightarrow> (pid, c) \<in> set children" for c
    by (simp add: map_find_def)
  then show ?thesis
    by (force simp: exited_def List.map_filter_def image_iff split: option.splits)
qed

lemma exited_distinct:
  "map_sorted children \<Longrightarrow> distinct (map fst (exited wait children))"
proof (induction children)
  case (Cons pc children)
  obtain pid c where pc: "pc = (pid, c)" by (cases pc)
  have "fst ` set (exited wait children) \<subseteq> fst ` set children"
    by (force simp: exited_def List.map_filter_def)
  moreover have "pid \<notin> fst ` set children" using Cons.prems pc by auto
  ultimately have "pid \<notin> fst ` set (exited wait children)" by blast
  moreover have "exited wait (pc # children) = (case wait pid of None \<Rightarrow> exited wait children
      | Some status \<Rightarrow> (pid, status, cb_on_exit c) # exited wait children)"
    by (simp add: exited_def pc List.map_filter_simps split: option.split)
  ultimately show ?case using Cons pc by (simp split: option.split)
qed (simp add: exited_def List.map_filter_simps)

text \<open>C31: each round calls, once, the callback of every child that ended, with its status, and of no
  other; when none of them throws it forgets those children and keeps the others, when one throws the
  calls end there and no child is forgotten; and exactly those at or over their time limit are killed.\<close>

theorem children_reported_once:
  assumes "map_sorted children" "Children_CheckOnce call now wait children s = (killed, thrown, rest, t)"
  shows "\<exists>reports. distinct (map fst reports) \<and> map_sorted rest \<and>
    (\<forall>pid status cb. (pid, status, cb) \<in> set reports \<longleftrightarrow>
       (\<exists>c. map_find children pid = Some c \<and> cb = cb_on_exit c \<and> wait pid = Some status)) \<and>
    call_all call reports s = (thrown, t) \<and>
    (\<forall>pid. map_find rest pid = (if wait pid = None \<or> thrown \<noteq> None then map_find children pid else None)) \<and>
    (\<forall>pid. pid \<in> set killed \<longleftrightarrow> (\<exists>c. map_find children pid = Some c \<and> time_to_kill c \<le> now))"
proof -
  have res: "killed = overdue now children" "call_all call (exited wait children) s = (thrown, t)"
    "rest = (if thrown = None then fold map_erase (map fst (exited wait children)) children else children)"
    using assms(2) by (auto simp: Children_CheckOnce_def report_exits_calls split: prod.splits option.splits)
  have "distinct (map fst children)" using assms(1) by (simp add: map_sorted_def strict_sorted_iff)
  then have find: "map_find children pid = Some c \<longleftrightarrow> (pid, c) \<in> set children" for pid c
    by (simp add: map_find_def)
  have "set (map fst (exited wait children)) = {pid. map_find children pid \<noteq> None \<and> wait pid \<noteq> None}"
    using exited_iff [OF assms(1), of _ _ _ wait] by force
  then have rest: "map_sorted rest"
    "map_find rest pid = (if wait pid = None \<or> thrown \<noteq> None then map_find children pid else None)" for pid
    using fold_erase_find [OF assms(1), of "map fst (exited wait children)"] assms(1) res(3) by auto
  have "pid \<in> set killed \<longleftrightarrow> (\<exists>c. map_find children pid = Some c \<and> time_to_kill c \<le> now)" for pid
    unfolding find by (force simp: res(1) overdue_def)
  then show ?thesis
    using exited_distinct [OF assms(1)] exited_iff [OF assms(1)] rest res(2)
    by (intro exI [of _ "exited wait children"]) simp
qed

text \<open>Two children, one over its time and one that ended; the callbacks write down what they are told.\<close>

theorem children_reported_once_witness:
  "map_find [(7 :: int, \<lparr>time_to_kill = 10, cb_on_exit = ''ca''\<rparr>)] 9 = None \<and>
   (\<exists>reports. distinct (map fst reports) \<and>
      call_all (\<lambda>cb status log. (None, log @ [(cb, status)])) reports [] = (None, [(''cb'', 0)]))"
  using children_reported_once [of "[(7, \<lparr>time_to_kill = 10, cb_on_exit = ''ca''\<rparr>),
      (9, \<lparr>time_to_kill = 20, cb_on_exit = ''cb''\<rparr>)]" "\<lambda>cb status log. (None, log @ [(cb, status)])" 15
      "\<lambda>pid. if pid = 9 then Some 0 else None" "[]" "[7]" None
      "[(7, \<lparr>time_to_kill = 10, cb_on_exit = ''ca''\<rparr>)]" "[(''cb'', 0)]"]
  by (auto simp: Children_CheckOnce_def overdue_def)

text \<open>
  The callbacks of the program take a session from waiting for its script to answering, and throw only
  when memory does not suffice.  One that throws leaves its own child, which is gone, in the list.
\<close>

lemma throwing_callback_keeps_child:
  assumes "map_sorted children" "map_find children pid = Some c" "wait pid = Some status"
    and "Children_CheckOnce call now wait children s = (killed, Some e, rest, t)"
  shows "map_find rest pid = Some c"
  using assms(2,4) by (auto simp: Children_CheckOnce_def split: prod.splits sum.splits)

text \<open>A child that is killed on request is forgotten at once: no later round waits for it or
  reports it, so that nobody collects its exit status.\<close>

lemma killed_child_is_forgotten:
  assumes "map_sorted children" "KillChildProcess pid children = (signals, rest)"
  shows "map_find rest pid = None \<and> pid \<notin> fst ` set (exited wait rest) \<and>
    (signals = [pid] \<longleftrightarrow> map_find children pid \<noteq> None)"
proof -
  have rest: "map_find rest pid = None" "map_sorted rest" "signals = [pid] \<longleftrightarrow> map_find children pid \<noteq> None"
    using assms by (auto simp: KillChildProcess_def map_find_erase map_sorted_erase split: if_splits)
  then show ?thesis using exited_iff [OF rest(2), of pid _ _ wait] by fastforce
qed

lemma killed_child_is_forgotten_example:
  "map_find ([] :: string children) 7 = None"
  using killed_child_is_forgotten [of "[(7, \<lparr>time_to_kill = 10, cb_on_exit = ''ca''\<rparr>)]" 7 "[7]" "[]" "\<lambda>_. Some 0"]
  by (simp add: KillChildProcess_def map_find_def)

end
