(* ===== verification/IPv4.thy ===== *)
theory IPv4
  imports NumericUtils "HOL-Library.Word"
begin

text \<open>
  \<open>src/c_api/c_api_utils.cpp\<close>: addresses as text and as the structure of the socket calls.  An
  \<open>in_addr_t\<close> is a 32-bit word in host order, a port a 16-bit word; \<open>htonl\<close> and \<open>htons\<close> are those of
  a little-endian host, where they reverse the bytes.
\<close>

unbundle bit_operations_syntax

definition INADDR_LOOPBACK :: "32 word" where
  [eval_simps]: "INADDR_LOOPBACK = 0x7F000001"

text \<open>
  The loop of \<open>IPv4FromString\<close>, with \<open>n\<close> for \<open>3 - i\<close>.  Every extraction from the stream skips blanks
  first; after the last number the stream is at its end exactly when nothing is left of it.
\<close>

fun read_octets :: "nat \<Rightarrow> string \<Rightarrow> 32 word \<Rightarrow> 32 word outcome" where
  "read_octets n s ipv4 =
     (case num_get 10 False 32 (dropWhile isspace s) of
        (None, _) \<Rightarrow> Inl Runtime_error
      | (Some part, rest) \<Rightarrow>
          (if part > 255 then Inl Runtime_error
           else
             let ipv4 = ipv4 OR push_bit (8 * n) (word_of_int part) in
             (case n of
                0 \<Rightarrow> if rest \<noteq> [] then Inl Runtime_error else Inr ipv4
              | Suc m \<Rightarrow>
                  (case dropWhile isspace rest of
                     [] \<Rightarrow> Inl Runtime_error
                   | delim # rest \<Rightarrow>
                       if delim \<noteq> CHR ''.'' then Inl Runtime_error else read_octets m rest ipv4))))"

declare read_octets.simps [simp del]

definition IPv4FromString :: "string \<Rightarrow> 32 word outcome" where
  [eval_simps]: "IPv4FromString ip_str =
     (if ip_str = ''localhost'' then Inr INADDR_LOOPBACK else read_octets 3 ip_str 0)"

definition IPv4ToString :: "32 word \<Rightarrow> string" where
  [eval_simps]: "IPv4ToString ipv4 =
     NumericToString (uint (drop_bit 24 ipv4)) @ ''.'' @
     NumericToString (uint (drop_bit 16 ipv4 mod 256)) @ ''.'' @
     NumericToString (uint (drop_bit 8 ipv4 mod 256)) @ ''.'' @
     NumericToString (uint (ipv4 mod 256))"

definition htonl :: "32 word \<Rightarrow> 32 word" where
  [eval_simps]: "htonl w = push_bit 24 (take_bit 8 w) OR push_bit 16 (take_bit 8 (drop_bit 8 w)) OR
     push_bit 8 (take_bit 8 (drop_bit 16 w)) OR drop_bit 24 w"

definition htons :: "16 word \<Rightarrow> 16 word" where
  [eval_simps]: "htons w = push_bit 8 (take_bit 8 w) OR drop_bit 8 w"

definition AF_INET :: "16 word" where [eval_simps]: "AF_INET = 2"

record sockaddr_in =
  sin_family :: "16 word"
  sin_addr :: "32 word"
  sin_port :: "16 word"

definition GetIPv4SockAddr :: "32 word \<Rightarrow> 16 word \<Rightarrow> sockaddr_in" where
  [eval_simps]: "GetIPv4SockAddr ip port =
     \<lparr>sin_family = AF_INET, sin_addr = htonl ip, sin_port = htons port\<rparr>"

definition PrintIPv4SockAddr :: "sockaddr_in \<Rightarrow> string" where
  [eval_simps]: "PrintIPv4SockAddr addr_in =
     (if sin_family addr_in \<noteq> AF_INET then ''Not an IPv4 addr''
      else IPv4ToString (htonl (sin_addr addr_in)) @ '':'' @ NumericToString (uint (htons (sin_port addr_in))))"

section \<open>Reading back a printed address\<close>

lemma bit_htonl:
  "bit (htonl w) n \<longleftrightarrow> n < 32 \<and>
     bit w (if n < 8 then n + 24 else if n < 16 then n + 8 else if n < 24 then n - 8 else n - 24)"
proof -
  consider "n < 8" | "8 \<le> n" "n < 16" | "16 \<le> n" "n < 24" | "24 \<le> n" "n < 32" | "32 \<le> n" by linarith
  then show ?thesis by cases (auto simp: htonl_def bit_simps not_less add.commute dest: bit_imp_le_length)
qed

lemma htonl_htonl: "htonl (htonl w) = w"
  by (rule bit_word_eqI) (auto simp: bit_htonl)

lemma bit_htons:
  "bit (htons w) n \<longleftrightarrow> n < 16 \<and> bit w (if n < 8 then n + 8 else n - 8)"
proof -
  consider "n < 8" | "8 \<le> n" "n < 16" | "16 \<le> n" by linarith
  then show ?thesis by cases (auto simp: htons_def bit_simps not_less add.commute dest: bit_imp_le_length)
qed

lemma htons_htons: "htons (htons w) = w"
  by (rule bit_word_eqI) (auto simp: bit_htons)

lemma octets_join:
  fixes w :: "32 word"
  shows "(((0 OR push_bit 24 (drop_bit 24 w)) OR push_bit 16 (drop_bit 16 w mod 256)) OR
    push_bit 8 (drop_bit 8 w mod 256)) OR push_bit 0 (w mod 256) = w"
proof -
  have m: "x mod 256 = take_bit 8 x" for x :: "32 word" by (simp add: take_bit_eq_mod)
  show ?thesis
  proof (rule bit_word_eqI)
    fix n assume "n < LENGTH(32)"
    then have "n < 8 \<or> (8 \<le> n \<and> n < 16) \<or> (16 \<le> n \<and> n < 24) \<or> (24 \<le> n \<and> n < 32)" by auto
    then show "bit ((((0 OR push_bit 24 (drop_bit 24 w)) OR push_bit 16 (drop_bit 16 w mod 256)) OR
      push_bit 8 (drop_bit 8 w mod 256)) OR push_bit 0 (w mod 256)) n = bit w n"
      unfolding m by (elim disjE conjE) (auto simp: bit_simps)
  qed
qed

lemma print_octet:
  assumes "0 \<le> part" "part \<le> 255"
  shows "NumericToString part = print_base 10 (nat part)"
    and "num_get 10 False 32 (dropWhile isspace (NumericToString part @ CHR ''.'' # rest))
      = (Some part, CHR ''.'' # rest)"
    and "num_get 10 False 32 (dropWhile isspace (NumericToString part)) = (Some part, [])"
proof -
  let ?ds = "print_base 10 (nat part)"
  show ds: "NumericToString part = ?ds" using assms by (simp add: NumericToString_def)
  obtain d ds where c: "?ds = d # ds" by (cases ?ds) auto
  have dig: "list_all isdigit ?ds" by (rule print_base_isdigit)
  then have d: "isdigit d" by (simp add: c)
  note sp = isdigit_not_special [OF d]
  have base: "is_base_digit 10 = isdigit" by (simp add: is_base_digit_def fun_eq_iff)
  have val: "num_of 10 ?ds = nat part" using num_of_print_base [of 10 "nat part"] by simp
  have tw: "takeWhile isdigit (?ds @ CHR ''.'' # rest) = ?ds"
    "dropWhile isdigit (?ds @ CHR ''.'' # rest) = CHR ''.'' # rest"
    using dig by (auto simp: list_all_iff takeWhile_append dropWhile_append isdigit_def code_def)
  have rs: "read_sign (?ds @ t) = (False, ?ds @ t)" for t using sp by (simp add: read_sign_def c)
  have ws: "dropWhile isspace (?ds @ t) = ?ds @ t" for t using sp by (simp add: c)
  have "nat part < 2 ^ 32" using assms by simp
  then have store: "num_digits False 32 10 False ?ds = Some part"
    using assms val by (simp add: num_digits_def num_store_def)
  show "num_get 10 False 32 (dropWhile isspace (NumericToString part @ CHR ''.'' # rest))
      = (Some part, CHR ''.'' # rest)"
    unfolding ds ws num_get_def rs by (simp add: num_body_def base tw store)
  show "num_get 10 False 32 (dropWhile isspace (NumericToString part)) = (Some part, [])"
    using sp assms num_get_dec [OF dig, of False 32] val by (simp add: ds c)
qed

lemma read_octet_dot:
  assumes "0 \<le> part" "part \<le> 255"
  shows "read_octets (Suc n) (NumericToString part @ CHR ''.'' # rest) ipv4
    = read_octets n rest (ipv4 OR push_bit (8 * Suc n) (word_of_int part))"
  using assms by (subst read_octets.simps) (simp add: print_octet(2) isspace_def code_def)

lemma read_octet_last:
  assumes "0 \<le> part" "part \<le> 255"
  shows "read_octets 0 (NumericToString part) ipv4 = Inr (ipv4 OR push_bit 0 (word_of_int part))"
  using assms by (subst read_octets.simps) (simp add: print_octet(3))

text \<open>An address that is printed is read back as itself, and the socket structure made of an
  address and a port is printed as both.\<close>

lemma IPv4_roundtrip:
  "IPv4FromString (IPv4ToString ip) = Inr ip \<and>
   PrintIPv4SockAddr (GetIPv4SockAddr ip port) = IPv4ToString ip @ '':'' @ NumericToString (uint port)"
proof -
  let ?a = "drop_bit 24 ip" and ?b = "drop_bit 16 ip mod 256" and ?c = "drop_bit 8 ip mod 256"
    and ?d = "ip mod 256"
  have small: "uint (x mod 256) \<le> 255" for x :: "32 word"
    using pos_mod_bound [of 256 "uint x"] by (simp add: uint_mod)
  have top: "uint ?a \<le> 255"
  proof -
    have "uint ip < 2 ^ 32" using uint_lt2p [of ip] by simp
    then show ?thesis by (simp add: drop_bit_eq_div uint_div)
  qed
  have text_eq: "IPv4ToString ip = NumericToString (uint ?a) @ CHR ''.'' # NumericToString (uint ?b) @
      CHR ''.'' # NumericToString (uint ?c) @ CHR ''.'' # NumericToString (uint ?d)"
    by (simp add: IPv4ToString_def)
  have "IPv4ToString ip \<noteq> ''localhost''"
    using print_base_isdigit [of "nat (uint ?a)"] print_octet(1) [of "uint ?a"] top
    by (cases "print_base 10 (nat (uint ?a))") (auto simp: text_eq isdigit_def code_def)
  then have "IPv4FromString (IPv4ToString ip) = read_octets (Suc 2) (IPv4ToString ip) 0"
    by (simp add: IPv4FromString_def)
  also have "\<dots> = Inr ((((0 OR push_bit 24 ?a) OR push_bit 16 ?b) OR push_bit 8 ?c) OR push_bit 0 ?d)"
    using top small
    by (simp only: text_eq read_octet_dot read_octet_last numeral_2_eq_2 uint_ge_0) simp
  finally show ?thesis
    by (simp only: octets_join PrintIPv4SockAddr_def GetIPv4SockAddr_def sockaddr_in.simps htonl_htonl
        htons_htons simp_thms if_False)
qed

end
