(* ===== verification/Sockets.thy ===== *)
theory Sockets
  imports FileUtils IPv4
begin

text \<open>
  \<open>src/c_api/Socket.cpp\<close>, \<open>MasterSocket.cpp\<close> and \<open>ClientSocket.cpp\<close>: receiving, sending a buffer and
  sending a file in pieces.  The kernel is given by the numbers that \<open>recv\<close> and \<open>send\<close> answer; what was
  handed to it is collected in \<open>wire\<close>.
\<close>

unbundle bit_operations_syntax

section \<open>Packages\<close>

datatype sock_status = RS_OK | RS_SOCK_CLOSED | RS_SOCK_ERR

definition SOCK_READ_BUF_SZ :: nat where [eval_simps]: "SOCK_READ_BUF_SZ = 8192"
definition SOCK_SEND_FILE_BUF_SZ :: nat where [eval_simps]: "SOCK_SEND_FILE_BUF_SZ = 8192"

record recv_package =
  rp_status :: sock_status
  rp_data :: string

record send_package =
  sp_buf :: string
  sp_sent :: nat

definition SendPackage_new :: "string \<Rightarrow> send_package" where
  [eval_simps]: "SendPackage_new content = \<lparr>sp_buf = content, sp_sent = 0\<rparr>"

definition SendPackage_AllDataSent :: "send_package \<Rightarrow> bool" where
  [eval_simps]: "SendPackage_AllDataSent p \<longleftrightarrow> length (sp_buf p) = sp_sent p"

text \<open>
  The input stream of a file: what it has not delivered yet, and eofbit.  A read of more than is left
  sets eofbit.
\<close>

record file_package =
  fp_chunk :: send_package
  fp_rest :: string
  fp_eof :: bool
  fp_bytes_sent :: nat

definition FilePackage_AllDataSent :: "file_package \<Rightarrow> bool" where
  [eval_simps]: "FilePackage_AllDataSent p \<longleftrightarrow> fp_eof p \<and> SendPackage_AllDataSent (fp_chunk p)"

text \<open>\<open>None\<close> when the file cannot be opened.\<close>

definition FilePackage_TryCreate :: "file_system \<Rightarrow> string \<Rightarrow> file_package option" where
  [eval_simps]: "FilePackage_TryCreate fs path =
     map_option (\<lambda>content. \<lparr>fp_chunk = SendPackage_new [], fp_rest = content, fp_eof = False,
       fp_bytes_sent = 0\<rparr>) (content_of fs (c_str path))"

definition PrepareNextChunk :: "file_package \<Rightarrow> bool \<times> file_package" where
  [eval_simps]: "PrepareNextChunk p =
     (if \<not> SendPackage_AllDataSent (fp_chunk p) then (True, p)
      else
        let p1 = p\<lparr>fp_bytes_sent := fp_bytes_sent p + sp_sent (fp_chunk p)\<rparr> in
        if fp_eof p1 then (True, p1\<lparr>fp_chunk := SendPackage_new []\<rparr>)
        else (True, p1\<lparr>fp_chunk := SendPackage_new (take SOCK_SEND_FILE_BUF_SZ (fp_rest p1)),
          fp_rest := drop SOCK_SEND_FILE_BUF_SZ (fp_rest p1),
          fp_eof := (length (fp_rest p1) < SOCK_SEND_FILE_BUF_SZ)\<rparr>))"

section \<open>Socket operations\<close>

text \<open>\<open>Recv\<close>: \<open>answer\<close> is what \<open>recv\<close> returned, and \<open>buf\<close> the bytes it stored.\<close>

definition Socket_Recv :: "int \<Rightarrow> string \<Rightarrow> recv_package" where
  [eval_simps]: "Socket_Recv answer buf =
     (if answer < 0 then \<lparr>rp_status = RS_SOCK_ERR, rp_data = []\<rparr>
      else if answer = 0 then \<lparr>rp_status = RS_SOCK_CLOSED, rp_data = []\<rparr>
      else \<lparr>rp_status = RS_OK, rp_data = take (nat answer) buf\<rparr>)"

text \<open>\<open>send\<close> is asked for the rest of the buffer; it took the first \<open>answer\<close> bytes of it.\<close>

definition Socket_Send :: "int \<Rightarrow> send_package \<Rightarrow> string \<Rightarrow> sock_status \<times> send_package \<times> string" where
  [eval_simps]: "Socket_Send answer p wire =
     (if SendPackage_AllDataSent p then (RS_OK, p, wire)
      else if 0 < answer then
        (RS_OK, p\<lparr>sp_sent := sp_sent p + nat answer\<rparr>, wire @ cut (sp_sent p) (nat answer) (sp_buf p))
      else (if answer = 0 then RS_SOCK_CLOSED else RS_SOCK_ERR, p, wire))"

definition Socket_Send_file :: "int \<Rightarrow> file_package \<Rightarrow> string \<Rightarrow> sock_status \<times> file_package \<times> string" where
  [eval_simps]: "Socket_Send_file answer p wire =
     (if FilePackage_AllDataSent p then (RS_OK, p, wire)
      else case PrepareNextChunk p of
        (False, p1) \<Rightarrow> (RS_SOCK_ERR, p1, wire)
      | (True, p1) \<Rightarrow>
          (case Socket_Send answer (fp_chunk p1) wire of
             (st, chunk, wire1) \<Rightarrow> (st, p1\<lparr>fp_chunk := chunk\<rparr>, wire1)))"

text \<open>
  \<open>TrySetFlags\<close>: \<open>get\<close> is what \<open>F_GETFL\<close> answers and \<open>set_ok\<close> whether \<open>F_SETFL\<close> succeeds; the flags
  are set only when one is missing.
\<close>

definition TrySetFlags :: "(int \<times> 32 word) \<Rightarrow> bool \<Rightarrow> 32 word \<Rightarrow> bool \<times> 32 word" where
  [eval_simps]: "TrySetFlags got set_ok flags =
     (let cur_flags = snd got; flags_to_set = (cur_flags XOR flags) AND flags in
      if fst got < 0 then (False, cur_flags)
      else if flags_to_set = 0 then (True, cur_flags)
      else if set_ok then (True, cur_flags OR flags_to_set)
      else (False, cur_flags))"

text \<open>\<open>memcmp\<close> of the two structures, whose padding is zero.\<close>

definition IsSameSockAddr :: "sockaddr_in \<Rightarrow> sockaddr_in \<Rightarrow> bool" where
  [eval_simps]: "IsSameSockAddr a b \<longleftrightarrow> a = b"

text \<open>
  The constructors of \<open>Socket\<close> and \<open>MasterSocket\<close>, with what \<open>socket\<close>, \<open>bind\<close> and \<open>listen\<close> answer.  The only
  kind of socket is TCP, so the test of the kind never fails.
\<close>

datatype sock_type = ST_TCP_V4

definition Socket_new :: "sock_type \<Rightarrow> int option \<Rightarrow> int outcome" where
  [eval_simps]: "Socket_new kind socket_fd =
     (if kind \<noteq> ST_TCP_V4 then Inl Logic_error
      else case socket_fd of None \<Rightarrow> Inl Runtime_error | Some fd \<Rightarrow> Inr fd)"

definition BindAndListen :: "bool \<Rightarrow> bool \<Rightarrow> unit outcome" where
  [eval_simps]: "BindAndListen bind_ok listen_ok =
     (if \<not> bind_ok then Inl Runtime_error else if \<not> listen_ok then Inl Runtime_error else Inr ())"

definition MasterSocket_new :: "int option \<Rightarrow> bool \<Rightarrow> bool \<Rightarrow> sockaddr_in \<Rightarrow> (int \<times> sockaddr_in) outcome" where
  [eval_simps]: "MasterSocket_new socket_fd bind_ok listen_ok addr =
     bind_outcome (Socket_new ST_TCP_V4 socket_fd) (\<lambda>fd.
     bind_outcome (BindAndListen bind_ok listen_ok) (\<lambda>_. Inr (fd, addr)))"

lemma MasterSocket_new_Inr:
  "MasterSocket_new socket_fd bind_ok listen_ok addr = Inr r \<longleftrightarrow>
     bind_ok \<and> listen_ok \<and> map_option (\<lambda>fd. (fd, addr)) socket_fd = Some r"
  by (cases socket_fd) (auto simp: MasterSocket_new_def Socket_new_def BindAndListen_def)

lemma TrySetFlags_sets:
  "fst (TrySetFlags got set_ok flags) \<Longrightarrow> snd (TrySetFlags got set_ok flags) AND flags = flags"
  by (auto simp: TrySetFlags_def Let_def bit_eq_iff bit_simps split: if_splits)

section \<open>A response on its way\<close>

text \<open>
  What the write callback of a client session holds: the head and the body in memory, the file that
  follows, and whether the connection is to be closed then.
\<close>

record writer =
  wr_pack :: send_package
  wr_file :: "file_package option"
  wr_close :: bool

definition OnReadyToSend_new :: "file_system \<Rightarrow> string \<Rightarrow> string option \<Rightarrow> bool \<Rightarrow> writer" where
  [eval_simps]: "OnReadyToSend_new fs content file_body close_connection =
     \<lparr>wr_pack = SendPackage_new content,
      wr_file = (case file_body of None \<Rightarrow> None | Some path \<Rightarrow> FilePackage_TryCreate fs path),
      wr_close = close_connection\<rparr>"

datatype send_result = Sending writer | Send_failed | Send_done

definition send_file_part :: "int \<Rightarrow> writer \<Rightarrow> string \<Rightarrow> send_result \<times> string" where
  [eval_simps]: "send_file_part answer w wire =
     (case wr_file w of
        None \<Rightarrow> (Send_done, wire)
      | Some fp \<Rightarrow>
          (if FilePackage_AllDataSent fp then (Send_done, wire)
           else case Socket_Send_file answer fp wire of
             (st, fp1, wire1) \<Rightarrow>
               (if st \<noteq> RS_OK then (Send_failed, wire1)
                else if \<not> FilePackage_AllDataSent fp1 then (Sending (w\<lparr>wr_file := Some fp1\<rparr>), wire1)
                else (Send_done, wire1))))"

text \<open>One call of the callback, with the answers of \<open>send\<close> for the buffer and for the file.\<close>

definition OnReadyToSend_Call :: "int \<Rightarrow> int \<Rightarrow> writer \<Rightarrow> string \<Rightarrow> send_result \<times> string" where
  [eval_simps]: "OnReadyToSend_Call answer1 answer2 w wire =
     (if \<not> SendPackage_AllDataSent (wr_pack w) then
        (case Socket_Send answer1 (wr_pack w) wire of
           (st, pack, wire1) \<Rightarrow>
             (if st \<noteq> RS_OK then (Send_failed, wire1)
              else if \<not> SendPackage_AllDataSent pack then (Sending (w\<lparr>wr_pack := pack\<rparr>), wire1)
              else send_file_part answer2 (w\<lparr>wr_pack := pack\<rparr>) wire1))
      else send_file_part answer2 w wire)"

text \<open>The calls that follow each other while the socket is ready, until one does not ask for more.\<close>

fun send_all :: "(int \<times> int) list \<Rightarrow> writer \<Rightarrow> string \<Rightarrow> send_result \<times> string" where
  "send_all [] w wire = (Sending w, wire)"
| "send_all ((a1, a2) # answers) w wire =
     (case OnReadyToSend_Call a1 a2 w wire of
        (Sending w1, wire1) \<Rightarrow> send_all answers w1 wire1
      | r \<Rightarrow> r)"

section \<open>The response arrives whole\<close>

definition pack_rest :: "send_package \<Rightarrow> string" where
  "pack_rest p = drop (sp_sent p) (sp_buf p)"

definition file_rest :: "file_package option \<Rightarrow> string" where
  "file_rest f = (case f of None \<Rightarrow> [] | Some fp \<Rightarrow> pack_rest (fp_chunk fp) @ fp_rest fp)"

definition pending :: "writer \<Rightarrow> string" where
  "pending w = pack_rest (wr_pack w) @ file_rest (wr_file w)"

definition pack_ok :: "send_package \<Rightarrow> bool" where
  "pack_ok p \<longleftrightarrow> sp_sent p \<le> length (sp_buf p)"

definition file_ok :: "file_package option \<Rightarrow> bool" where
  "file_ok f \<longleftrightarrow> (case f of None \<Rightarrow> True | Some fp \<Rightarrow> pack_ok (fp_chunk fp) \<and> (fp_eof fp \<longrightarrow> fp_rest fp = []))"

definition writer_ok :: "writer \<Rightarrow> bool" where
  "writer_ok w \<longleftrightarrow> pack_ok (wr_pack w) \<and> file_ok (wr_file w)"

text \<open>
  The kernel, when it takes something, takes at least a byte and not more than it was given: \<open>send\<close>
  was given the rest of the buffer, and the rest of the chunk once it is prepared.
\<close>

definition answer_for :: "int \<Rightarrow> send_package \<Rightarrow> bool" where
  "answer_for a p \<longleftrightarrow> (pack_rest p \<noteq> [] \<longrightarrow> 1 \<le> a \<and> a \<le> int (length (pack_rest p)))"

definition file_answer :: "int \<Rightarrow> file_package option \<Rightarrow> bool" where
  "file_answer a f \<longleftrightarrow> (case f of None \<Rightarrow> True | Some fp \<Rightarrow> answer_for a (fp_chunk (snd (PrepareNextChunk fp))))"

fun good_answers :: "(int \<times> int) list \<Rightarrow> writer \<Rightarrow> string \<Rightarrow> bool" where
  "good_answers [] w wire = True"
| "good_answers ((a1, a2) # answers) w wire =
     (answer_for a1 (wr_pack w) \<and> file_answer a2 (wr_file w) \<and>
      (case OnReadyToSend_Call a1 a2 w wire of
         (Sending w1, wire1) \<Rightarrow> good_answers answers w1 wire1
       | _ \<Rightarrow> True))"

lemma all_sent_rest: "pack_ok p \<Longrightarrow> SendPackage_AllDataSent p \<longleftrightarrow> pack_rest p = []"
  by (auto simp: SendPackage_AllDataSent_def pack_rest_def pack_ok_def)

lemma Socket_Send_step:
  assumes "pack_ok p" "answer_for a p" "\<not> SendPackage_AllDataSent p"
  shows "\<exists>q t. Socket_Send a p wire = (RS_OK, q, wire @ t) \<and> pack_ok q \<and> t \<noteq> [] \<and> t @ pack_rest q = pack_rest p"
proof -
  have a: "1 \<le> a" "nat a \<le> length (pack_rest p)"
    using assms by (auto simp: answer_for_def all_sent_rest)
  let ?t = "take (nat a) (pack_rest p)"
  have "Socket_Send a p wire = (RS_OK, p\<lparr>sp_sent := sp_sent p + nat a\<rparr>, wire @ ?t)"
    using assms a by (simp add: Socket_Send_def cut_def pack_rest_def)
  moreover have "?t @ pack_rest (p\<lparr>sp_sent := sp_sent p + nat a\<rparr>) = pack_rest p"
    by (simp add: pack_rest_def add.commute flip: drop_drop)
  moreover have "pack_ok (p\<lparr>sp_sent := sp_sent p + nat a\<rparr>)"
    using assms(1) a by (simp add: pack_ok_def pack_rest_def)
  moreover have "?t \<noteq> []" using a by (cases "pack_rest p") auto
  ultimately show ?thesis by blast
qed

lemma Prepare_rest:
  assumes "file_ok (Some fp)"
  shows "\<exists>q. PrepareNextChunk fp = (True, q) \<and> file_ok (Some q) \<and> file_rest (Some q) = file_rest (Some fp) \<and>
    (pack_rest (fp_chunk q) = [] \<longrightarrow> fp_rest q = [] \<and> fp_eof q)"
  using assms
  by (auto simp: PrepareNextChunk_def file_ok_def file_rest_def all_sent_rest SendPackage_new_def pack_ok_def
      pack_rest_def SOCK_SEND_FILE_BUF_SZ_def Let_def SendPackage_AllDataSent_def)

lemma send_file_part_step:
  assumes "file_ok (wr_file w)" "file_answer a (wr_file w)"
  shows "(\<exists>f t. send_file_part a w wire = (Sending (w\<lparr>wr_file := f\<rparr>), wire @ t) \<and> file_ok f \<and> t \<noteq> [] \<and>
      t @ file_rest f = file_rest (wr_file w)) \<or>
    send_file_part a w wire = (Send_done, wire @ file_rest (wr_file w))"
proof (cases "wr_file w")
  case None
  then show ?thesis by (simp add: send_file_part_def file_rest_def)
next
  case (Some fp)
  show ?thesis
  proof (cases "FilePackage_AllDataSent fp")
    case True
    with Some assms(1) show ?thesis
      by (simp add: send_file_part_def FilePackage_AllDataSent_def file_rest_def file_ok_def all_sent_rest)
  next
    case False
    from Prepare_rest assms(1) Some obtain q where q: "PrepareNextChunk fp = (True, q)" "file_ok (Some q)"
      "file_rest (Some q) = file_rest (Some fp)" "pack_rest (fp_chunk q) = [] \<longrightarrow> fp_rest q = [] \<and> fp_eof q"
      by metis
    have ok: "pack_ok (fp_chunk q)" using q(2) by (simp add: file_ok_def)
    show ?thesis
    proof (cases "SendPackage_AllDataSent (fp_chunk q)")
      case True
      then have "Socket_Send_file a fp wire = (RS_OK, q, wire)"
        using False q(1) by (simp add: Socket_Send_file_def Socket_Send_def)
      moreover have "pack_rest (fp_chunk q) = []" using True ok by (simp add: all_sent_rest)
      moreover have "file_rest (Some fp) = []" "FilePackage_AllDataSent q"
        using calculation(2) q(3,4) True by (simp_all add: file_rest_def FilePackage_AllDataSent_def)
      ultimately show ?thesis using Some False by (simp add: send_file_part_def)
    next
      case more: False
      have "answer_for a (fp_chunk q)" using assms(2) Some q(1) by (simp add: file_answer_def)
      from Socket_Send_step [OF ok this more] obtain chunk t where c:
        "Socket_Send a (fp_chunk q) wire = (RS_OK, chunk, wire @ t)" "pack_ok chunk" "t \<noteq> []"
        "t @ pack_rest chunk = pack_rest (fp_chunk q)" by blast
      let ?r = "q\<lparr>fp_chunk := chunk\<rparr>"
      have sf: "Socket_Send_file a fp wire = (RS_OK, ?r, wire @ t)"
        using False q(1) c(1) by (simp add: Socket_Send_file_def)
      have rest: "t @ file_rest (Some ?r) = file_rest (Some fp)"
        using c(4) q(3) by (simp add: file_rest_def flip: append_assoc)
      show ?thesis
      proof (cases "FilePackage_AllDataSent ?r")
        case True
        then have "file_rest (Some ?r) = []"
          using q(2) c(2) by (simp add: FilePackage_AllDataSent_def file_rest_def file_ok_def all_sent_rest)
        with rest sf True Some False show ?thesis by (simp add: send_file_part_def)
      next
        case again: False
        then have "send_file_part a w wire = (Sending (w\<lparr>wr_file := Some ?r\<rparr>), wire @ t)"
          using sf Some False by (simp add: send_file_part_def)
        moreover have "file_ok (Some ?r)" using q(2) c(2) by (simp add: file_ok_def)
        ultimately show ?thesis using rest c(3) Some by auto
      qed
    qed
  qed
qed

lemma Call_step:
  assumes "writer_ok w" "answer_for a1 (wr_pack w)" "file_answer a2 (wr_file w)"
  shows "(\<exists>w1 t. OnReadyToSend_Call a1 a2 w wire = (Sending w1, wire @ t) \<and> writer_ok w1 \<and> t \<noteq> [] \<and>
      t @ pending w1 = pending w) \<or>
    OnReadyToSend_Call a1 a2 w wire = (Send_done, wire @ pending w)"
proof (cases "SendPackage_AllDataSent (wr_pack w)")
  case True
  have "pack_rest (wr_pack w) = []" using True assms(1) by (simp add: all_sent_rest writer_ok_def)
  then show ?thesis
    using send_file_part_step [of w a2 wire] True assms
    by (auto simp: OnReadyToSend_Call_def pending_def writer_ok_def)
next
  case False
  from assms(1) have "pack_ok (wr_pack w)" by (simp add: writer_ok_def)
  from Socket_Send_step [OF this assms(2) False] obtain q t where q:
    "Socket_Send a1 (wr_pack w) wire = (RS_OK, q, wire @ t)" "pack_ok q" "t \<noteq> []"
    "t @ pack_rest q = pack_rest (wr_pack w)" by blast
  let ?w = "w\<lparr>wr_pack := q\<rparr>"
  show ?thesis
  proof (cases "SendPackage_AllDataSent q")
    case True
    then have r: "pack_rest q = []" using q(2) by (simp add: all_sent_rest)
    have call: "OnReadyToSend_Call a1 a2 w wire = send_file_part a2 ?w (wire @ t)"
      using False True q(1) by (simp add: OnReadyToSend_Call_def)
    have "file_ok (wr_file ?w)" "file_answer a2 (wr_file ?w)" using assms by (simp_all add: writer_ok_def)
    from send_file_part_step [OF this, of "wire @ t"] show ?thesis
    proof (elim disjE exE conjE)
      fix f u assume f: "send_file_part a2 ?w (wire @ t) = (Sending (?w\<lparr>wr_file := f\<rparr>), (wire @ t) @ u)"
        "file_ok f" "u @ file_rest f = file_rest (wr_file ?w)"
      have "OnReadyToSend_Call a1 a2 w wire = (Sending (?w\<lparr>wr_file := f\<rparr>), wire @ (t @ u))"
        using call f(1) by simp
      moreover have "(t @ u) @ pending (?w\<lparr>wr_file := f\<rparr>) = pending w"
        using f(3) q(4) r by (simp add: pending_def)
      ultimately show ?thesis using f(2) q(2,3) by (fastforce simp: writer_ok_def)
    next
      assume "send_file_part a2 ?w (wire @ t) = (Send_done, (wire @ t) @ file_rest (wr_file ?w))"
      with call q(4) r show ?thesis by (simp add: pending_def)
    qed
  next
    case more: False
    then have "OnReadyToSend_Call a1 a2 w wire = (Sending ?w, wire @ t)"
      using False q(1) by (simp add: OnReadyToSend_Call_def)
    moreover have "t @ pending ?w = pending w" using q(4) by (simp add: pending_def flip: append_assoc)
    ultimately show ?thesis using q(2,3) assms(1) by (auto simp: writer_ok_def)
  qed
qed

lemma send_all_step:
  "writer_ok w \<Longrightarrow> good_answers answers w wire \<Longrightarrow>
     (\<exists>w1 t. send_all answers w wire = (Sending w1, wire @ t) \<and> writer_ok w1 \<and> t @ pending w1 = pending w \<and>
        length answers \<le> length t) \<or>
     send_all answers w wire = (Send_done, wire @ pending w)"
proof (induction answers arbitrary: w wire)
  case (Cons a answers)
  obtain a1 a2 where a: "a = (a1, a2)" by (cases a)
  from Cons.prems(2) have "answer_for a1 (wr_pack w)" "file_answer a2 (wr_file w)" by (simp_all add: a)
  from Call_step [OF Cons.prems(1) this, of wire] show ?case
  proof (elim disjE exE conjE)
    fix w1 t assume s: "OnReadyToSend_Call a1 a2 w wire = (Sending w1, wire @ t)" "writer_ok w1" "t \<noteq> []"
      "t @ pending w1 = pending w"
    from Cons.prems(2) s(1) have "good_answers answers w1 (wire @ t)" by (simp add: a)
    from Cons.IH [OF s(2) this] show ?thesis
    proof (elim disjE exE conjE)
      fix w2 u assume u: "send_all answers w1 (wire @ t) = (Sending w2, (wire @ t) @ u)"
        "writer_ok w2" "u @ pending w2 = pending w1" "length answers \<le> length u"
      have "send_all (a # answers) w wire = (Sending w2, wire @ (t @ u))" using s(1) u(1) by (simp add: a)
      moreover have "(t @ u) @ pending w2 = pending w" using u(3) s(4) by simp
      moreover have "length (a # answers) \<le> length (t @ u)" using u(4) s(3) by (cases t) auto
      ultimately show ?thesis using u(2) by blast
    next
      assume "send_all answers w1 (wire @ t) = (Send_done, (wire @ t) @ pending w1)"
      with s(1,4) show ?thesis by (simp add: a)
    qed
  next
    assume "OnReadyToSend_Call a1 a2 w wire = (Send_done, wire @ pending w)"
    then show ?thesis by (simp add: a)
  qed
qed simp

definition file_content :: "file_system \<Rightarrow> string option \<Rightarrow> string" where
  "file_content fs file_body =
     (case file_body of None \<Rightarrow> [] | Some path \<Rightarrow>
        (case content_of fs (c_str path) of None \<Rightarrow> [] | Some content \<Rightarrow> content))"

text \<open>When nothing is left to send, the next call finds that out, whatever \<open>send\<close> would answer.\<close>

lemma nothing_left_done:
  assumes "writer_ok w" "pending w = []"
  shows "OnReadyToSend_Call a1 a2 w wire = (Send_done, wire)"
proof -
  have "answer_for a1 (wr_pack w)" using assms(2) by (simp add: answer_for_def pending_def)
  moreover have "file_answer a2 (wr_file w)"
  proof (cases "wr_file w")
    case (Some fp)
    with assms have "file_ok (Some fp)" "file_rest (Some fp) = []" by (simp_all add: writer_ok_def pending_def)
    from Prepare_rest [OF this(1)] this(2) obtain q where "PrepareNextChunk fp = (True, q)" "file_rest (Some q) = []"
      by metis
    then show ?thesis using Some by (simp add: file_answer_def answer_for_def file_rest_def)
  qed (simp add: file_answer_def)
  ultimately show ?thesis using Call_step [OF assms(1), of a1 a2 wire] assms(2) by auto
qed

lemma response_sent:
  assumes "good_answers answers (OnReadyToSend_new fs content file_body close) []"
  shows "case send_all answers (OnReadyToSend_new fs content file_body close) [] of (r, wire) \<Rightarrow>
    prefix wire (content @ file_content fs file_body) \<and> r \<noteq> Send_failed \<and>
    (r = Send_done \<longrightarrow> wire = content @ file_content fs file_body) \<and>
    (\<forall>w a1 a2. r = Sending w \<and> wire = content @ file_content fs file_body \<longrightarrow>
       OnReadyToSend_Call a1 a2 w wire = (Send_done, wire)) \<and>
    (length (content @ file_content fs file_body) < length answers \<longrightarrow> r = Send_done)"
proof -
  let ?w = "OnReadyToSend_new fs content file_body close"
  have ok: "writer_ok ?w" and total: "pending ?w = content @ file_content fs file_body"
    by (auto simp: OnReadyToSend_new_def writer_ok_def pack_ok_def file_ok_def FilePackage_TryCreate_def
        SendPackage_new_def pending_def pack_rest_def file_rest_def file_content_def split: option.split)
  from send_all_step [OF ok assms] show ?thesis
  proof (elim disjE exE conjE)
    fix w1 t assume s: "send_all answers ?w [] = (Sending w1, [] @ t)" "writer_ok w1" "t @ pending w1 = pending ?w"
      "length answers \<le> length t"
    then have pre: "content @ file_content fs file_body = t @ pending w1" by (simp add: total)
    then have "length t \<le> length (content @ file_content fs file_body)" by simp
    with s(4) have "\<not> length (content @ file_content fs file_body) < length answers" by linarith
    with s(1,2) pre nothing_left_done [of w1] show ?thesis by simp
  next
    assume "send_all answers ?w [] = (Send_done, [] @ pending ?w)"
    then show ?thesis by (simp add: total)
  qed
qed

text \<open>C9: however the kernel cuts a response into pieces, what goes out is a beginning of the head, the
  body and then the file; the callback is done only when all of it is out, at the latest in the call
  that follows the one that sent the last byte (which it needs when the file ends with a full chunk,
  since only the next read meets its end), and after at most as many calls as there are bytes, and one.\<close>

theorem response_delivered:
  assumes "good_answers answers (OnReadyToSend_new fs content file_body close) []"
  shows "case send_all answers (OnReadyToSend_new fs content file_body close) [] of (r, wire) \<Rightarrow>
    prefix wire (content @ file_content fs file_body) \<and> r \<noteq> Send_failed \<and>
    (r = Send_done \<longrightarrow> wire = content @ file_content fs file_body) \<and>
    (\<forall>w a1 a2. r = Sending w \<and> wire = content @ file_content fs file_body \<longrightarrow>
       OnReadyToSend_Call a1 a2 w wire = (Send_done, wire)) \<and>
    (length (content @ file_content fs file_body) < length answers \<longrightarrow> r = Send_done)"
  by (rule response_sent [OF assms])

definition content_fs :: "string \<Rightarrow> file_system" where
  [eval_simps]: "content_fs content = \<lparr>access_f = (\<lambda>_. True), access_r = (\<lambda>_. True), access_x = (\<lambda>_. False),
     stat_of = (\<lambda>_. None), remove_ok = (\<lambda>_. False), content_of = (\<lambda>_. Some content), readdir_of = (\<lambda>_. None)\<rparr>"

theorem response_delivered_witness:
  "send_all [(1, 1), (1, 1), (1, 1), (1, 1)] (OnReadyToSend_new (content_fs ''c'') ''ab'' (Some ''f'') False) []
     = (Send_done, ''abc'')"
proof -
  have "good_answers [(1, 1), (1, 1), (1, 1), (1, 1)] (OnReadyToSend_new (content_fs ''c'') ''ab'' (Some ''f'') False) []"
    by (simp add: eval_simps pack_rest_def answer_for_def file_answer_def)
  from response_delivered [OF this] show ?thesis
    by (cases "send_all [(1, 1), (1, 1), (1, 1), (1, 1)] (OnReadyToSend_new (content_fs ''c'') ''ab'' (Some ''f'') False) []")
      (simp add: file_content_def content_fs_def)
qed

end
