(* ===== verification/ClientSession.thy ===== *)
theory ClientSession
  imports Processors Sockets BuilderSafety Machine
begin

text \<open>
  \<open>src/ClientSession.cpp\<close> and the choice of a server in \<open>src/ServerCluster.cpp\<close>: one connection, from
  the bytes it receives to the responses it sends.  The life of a session is a machine whose events are
  the calls of its callbacks.
\<close>

section \<open>The choice of a server\<close>

text \<open>The loop of \<open>ServerCluster::ChooseServer\<close> over the servers of a listener.\<close>

fun choose_best ::
  "request \<Rightarrow> (match_type \<times> string) \<times> server option \<Rightarrow> server list
     \<Rightarrow> ((match_type \<times> string) \<times> server option) outcome" where
  "choose_best rq best [] = Inr best"
| "choose_best rq best (srv # srvs) =
     bind_outcome (MatchedServerName srv rq) (\<lambda>match_result.
       choose_best rq (if name_beats match_result (fst best) then (match_result, Some srv) else best) srvs)"

type_synonym sockets_to_servers = "(int, server list) std_map"

definition servers_of :: "sockets_to_servers \<Rightarrow> int \<Rightarrow> server list" where
  [eval_simps]: "servers_of m fd = (case map_find m fd of None \<Rightarrow> [] | Some srvs \<Rightarrow> srvs)"

definition ChooseServer :: "sockets_to_servers \<Rightarrow> int \<Rightarrow> request \<Rightarrow> server outcome" where
  [eval_simps]: "ChooseServer m master_fd rq =
     bind_outcome (choose_best rq ((NO_MATCH, []), None) (servers_of m master_fd)) (\<lambda>(best, matched).
       if fst best = NO_MATCH then
         (case servers_of m master_fd of [] \<Rightarrow> Inl Undefined_behaviour | srv # _ \<Rightarrow> Inr srv)
       else case matched of None \<Rightarrow> Inl Undefined_behaviour | Some srv \<Rightarrow> Inr srv)"

definition kServerClusterName :: string where
  [eval_simps]: "kServerClusterName = ''ft_webserv''"

definition FillResponseHeaders :: "int \<Rightarrow> response \<Rightarrow> response" where
  [eval_simps]: "FillResponseHeaders now rs =
     fst (AddHeader (''Date'', GetFormatedTime now 0)
       (fst (AddHeader (''Server'', kServerClusterName) rs)))"

section \<open>The headers are complete\<close>

text \<open>
  \<open>ChooseServerCb\<close> fills the destination and answers whether the request may go on.  The limit of the
  body is set for an upload only: otherwise the builder reads the member as it was left, \<open>uninit\<close>.
\<close>

definition ChooseServerCb ::
  "sockets_to_servers \<Rightarrow> int \<Rightarrow> int \<Rightarrow> request \<Rightarrow> request_destination
     \<Rightarrow> (headers_validation_result \<times> request_destination) outcome" where
  [eval_simps]: "ChooseServerCb m uninit master_fd rq dest =
     bind_outcome (ChooseServer m master_fd rq) (\<lambda>srv.
       let dest1 = dest\<lparr>rd_server := srv\<rparr>;
           refused = \<lparr>hv_status = HTTP_NOT_FOUND, hv_max_body_size = uninit, hv_upload_path = None\<rparr>
       in case ChooseLocation srv rq of (chosen, kind) \<Rightarrow>
         (if kind = NO_LOCATION then Inr (refused, dest1)
          else case chosen of
            None \<Rightarrow> Inl Undefined_behaviour
          | Some loc \<Rightarrow>
              let dest2 = dest1\<lparr>rd_loc := Some loc\<rparr> in
              if rq_method rq \<notin> set (loc_allowed_methods loc) then Inr (refused, dest2)
              else bind_outcome (UpdatePath (loc_alias_dir loc) (fst (loc_route loc)) (target_path rq)) (\<lambda>path.
                Inr (if kind = STATIC_PATH \<and> rq_method rq = HTTP_POST
                     then \<lparr>hv_status = HTTP_OK, hv_max_body_size = sint (loc_client_max_body_size loc),
                       hv_upload_path = Some path\<rparr>
                     else \<lparr>hv_status = HTTP_OK, hv_max_body_size = uninit, hv_upload_path = None\<rparr>,
                     dest2\<lparr>rd_updated_path := path\<rparr>))))"

section \<open>The session\<close>

record session_env =
  se_proc :: proc_env
  se_builder :: builder_env
  se_servers :: sockets_to_servers
  se_uninit :: int
  se_write_ok :: bool

text \<open>
  \<open>cs_writer\<close> is the write callback while it is registered, \<open>cs_script\<close> the script whose processor the
  session owns, and \<open>cs_wire\<close> what was handed to the kernel since the callback was registered.
\<close>

record client_session =
  cs_master_fd :: int
  cs_dest :: request_destination
  cs_builder :: request_builder
  cs_closed :: bool
  cs_busy :: bool
  cs_last_activity :: int
  cs_script :: "exec_params option"
  cs_writer :: "writer option"
  cs_wire :: string

definition ClientSession_new :: "int \<Rightarrow> bool \<Rightarrow> int \<Rightarrow> server \<Rightarrow> client_session" where
  [eval_simps]: "ClientSession_new now registered master_fd default_server =
     \<lparr>cs_master_fd = master_fd, cs_dest = RequestDestination_new default_server,
      cs_builder = builder_init, cs_closed = \<not> registered, cs_busy = False, cs_last_activity = now,
      cs_script = None, cs_writer = None, cs_wire = []\<rparr>"

definition CloseConnection :: "client_session \<Rightarrow> client_session" where
  [eval_simps]: "CloseConnection s = s\<lparr>cs_closed := True\<rparr>"

definition PrepareResponse :: "session_env \<Rightarrow> response \<Rightarrow> client_session \<Rightarrow> client_session" where
  [eval_simps]: "PrepareResponse e r s =
     (let rs = FillResponseHeaders (pe_now (se_proc e)) r;
          close_connection = (map_find (rs_headers rs) ''Connection'' = Some ''Close'')
      in if se_write_ok e
         then s\<lparr>cs_writer := Some (OnReadyToSend_new (pe_fs (se_proc e)) (Dump (pe_descr (se_proc e)) rs)
           (rs_body_file rs) close_connection), cs_wire := []\<rparr>
         else CloseConnection s)"

definition ResponseSentCleanup :: "bool \<Rightarrow> client_session \<Rightarrow> client_session" where
  [eval_simps]: "ResponseSentCleanup close_connection s =
     (let t = s\<lparr>cs_writer := None, cs_busy := False, cs_builder := Builder_Reset (cs_builder s),
          cs_script := None, cs_dest := (cs_dest s)\<lparr>rd_loc := None, rd_updated_path := []\<rparr>\<rparr>
      in if close_connection then CloseConnection t else t)"

subsection \<open>Building the request\<close>

text \<open>
  \<open>Build\<close> with the callback of the session: the request that \<open>ProcessHeaders\<close> hands to it, and the
  loop over the builder and the destination.
\<close>

definition callback_request :: "request_builder \<Rightarrow> request option" where
  [eval_simps]: "callback_request b =
     (if rb_state b = BS_AFTER_HEADERS \<and> ValidateHeadersSyntax (rq_headers (rb_rq b)) = HTTP_OK \<and>
         fst (InterpretHeaders b) = HTTP_OK
      then Some (rb_rq (snd (InterpretHeaders b))) else None)"

type_synonym build_pair = "request_builder \<times> request_destination"

definition session_step_build ::
  "session_env \<Rightarrow> int \<Rightarrow> request_builder \<Rightarrow> request_destination \<Rightarrow> build_pair outcome" where
  [eval_simps]: "session_step_build e master_fd b dest =
     (case callback_request b of
        None \<Rightarrow> map_outcome (\<lambda>c. (c, dest)) (BuildStep (se_builder e) b)
      | Some rq \<Rightarrow>
          bind_outcome (ChooseServerCb (se_servers e) (se_uninit e) master_fd rq dest) (\<lambda>(vr, dest1).
            map_outcome (\<lambda>c. (c, dest1))
              (BuildStep ((se_builder e)\<lparr>headers_ready_cb := (\<lambda>_. vr)\<rparr>) b)))"

definition session_cond :: "build_pair outcome \<Rightarrow> bool" where
  [eval_simps]: "session_cond s = (case s of Inl _ \<Rightarrow> False | Inr (b, _) \<Rightarrow> fst (CanBuild b))"

definition session_body :: "session_env \<Rightarrow> int \<Rightarrow> build_pair outcome \<Rightarrow> build_pair outcome" where
  [eval_simps]: "session_body e master_fd s =
     bind_outcome s (\<lambda>(b, dest). session_step_build e master_fd (snd (CanBuild b)) dest)"

definition session_Build ::
  "session_env \<Rightarrow> int \<Rightarrow> build_pair \<Rightarrow> string \<Rightarrow> build_pair outcome option" where
  "session_Build e master_fd p data =
     (let (b, dest) = p in
      if EndOfBuffer (rb_parser b) \<and> data = [] then
        Some (Inr (b\<lparr>rb_rq := (rb_rq b)\<lparr>rq_status := HTTP_BAD_REQUEST\<rparr>, rb_status := RB_DONE\<rparr>, dest))
      else map_option (map_outcome (\<lambda>(c, d). (after_loop c, d)))
        (while_option session_cond (session_body e master_fd)
          (Inr (b\<lparr>rb_parser := AddNewData (rb_parser b) data\<rparr>, dest))))"

subsection \<open>Callbacks\<close>

definition take_answer :: "session_env \<Rightarrow> answer \<Rightarrow> client_session \<Rightarrow> client_session" where
  [eval_simps]: "take_answer e a s =
     (case a of
        Answer r \<Rightarrow> PrepareResponse e r s
      | Removed _ r \<Rightarrow> PrepareResponse e r s
      | Await params \<Rightarrow> s\<lparr>cs_script := Some params\<rparr>)"

text \<open>\<open>None\<close> when \<open>Build\<close> or the processor does not return.  The server is never missing.\<close>

definition ProcessNewData ::
  "session_env \<Rightarrow> string \<Rightarrow> client_session \<Rightarrow> client_session outcome option" where
  [eval_simps]: "ProcessNewData e data s =
     (case session_Build e (cs_master_fd s) (cs_builder s, cs_dest s) data of
        None \<Rightarrow> None
      | Some (Inl x) \<Rightarrow> Some (Inl x)
      | Some (Inr (b, dest)) \<Rightarrow>
          (let t = s\<lparr>cs_last_activity := pe_now (se_proc e), cs_builder := b, cs_dest := dest\<rparr> in
           if rb_status b = RB_DONE
           then map_option (map_outcome (\<lambda>a. take_answer e a (t\<lparr>cs_busy := True\<rparr>)))
             (ProcessRequest (se_proc e) (rb_rq b) dest)
           else Some (Inr t)))"

definition OnReadyToRecv ::
  "session_env \<Rightarrow> recv_package \<Rightarrow> client_session \<Rightarrow> client_session outcome option" where
  [eval_simps]: "OnReadyToRecv e pack s =
     (if cs_busy s then Some (Inr s)
      else if rp_status pack \<noteq> RS_OK then Some (Inr (CloseConnection s))
      else ProcessNewData e (rp_data pack) s)"

definition OnReadyToSend :: "session_env \<Rightarrow> int \<Rightarrow> int \<Rightarrow> client_session \<Rightarrow> client_session" where
  [eval_simps]: "OnReadyToSend e answer1 answer2 s =
     (case cs_writer s of
        None \<Rightarrow> s
      | Some w \<Rightarrow>
          (let t = s\<lparr>cs_last_activity := pe_now (se_proc e)\<rparr> in
           case OnReadyToSend_Call answer1 answer2 w (cs_wire s) of
             (Sending w1, wire) \<Rightarrow> t\<lparr>cs_writer := Some w1, cs_wire := wire\<rparr>
           | (Send_failed, wire) \<Rightarrow> CloseConnection (t\<lparr>cs_wire := wire\<rparr>)
           | (Send_done, wire) \<Rightarrow> ResponseSentCleanup (wr_close w) (t\<lparr>cs_wire := wire\<rparr>)))"

text \<open>The response of a script, handed to \<open>ClientProceedWithResponseCallback\<close>.\<close>

definition ProceedWithResponse :: "session_env \<Rightarrow> response \<Rightarrow> client_session \<Rightarrow> client_session" where
  [eval_simps]: "ProceedWithResponse e r s = PrepareResponse e r (s\<lparr>cs_script := None\<rparr>)"

end
