(* ===== verification/ClientSessionProps.thy ===== *)
theory ClientSessionProps
  imports ClientSession
begin

text \<open>
  What holds of a session: which server is chosen, that the path of a request stays below the directory of
  its location, and that, up to the first read that fails, no callback throws and a session is never
  stuck: a request in progress, a response on its way, a script that runs, or the connection is closed.
\<close>

section \<open>The server of a request\<close>

definition host_match :: "request \<Rightarrow> server \<Rightarrow> match_type \<times> string" where
  "host_match rq srv = (case MatchedServerName srv rq of Inl _ \<Rightarrow> (NO_MATCH, []) | Inr m \<Rightarrow> m)"

lemma MatchedServerName_ok:
  assumes "GetHeaderVal rq ''host'' \<noteq> None" "[] \<notin> set (server_names srv)"
  shows "MatchedServerName srv rq = Inr (host_match rq srv)"
proof -
  from assms(1) obtain host where h: "GetHeaderVal rq ''host'' = Some host" by blast
  then show ?thesis
    using match_names_spec [OF assms(2), of host "(NO_MATCH, [])"]
    by (auto simp: host_match_def MatchedServerName_def MatchHostName_def)
qed

lemma choose_best_eq:
  assumes "GetHeaderVal rq ''host'' \<noteq> None" "\<forall>srv\<in>set srvs. [] \<notin> set (server_names srv)"
  shows "choose_best rq best srvs = Inr (best_of name_beats (host_match rq) best srvs)"
  using assms(2)
proof (induction srvs arbitrary: best)
  case (Cons srv srvs)
  then show ?case using MatchedServerName_ok [OF assms(1), of srv] by simp
qed simp

lemma name_beats_none: "name_beats m (NO_MATCH, []) \<longleftrightarrow> fst m \<noteq> NO_MATCH \<or> snd m \<noteq> []"
  by (cases "fst m") (auto simp: name_beats_def)

lemma host_match_none:
  assumes "[] \<notin> set (server_names srv)" "fst (host_match rq srv) = NO_MATCH"
  shows "host_match rq srv = (NO_MATCH, [])"
proof (cases "GetHeaderVal rq ''host''")
  case None
  then show ?thesis by (simp add: host_match_def MatchedServerName_def)
next
  case (Some host)
  let ?ns = "filter (\<lambda>n. name_kind host n \<noteq> NO_MATCH) (server_names srv)"
  have m: "host_match rq srv = (if host \<in> set (server_names srv) then (EXACT_MATCH, host)
      else case ?ns of [] \<Rightarrow> (NO_MATCH, []) | ns \<Rightarrow> (name_kind host (last ns), last ns))"
    using Some match_names_spec [OF assms(1), of host "(NO_MATCH, [])"]
    by (simp add: host_match_def MatchedServerName_def MatchHostName_def)
  have "?ns \<noteq> [] \<Longrightarrow> last ?ns \<in> set ?ns" by (rule last_in_set)
  then have "?ns \<noteq> [] \<Longrightarrow> name_kind host (last ?ns) \<noteq> NO_MATCH" by simp
  with m assms(2) show ?thesis by (cases ?ns) (auto split: if_splits)
qed

text \<open>A request on a listener goes to the first of the servers whose name matches its host best: an
  equal name before one with a leading wildcard, that before a trailing one, then the longer name; and
  to the first server of the listener when no name matches.\<close>

lemma server_chosen:
  assumes "GetHeaderVal rq ''host'' \<noteq> None" "servers_of m fd = srvs" "srvs \<noteq> []"
    and "\<forall>srv\<in>set srvs. [] \<notin> set (server_names srv)"
  shows "\<exists>srv\<in>set srvs. ChooseServer m fd rq = Inr srv \<and>
    (if \<forall>t\<in>set srvs. fst (host_match rq t) = NO_MATCH then srv = hd srvs
     else fst (host_match rq srv) \<noteq> NO_MATCH \<and>
       (\<forall>t\<in>set srvs. \<not> name_beats (host_match rq t) (host_match rq srv)) \<and>
       (\<exists>pre post. srvs = pre @ srv # post \<and>
         (\<forall>t\<in>set pre. name_beats (host_match rq srv) (host_match rq t))))"
proof -
  let ?best = "best_of name_beats (host_match rq) ((NO_MATCH, []), None) srvs"
  have none: "name_beats (host_match rq t) (NO_MATCH, []) \<longleftrightarrow> fst (host_match rq t) \<noteq> NO_MATCH"
    if "t \<in> set srvs" for t
    using host_match_none [of t rq] that assms(4) name_beats_none [of "host_match rq t"] by auto
  have run: "choose_best rq ((NO_MATCH, []), None) (servers_of m fd) = Inr ?best"
    using choose_best_eq [OF assms(1,4)] assms(2) by simp
  note finds = name_order.best_of_finds [where score = "host_match rq" and b = "(NO_MATCH, [])" and xs = srvs]
  show ?thesis
  proof (cases "snd ?best")
    case None
    then have best: "?best = ((NO_MATCH, []), None)" and all: "\<forall>t\<in>set srvs. fst (host_match rq t) = NO_MATCH"
      using finds none by (auto split: prod.splits)
    have "ChooseServer m fd rq = Inr (hd srvs)"
      using run best assms(2,3) by (cases srvs) (simp_all add: ChooseServer_def)
    with all assms(3) show ?thesis by auto
  next
    case (Some srv)
    then obtain r where best: "?best = (r, Some srv)" by (cases ?best) auto
    from finds [unfolded best prod.case option.case] have f: "srv \<in> set srvs" "r = host_match rq srv" "name_beats r (NO_MATCH, [])"
      "\<forall>t\<in>set srvs. \<not> name_beats (host_match rq t) r"
      "\<exists>pre post. srvs = pre @ srv # post \<and> (\<forall>t\<in>set pre. name_beats r (host_match rq t))"
      by blast+
    then have "fst (host_match rq srv) \<noteq> NO_MATCH" using none [OF f(1)] by simp
    moreover have "ChooseServer m fd rq = Inr srv"
      using run best calculation f(2) by (simp add: ChooseServer_def)
    ultimately show ?thesis using f by auto
  qed
qed

section \<open>The destination of a request\<close>

text \<open>
  What an accepted configuration gives every listener: servers, whose names are not empty, and whose
  locations have an alias and know whether they are for scripts.
\<close>

definition location_ready :: "location \<Rightarrow> bool" where
  "location_ready loc \<longleftrightarrow> loc_alias_dir loc \<noteq> [] \<and>
     loc_is_cgi loc = IsCgiLocation (fst (loc_route loc)) \<and> NUL \<notin> set (fst (loc_route loc))"

definition listener_ready :: "sockets_to_servers \<Rightarrow> int \<Rightarrow> bool" where
  "listener_ready m fd \<longleftrightarrow> servers_of m fd \<noteq> [] \<and>
     (\<forall>srv\<in>set (servers_of m fd). [] \<notin> set (server_names srv) \<and> (\<forall>l\<in>set (locations srv). location_ready l))"

definition destined :: "sockets_to_servers \<Rightarrow> int \<Rightarrow> request \<Rightarrow> request_destination \<Rightarrow> bool" where
  "destined m fd rq d \<longleftrightarrow> rd_server d \<in> set (servers_of m fd) \<and>
     ChooseServer m fd rq = Inr (rd_server d) \<and> fst (ChooseLocation (rd_server d) rq) = rd_loc d \<and>
     (\<exists>loc\<in>set (locations (rd_server d)). rd_loc d = Some loc \<and>
        route_serves (loc_route loc) (target_path rq) \<and> rq_method rq \<in> set (loc_allowed_methods loc) \<and>
        UpdatePath (loc_alias_dir loc) (fst (loc_route loc)) (target_path rq) = Inr (rd_updated_path d))"

lemma ChooseServer_cong:
  assumes "rq_headers rq = rq_headers rq'"
  shows "ChooseServer m fd rq = ChooseServer m fd rq'"
proof -
  have m: "MatchedServerName srv rq = MatchedServerName srv rq'" for srv
    using assms by (simp add: MatchedServerName_def GetHeaderVal_def)
  have "choose_best rq best srvs = choose_best rq' best srvs" for best srvs
    by (induction srvs arbitrary: best) (simp_all add: m)
  then show ?thesis by (simp add: ChooseServer_def)
qed

lemma ChooseLocation_cong: "rq_target rq = rq_target rq' \<Longrightarrow> ChooseLocation srv rq = ChooseLocation srv rq'"
  by (simp add: ChooseLocation_def MatchedRoute_def target_path_def)

lemma destined_cong:
  "rq_target rq = rq_target rq' \<Longrightarrow> rq_method rq = rq_method rq' \<Longrightarrow> rq_headers rq = rq_headers rq' \<Longrightarrow>
     destined m fd rq d \<longleftrightarrow> destined m fd rq' d"
  using ChooseServer_cong [of rq rq' m fd] ChooseLocation_cong [of rq rq' "rd_server d"]
  by (simp add: destined_def target_path_def)

lemma UpdatePath_served:
  assumes "dir \<noteq> []" "route_serves route path"
  shows "\<exists>p. UpdatePath dir (fst route) path = Inr p"
proof -
  have "prefix (fst route) path" using assms(2) by (auto simp: route_serves_def split: if_splits)
  then have "length (fst route) \<le> length path" by (rule prefix_length_le)
  with assms(1) show ?thesis by (cases dir) (auto simp: UpdatePath_def substr_from_def)
qed

lemma ChooseServerCb_ok:
  assumes "GetHeaderVal rq ''host'' \<noteq> None" "listener_ready m fd"
  shows "\<exists>vr d1. ChooseServerCb m u fd rq d = Inr (vr, d1) \<and> (hv_status vr = HTTP_OK \<longrightarrow> destined m fd rq d1)"
proof -
  from server_chosen [OF assms(1) refl, of m fd] assms(2) obtain srv where
    srv: "srv \<in> set (servers_of m fd)" "ChooseServer m fd rq = Inr srv"
    by (auto simp: listener_ready_def)
  obtain chosen kind where c: "ChooseLocation srv rq = (chosen, kind)" by fastforce
  show ?thesis
  proof (cases chosen)
    case None
    with location_chosen [of srv rq] c have "kind = NO_LOCATION" by simp
    with srv(2) c None show ?thesis by (simp add: ChooseServerCb_def)
  next
    case (Some loc)
    with location_chosen [of srv rq] c have l: "kind \<noteq> NO_LOCATION"
      "route_serves (loc_route loc) (target_path rq)" "loc \<in> set (locations srv)" by auto
    then have "loc_alias_dir loc \<noteq> []" using assms(2) srv(1) by (auto simp: listener_ready_def location_ready_def)
    from UpdatePath_served [OF this l(2)] obtain p where
      "UpdatePath (loc_alias_dir loc) (fst (loc_route loc)) (target_path rq) = Inr p" by blast
    with srv c Some l show ?thesis
      by (auto simp: ChooseServerCb_def destined_def Let_def)
  qed
qed

section \<open>Building the request of a session\<close>

text \<open>Only the end of the headers leads into the body or to the end of the request.\<close>

definition in_body :: "build_state \<Rightarrow> bool" where
  "in_body st \<longleftrightarrow> st \<in> {BS_BODY_REGULAR, BS_BODY_CHUNK_SIZE, BS_BODY_CHUNK_CONTENT, BS_END}"

lemma first_line_runs: "\<exists>st c. parse_first_line b = Inr (st, c) \<and> \<not> in_body st"
proof (cases "split_request_line (rb_extraction b)")
  case None
  then show ?thesis by (simp add: parse_first_line_def Let_def in_body_def)
next
  case (Some parts)
  obtain m t v where parts: "parts = (m, t, v)" by (cases parts)
  obtain tg where "RqTarget_of_raw t = Inr tg" using RqTarget_of_raw_ok by blast
  with Some parts show ?thesis
    by (auto simp: parse_first_line_def Let_def set_request_line_def TrySetRqTarget_def
        SetStatusAndExitBuilder_def in_body_def split: prod.split)
qed

lemma header_line_runs: "\<not> in_body (fst (parse_header_line b))"
  by (auto simp: parse_header_line_def Let_def SetStatusAndExitBuilder_def in_body_def
      split: option.split prod.split)

lemma line_step_runs:
  assumes "\<exists>st' c. g b1 = Inr (st', c) \<and> \<not> in_body st'" "TryToExtractLine b = (r, b1)" "\<not> in_body st"
  shows "\<exists>st' c. line_step st g b = Inr (st', c) \<and> \<not> in_body st'"
  using assms by (cases r) (auto simp: line_step_def SetStatusAndExitBuilder_def in_body_def)

lemma BuildStep_head:
  assumes "rb_state b \<in> {BS_RQ_LINE, BS_HEADER_FIELDS, BS_BAD_REQUEST}"
  shows "\<exists>c. BuildStep e b = Inr c \<and> \<not> in_body (rb_state c)"
proof -
  obtain r b1 where x: "TryToExtractLine b = (r, b1)" by fastforce
  have "\<exists>st' c. line_step BS_RQ_LINE parse_first_line b = Inr (st', c) \<and> \<not> in_body st'"
    using first_line_runs x by (rule line_step_runs) (simp add: in_body_def)
  moreover have "\<exists>st' c. line_step BS_HEADER_FIELDS (\<lambda>b. Inr (parse_header_line b)) b = Inr (st', c) \<and> \<not> in_body st'"
    by (rule line_step_runs [OF _ x])
      (use header_line_runs [of b1] in \<open>cases "parse_header_line b1", auto simp: in_body_def\<close>)
  ultimately show ?thesis
    using assms BuildStep_lines(1,2) [of b e]
    by (cases "rb_state b") (auto simp: set_build_state_def BuildStep_def in_body_def)
qed

lemma BuildStep_body:
  assumes "rb_state b \<in> {BS_BODY_REGULAR, BS_BODY_CHUNK_SIZE, BS_BODY_CHUNK_CONTENT, BS_END}"
  shows "\<exists>c. BuildStep e b = Inr c \<and> rq_target (rb_rq c) = rq_target (rb_rq b) \<and>
    rq_method (rb_rq c) = rq_method (rb_rq b) \<and> rq_headers (rb_rq c) = rq_headers (rb_rq b)"
proof -
  obtain r b1 where x: "TryToExtractLine b = (r, b1)" by fastforce
  obtain st c where y: "parse_chunk_size b1 = (st, c)" by fastforce
  have "same_head b (snd (BuildBodyChunkSize b))"
    using TryToExtractLine_keeps [OF x] body_steps_head(1) [OF y] x y
    by (cases r) (auto simp: BuildBodyChunkSize_def same_head_def SetStatusAndExitBuilder_def)
  moreover have "same_head b (snd (BuildBodyRegular b))" "same_head b (snd (BuildBodyChunkContent b))"
    using body_steps_head(2,3) [of b] by (metis prod.collapse)+
  ultimately show ?thesis
    using assms by (auto simp: BuildStep_def set_build_state_def same_head_def split: prod.splits)
qed

text \<open>
  The end of the headers, with the destination that the callback has just filled: it throws only when
  the temporary file cannot be opened.
\<close>

lemma BuildStep_after_headers:
  assumes "rb_state b = BS_AFTER_HEADERS" "builder_inv b" "can_open (se_builder e) (tmp_name (se_builder e))"
    and "listener_ready (se_servers e) fd"
  shows "\<exists>c d1. session_step_build e fd b d = Inr (c, d1) \<and>
    (in_body (rb_state c) \<longrightarrow> destined (se_servers e) fd (rb_rq c) d1)"
proof (cases "callback_request b")
  case None
  then have "\<exists>c. BuildStep (se_builder e) b = Inr c \<and> rb_state c = BS_BAD_REQUEST"
    using assms(1)
    by (auto simp: callback_request_def BuildStep_def ProcessHeaders_def SetStatusAndExitBuilder_def
        set_build_state_def split: prod.split if_splits)
  with None show ?thesis by (auto simp: session_step_build_def in_body_def)
next
  case (Some rq)
  then obtain b1 where i: "InterpretHeaders b = (HTTP_OK, b1)" "rq = rb_rq b1"
    "ValidateHeadersSyntax (rq_headers (rb_rq b)) = HTTP_OK"
    by (cases "InterpretHeaders b") (auto simp: callback_request_def split: if_splits)
  have nb: "\<not> rb_has_body b" using assms(1,2) by (simp add: builder_inv_cases(3))
  note h = InterpretHeaders_ok [OF i(1) nb]
  then have "GetHeaderVal rq ''host'' \<noteq> None" using i(2) by simp
  from ChooseServerCb_ok [OF this assms(4), of "se_uninit e" d] obtain vr d1 where
    cb: "ChooseServerCb (se_servers e) (se_uninit e) fd rq d = Inr (vr, d1)"
      "hv_status vr = HTTP_OK \<longrightarrow> destined (se_servers e) fd rq d1" by blast
  let ?e = "(se_builder e)\<lparr>headers_ready_cb := (\<lambda>_. vr)\<rparr>"
  let ?b1 = "b1\<lparr>rb_body := (rb_body b1)\<lparr>bb_max := word_of_int (hv_max_body_size vr)\<rparr>\<rparr>"
  obtain rc c where o: "open_body ?e vr ?b1 = Inr (rc, c)"
    using assms(3) by (cases "open_body ?e vr ?b1")
      (auto simp: open_body_def Let_def stream_open_def split: option.splits if_splits)
  have ph: "\<exists>st c. ProcessHeaders ?e b = Inr (st, c) \<and> (in_body st \<longrightarrow> hv_status vr = HTTP_OK \<and>
      rq_target (rb_rq c) = rq_target rq \<and> rq_method (rb_rq c) = rq_method rq \<and>
      rq_headers (rb_rq c) = rq_headers rq)"
  proof (cases "hv_status vr = HTTP_OK")
    case ok: True
    have keep: "rq_target (rb_rq c) = rq_target rq" "rq_method (rb_rq c) = rq_method rq"
      "rq_headers (rb_rq c) = rq_headers rq"
      using open_body_keeps [OF o] i(2) by simp_all
    have "\<exists>st c1. PrepareBody ?e vr b1 = Inr (st, c1) \<and> (in_body st \<longrightarrow> c1 = c)"
      using o by (simp add: PrepareBody_def Let_def SetStatusAndExitBuilder_def in_body_def)
    with keep ok i show ?thesis by (auto simp: ProcessHeaders_def Let_def)
  qed (use i in \<open>auto simp: ProcessHeaders_def Let_def in_body_def\<close>)
  then obtain st c1 where "ProcessHeaders ?e b = Inr (st, c1)" and keep: "in_body st \<longrightarrow> hv_status vr = HTTP_OK \<and>
      rq_target (rb_rq c1) = rq_target rq \<and> rq_method (rb_rq c1) = rq_method rq \<and>
      rq_headers (rb_rq c1) = rq_headers rq" by blast
  then have "session_step_build e fd b d = Inr (c1\<lparr>rb_state := st\<rparr>, d1)"
    using Some cb(1) assms(1) by (simp add: session_step_build_def BuildStep_def set_build_state_def)
  moreover have "in_body st \<longrightarrow> destined (se_servers e) fd (rb_rq c1) d1"
    using keep cb(2) destined_cong [of rq "rb_rq c1" "se_servers e" fd d1] by auto
  ultimately show ?thesis by simp
qed

text \<open>What a session knows about its request: once it is past the headers, where it goes.\<close>

definition routed :: "sockets_to_servers \<Rightarrow> int \<Rightarrow> build_pair \<Rightarrow> bool" where
  "routed m fd = (\<lambda>(b, d). builder_inv b \<and> (in_body (rb_state b) \<longrightarrow> destined m fd (rb_rq b) d))"

definition env_ready :: "session_env \<Rightarrow> int \<Rightarrow> bool" where
  "env_ready e fd \<longleftrightarrow> can_open (se_builder e) (tmp_name (se_builder e)) \<and> listener_ready (se_servers e) fd"

lemma session_step_inv:
  assumes "session_step_build e fd b d = Inr (c, d1)" "builder_inv b"
  shows "builder_inv c"
  using assms BuildStep_inv [of b]
  by (auto simp: session_step_build_def bind_outcome_Inr_iff map_outcome_Inr_iff split: option.splits)

lemma session_step_runs:
  assumes "env_ready e fd" "routed (se_servers e) fd (b, d)"
  shows "\<exists>p. session_step_build e fd b d = Inr p \<and> routed (se_servers e) fd p"
proof -
  have inv: "builder_inv b" using assms(2) by (simp add: routed_def)
  have "\<exists>c d1. session_step_build e fd b d = Inr (c, d1) \<and>
      (in_body (rb_state c) \<longrightarrow> destined (se_servers e) fd (rb_rq c) d1)"
  proof (cases "rb_state b = BS_AFTER_HEADERS")
    case True
    with assms inv show ?thesis by (intro BuildStep_after_headers) (simp_all add: env_ready_def)
  next
    case False
    then have none: "callback_request b = None" by (simp add: callback_request_def)
    have "\<exists>c. BuildStep (se_builder e) b = Inr c \<and>
        (in_body (rb_state c) \<longrightarrow> destined (se_servers e) fd (rb_rq c) d)"
    proof (cases "in_body (rb_state b)")
      case True
      then have d: "destined (se_servers e) fd (rb_rq b) d" using assms(2) by (simp add: routed_def)
      from True obtain c where "BuildStep (se_builder e) b = Inr c" "rq_target (rb_rq c) = rq_target (rb_rq b)"
        "rq_method (rb_rq c) = rq_method (rb_rq b)" "rq_headers (rb_rq c) = rq_headers (rb_rq b)"
        using BuildStep_body [of b "se_builder e"] by (auto simp: in_body_def)
      with d destined_cong [of "rb_rq c" "rb_rq b"] show ?thesis by auto
    next
      case out: False
      with False have "rb_state b \<in> {BS_RQ_LINE, BS_HEADER_FIELDS, BS_BAD_REQUEST}"
        by (cases "rb_state b") (simp_all add: in_body_def)
      from BuildStep_head [OF this, of "se_builder e"] show ?thesis by blast
    qed
    with none show ?thesis by (auto simp: session_step_build_def)
  qed
  then obtain c d1 where s: "session_step_build e fd b d = Inr (c, d1)"
    "in_body (rb_state c) \<longrightarrow> destined (se_servers e) fd (rb_rq c) d1" by blast
  with session_step_inv [OF s(1) inv] show ?thesis by (auto simp: routed_def)
qed


lemma routed_same:
  assumes "routed m fd (b, d)" "rb_state c = rb_state b" "same_head b c"
    and "rq_status (rb_rq c) \<noteq> HTTP_OK \<or> rq_status (rb_rq c) = rq_status (rb_rq b)"
  shows "routed m fd (c, d)"
proof -
  have "rb_state c = BS_BAD_REQUEST \<longrightarrow> rq_status (rb_rq c) \<noteq> HTTP_OK"
    using assms builder_inv_cases(1) [of b] by (auto simp: routed_def)
  with assms builder_inv_same [of c b] destined_cong [of "rb_rq c" "rb_rq b"] show ?thesis
    by (simp add: routed_def same_head_def)
qed

lemma session_body_runs:
  assumes "env_ready e fd" "routed (se_servers e) fd p"
  shows "\<exists>q. session_body e fd (Inr p) = Inr q \<and> routed (se_servers e) fd q"
proof -
  obtain b d where p: "p = (b, d)" by (cases p)
  let ?b = "snd (CanBuild b)"
  have "routed (se_servers e) fd (?b, d)"
    using assms(2) [unfolded p] by (rule routed_same) (simp_all add: CanBuild_def same_head_def)
  from session_step_runs [OF assms(1) this] p show ?thesis by (simp add: session_body_def)
qed

lemma session_loop_runs:
  assumes "while_option session_cond (session_body e fd) (Inr p) = Some r"
    and "env_ready e fd" "routed (se_servers e) fd p"
  shows "\<exists>b d. r = Inr (b, d) \<and> routed (se_servers e) fd (b, d) \<and> \<not> fst (CanBuild b)"
proof -
  define P where "P s \<longleftrightarrow> (\<exists>q. s = Inr q \<and> routed (se_servers e) fd q)" for s :: "build_pair outcome"
  have "P r"
    by (rule while_option_rule [OF _ assms(1)])
      (use session_body_runs [OF assms(2)] assms(3) in \<open>auto simp: P_def\<close>)
  moreover have "\<not> session_cond r" using assms(1) by (rule while_option_stop)
  ultimately show ?thesis by (auto simp: P_def session_cond_def)
qed

text \<open>A request that is done goes somewhere, or has an error status.\<close>

definition settled :: "sockets_to_servers \<Rightarrow> int \<Rightarrow> build_pair \<Rightarrow> bool" where
  "settled m fd p \<longleftrightarrow> routed m fd p \<and>
     (rb_status (fst p) = RB_DONE \<longrightarrow> rb_state (fst p) = BS_END \<or> rq_status (rb_rq (fst p)) \<noteq> HTTP_OK)"

lemma session_Build_runs:
  assumes "session_Build e fd (b, d) data = Some r" "env_ready e fd" "routed (se_servers e) fd (b, d)"
  shows "\<exists>p. r = Inr p \<and> settled (se_servers e) fd p"
proof (cases "EndOfBuffer (rb_parser b) \<and> data = []")
  case True
  let ?c = "b\<lparr>rb_rq := (rb_rq b)\<lparr>rq_status := HTTP_BAD_REQUEST\<rparr>, rb_status := RB_DONE\<rparr>"
  have "routed (se_servers e) fd (?c, d)"
    using assms(3) by (rule routed_same) (simp_all add: same_head_def)
  with True assms(1) show ?thesis by (auto simp: session_Build_def settled_def)
next
  case False
  let ?b = "b\<lparr>rb_parser := AddNewData (rb_parser b) data\<rparr>"
  have "routed (se_servers e) fd (?b, d)"
    using assms(3) by (rule routed_same) (simp_all add: same_head_def)
  moreover from False assms(1) obtain t where t:
    "while_option session_cond (session_body e fd) (Inr (?b, d)) = Some t"
    "r = map_outcome (\<lambda>(c, d). (after_loop c, d)) t"
    by (auto simp: session_Build_def)
  ultimately obtain c d1 where c: "t = Inr (c, d1)" "routed (se_servers e) fd (c, d1)" "\<not> fst (CanBuild c)"
    using session_loop_runs [OF t(1) assms(2)] by blast
  have "routed (se_servers e) fd (after_loop c, d1)"
    using c(2) by (rule routed_same) (simp_all add: after_loop_def CanBuild_def same_head_def)
  moreover have "rb_status (after_loop c) = RB_DONE \<Longrightarrow> final_state (rb_state (after_loop c))"
    using c(3) by (auto simp: after_loop_status set_status_def split: if_splits)
  ultimately have "settled (se_servers e) fd (after_loop c, d1)"
    by (auto simp: settled_def routed_def builder_inv_cases(1))
  with t(2) c(1) show ?thesis by simp
qed

section \<open>The life of a session\<close>

text \<open>
  The callbacks of a session.  A read whose \<open>Build\<close> never returns has no result; the step that has none
  is undefined.
\<close>

datatype session_event =
    Readable session_env recv_package
  | Writable session_env int int
  | Script_done session_env response

fun session_step :: "session_event \<Rightarrow> client_session \<Rightarrow> client_session outcome" where
  "session_step (Readable e pack) s =
     (case OnReadyToRecv e pack s of None \<Rightarrow> Inl Undefined_behaviour | Some r \<Rightarrow> r)"
| "session_step (Writable e answer1 answer2) s = Inr (OnReadyToSend e answer1 answer2 s)"
| "session_step (Script_done e r) s = Inr (ProceedWithResponse e r s)"

definition read_ok :: "session_env \<Rightarrow> string \<Rightarrow> client_session \<Rightarrow> bool" where
  "read_ok e data s \<longleftrightarrow>
     (case session_Build e (cs_master_fd s) (cs_builder s, cs_dest s) data of
        None \<Rightarrow> False
      | Some (Inl _) \<Rightarrow> True
      | Some (Inr (b, d)) \<Rightarrow> \<not> short_script_name d (rb_rq b))"

definition system_ok :: "session_env \<Rightarrow> bool" where
  "system_ok e \<longleftrightarrow> can_open (se_builder e) (tmp_name (se_builder e)) \<and>
     types_distinct (pe_fs (se_proc e)) \<and> \<not> IsDirectory (pe_fs (se_proc e)) []"

fun session_guard :: "sockets_to_servers \<Rightarrow> session_event \<Rightarrow> client_session \<Rightarrow> bool" where
  "session_guard m (Readable e pack) s \<longleftrightarrow> se_servers e = m \<and> \<not> IsDirectory (pe_fs (se_proc e)) [] \<and>
     (cs_busy s \<or> rp_status pack \<noteq> RS_OK \<or> system_ok e \<and> read_ok e (rp_data pack) s)"
| "session_guard m (Writable e _ _) s \<longleftrightarrow> True"
| "session_guard m (Script_done e _) s \<longleftrightarrow> cs_script s \<noteq> None"

text \<open>
  What the environment promises is less: \<open>stat\<close> of an empty path fails, and a script has an end only when
  there is one.  The reads that the guard leaves out beyond that are those that the session does not
  survive.
\<close>

fun session_promise :: "sockets_to_servers \<Rightarrow> session_event \<Rightarrow> client_session \<Rightarrow> bool" where
  "session_promise m (Readable e pack) s \<longleftrightarrow> se_servers e = m \<and> \<not> IsDirectory (pe_fs (se_proc e)) []"
| "session_promise m (Writable e _ _) s \<longleftrightarrow> True"
| "session_promise m (Script_done e _) s \<longleftrightarrow> cs_script s \<noteq> None"

definition read_fails :: "session_env \<Rightarrow> recv_package \<Rightarrow> client_session \<Rightarrow> bool" where
  "read_fails e pack s \<longleftrightarrow> \<not> cs_busy s \<and> rp_status pack = RS_OK \<and>
     (\<not> can_open (se_builder e) (tmp_name (se_builder e)) \<or>
      (\<exists>p. IsDirectory (pe_fs (se_proc e)) p \<and> IsRegularFile (pe_fs (se_proc e)) p) \<or>
      (case session_Build e (cs_master_fd s) (cs_builder s, cs_dest s) (rp_data pack) of
         None \<Rightarrow> True
       | Some (Inl _) \<Rightarrow> False
       | Some (Inr (b, d)) \<Rightarrow> short_script_name d (rb_rq b)))"

definition event_fails :: "session_event \<Rightarrow> client_session \<Rightarrow> bool" where
  "event_fails ev s \<longleftrightarrow> (case ev of Readable e pack \<Rightarrow> read_fails e pack s | _ \<Rightarrow> False)"

lemma session_guard_iff: "session_guard m ev s \<longleftrightarrow> session_promise m ev s \<and> \<not> event_fails ev s"
  by (cases ev)
    (auto simp: event_fails_def read_fails_def read_ok_def system_ok_def types_distinct_def split: option.splits sum.splits)

text \<open>
  A session that is not busy waits for its client: nothing is on its way.  A busy one has a response on
  its way or a script that runs, never both, or its connection is closed.
\<close>

definition not_stuck :: "client_session \<Rightarrow> bool" where
  "not_stuck s \<longleftrightarrow> (cs_writer s = None \<or> cs_script s = None) \<and>
     (\<not> cs_busy s \<longrightarrow> cs_writer s = None \<and> cs_script s = None) \<and>
     (cs_busy s \<and> \<not> cs_closed s \<longrightarrow> cs_writer s \<noteq> None \<or> cs_script s \<noteq> None)"

definition session_inv :: "sockets_to_servers \<Rightarrow> int \<Rightarrow> client_session \<Rightarrow> bool" where
  "session_inv m fd s \<longleftrightarrow> cs_master_fd s = fd \<and> routed m fd (cs_builder s, cs_dest s) \<and> not_stuck s"

lemma host_key: "ToLowerCase ''Host'' = ToLowerCase ''host''"
  by (simp add: eval_simps)

lemma settled_servable:
  assumes "settled m fd (b, d)" "rb_status b = RB_DONE" "rq_status (rb_rq b) = HTTP_OK" "listener_ready m fd"
    and "system_ok e"
  shows "\<exists>loc. servable (se_proc e) d (rb_rq b) loc"
proof -
  from assms(1-3) have st: "rb_state b = BS_END" and inv: "builder_inv b" and "destined m fd (rb_rq b) d"
    by (auto simp: settled_def routed_def in_body_def)
  then obtain loc where loc: "rd_loc d = Some loc" "route_serves (loc_route loc) (target_path (rb_rq b))"
    "loc \<in> set (locations (rd_server d))" "rd_server d \<in> set (servers_of m fd)"
    by (auto simp: destined_def)
  with assms(4) have "location_ready loc" by (auto simp: listener_ready_def)
  moreover have "rq_method (rb_rq b) \<noteq> HTTP_NO_METHOD" "target_path (rb_rq b) \<noteq> []"
    "GetHeaderVal (rb_rq b) ''Host'' \<noteq> None"
    using inv st GetHeaderVal_case_insensitive [OF host_key, of "rb_rq b"]
    by (simp_all add: builder_inv_cases start_ok_def accepted_def dot_free_def target_path_def)
  ultimately show ?thesis
    using loc assms(5) by (auto simp: servable_def location_ready_def system_ok_def)
qed

lemma PrepareResponse_simps [simp]:
  "cs_master_fd (PrepareResponse e r s) = cs_master_fd s" "cs_builder (PrepareResponse e r s) = cs_builder s"
  "cs_dest (PrepareResponse e r s) = cs_dest s" "cs_busy (PrepareResponse e r s) = cs_busy s"
  "cs_script (PrepareResponse e r s) = cs_script s"
  by (simp_all add: PrepareResponse_def CloseConnection_def Let_def)

lemma PrepareResponse_sends:
  "cs_writer (PrepareResponse e r s) \<noteq> None \<or> cs_closed (PrepareResponse e r s) \<and> cs_writer (PrepareResponse e r s) = cs_writer s"
  by (simp add: PrepareResponse_def CloseConnection_def Let_def)

lemma take_answer_inv:
  assumes "routed m fd (cs_builder s, cs_dest s)" "cs_master_fd s = fd" "cs_busy s" "cs_writer s = None" "cs_script s = None"
  shows "session_inv m fd (take_answer e a s)"
  using assms PrepareResponse_sends [of e _ s]
  by (cases a) (auto simp: take_answer_def session_inv_def not_stuck_def)

lemma ProcessNewData_inv:
  assumes "session_inv m fd s" "\<not> cs_busy s" "se_servers e = m" "system_ok e" "listener_ready m fd" "read_ok e data s"
  shows "\<exists>t. ProcessNewData e data s = Some (Inr t) \<and> session_inv m fd t"
proof -
  have env: "env_ready e fd" using assms(3-5) by (simp add: env_ready_def system_ok_def)
  have fd: "cs_master_fd s = fd" and r: "routed m fd (cs_builder s, cs_dest s)"
    and idle: "cs_writer s = None" "cs_script s = None"
    using assms(1,2) by (simp_all add: session_inv_def not_stuck_def)
  from assms(6) fd obtain x where x: "session_Build e fd (cs_builder s, cs_dest s) data = Some x"
    by (auto simp: read_ok_def split: option.splits)
  from session_Build_runs [OF x env] r assms(3) obtain b d where bd: "x = Inr (b, d)" "settled m fd (b, d)"
    by auto
  let ?t = "s\<lparr>cs_last_activity := pe_now (se_proc e), cs_builder := b, cs_dest := d\<rparr>"
  have rt: "routed m fd (b, d)" using bd(2) by (simp add: settled_def)
  show ?thesis
  proof (cases "rb_status b = RB_DONE")
    case ready: True
    have "rq_status (rb_rq b) = HTTP_OK \<Longrightarrow> \<exists>loc. servable (se_proc e) d (rb_rq b) loc"
      by (rule settled_servable [OF bd(2) ready _ assms(5,4)])
    then obtain loc where "rq_status (rb_rq b) = HTTP_OK \<longrightarrow> servable (se_proc e) d (rb_rq b) loc" by blast
    moreover have "\<not> short_script_name d (rb_rq b)" "types_distinct (pe_fs (se_proc e))"
      using assms(4,6) x bd(1) fd by (simp_all add: read_ok_def system_ok_def)
    ultimately obtain a where "ProcessRequest (se_proc e) (rb_rq b) d = Some (Inr a)"
      using request_answered by blast
    then have "ProcessNewData e data s = Some (Inr (take_answer e a (?t\<lparr>cs_busy := True\<rparr>)))"
      using x bd(1) fd ready by (simp add: ProcessNewData_def)
    moreover have "session_inv m fd (take_answer e a (?t\<lparr>cs_busy := True\<rparr>))"
      using rt fd idle by (intro take_answer_inv) simp_all
    ultimately show ?thesis by blast
  next
    case False
    then have "ProcessNewData e data s = Some (Inr ?t)" using x bd(1) fd by (simp add: ProcessNewData_def)
    moreover have "session_inv m fd ?t" using rt assms(1) by (simp add: session_inv_def not_stuck_def)
    ultimately show ?thesis by blast
  qed
qed

lemma routed_reset: "routed m fd (Builder_Reset b, d)"
  by (simp add: routed_def Builder_Reset_def builder_inv_cases in_body_def Request_init_def)

lemma OnReadyToSend_inv:
  assumes "session_inv m fd s"
  shows "session_inv m fd (OnReadyToSend e a1 a2 s)"
  using assms routed_reset
  by (auto simp: session_inv_def not_stuck_def OnReadyToSend_def ResponseSentCleanup_def CloseConnection_def Let_def
      split: option.split prod.split send_result.split)

lemma ProceedWithResponse_inv:
  assumes "session_inv m fd s" "cs_script s \<noteq> None"
  shows "session_inv m fd (ProceedWithResponse e r s)"
  using assms PrepareResponse_sends [of e r "s\<lparr>cs_script := None\<rparr>"]
  by (auto simp: session_inv_def not_stuck_def ProceedWithResponse_def)

lemma session_handler:
  assumes "listener_ready m fd" "session_inv m fd s" "session_guard m ev s"
  shows "\<exists>t. session_step ev s = Inr t \<and> session_inv m fd t"
proof (cases ev)
  case (Readable e pack)
  have close: "session_inv m fd (CloseConnection s)"
    using assms(2) by (simp add: CloseConnection_def session_inv_def not_stuck_def)
  consider "cs_busy s" | "\<not> cs_busy s" "rp_status pack \<noteq> RS_OK" | "\<not> cs_busy s" "rp_status pack = RS_OK" by blast
  then show ?thesis
  proof cases
    case 3
    with assms(3) Readable have g: "se_servers e = m" "system_ok e" "read_ok e (rp_data pack) s" by simp_all
    from ProcessNewData_inv [OF assms(2) 3(1) g(1,2) assms(1) g(3)] 3 Readable show ?thesis
      by (auto simp: OnReadyToRecv_def)
  qed (use Readable assms(2) close in \<open>simp_all add: OnReadyToRecv_def\<close>)
qed (use assms OnReadyToSend_inv ProceedWithResponse_inv in auto)

interpretation session: guarded_machine session_step "session_guard m" "\<lambda>s. listener_ready m fd \<and> session_inv m fd s"
  for m fd
  by unfold_locales (use session_handler in blast)

lemma session_new_inv: "session_inv m fd (ClientSession_new now registered fd srv)"
  by (simp add: ClientSession_new_def session_inv_def not_stuck_def routed_def in_body_def between_reads_init
      between_reads_init [unfolded between_reads_def] builder_init_def builder_inv_cases Request_init_def)

lemma session_runs:
  assumes "listener_ready m fd" "can_happen session_step (session_guard m) (ClientSession_new now registered fd srv) es"
  shows "\<exists>s. run_events session_step (ClientSession_new now registered fd srv) es = Inr s \<and> session_inv m fd s"
  using session.runs [where m = m and fd = fd, OF _ assms(2)] assms(1) session_new_inv by blast

text \<open>
  The host of a target in absolute form is not looked at: it neither replaces the \<open>Host\<close> field nor has a
  part in the choice of the server.
\<close>

lemma target_host_ignored: "ChooseServer m fd (rq\<lparr>rq_target := t\<rparr>) = ChooseServer m fd rq"
  by (rule ChooseServer_cong) simp

text \<open>C36: a request on a listener whose target is a path goes to the first of the servers whose name matches
  its \<open>Host\<close> field best: an equal name before one with a leading wildcard, that before a trailing one, then
  the longer name; and to the first server of the listener when no name matches.\<close>

theorem ChooseServer_best:
  assumes "\<not> maybe_ok (rt_host (rq_target rq))" "GetHeaderVal rq ''host'' \<noteq> None"
    and "servers_of m fd = srvs" "srvs \<noteq> []" "\<forall>srv\<in>set srvs. [] \<notin> set (server_names srv)"
  shows "\<exists>srv\<in>set srvs. ChooseServer m fd rq = Inr srv \<and>
    (if \<forall>t\<in>set srvs. fst (host_match rq t) = NO_MATCH then srv = hd srvs
     else fst (host_match rq srv) \<noteq> NO_MATCH \<and>
       (\<forall>t\<in>set srvs. \<not> name_beats (host_match rq t) (host_match rq srv)) \<and>
       (\<exists>pre post. srvs = pre @ srv # post \<and>
         (\<forall>t\<in>set pre. name_beats (host_match rq srv) (host_match rq t))))"
  by (rule server_chosen [OF assms(2-5)])


lemma dot_free_climbs: "dot_free p \<Longrightarrow> \<not> climbs p"
  by (cases p) (auto simp: dot_free_def climbs_def)


section \<open>The properties on concrete input\<close>

definition example_session_env :: session_env where
  [eval_simps]: "example_session_env =
     \<lparr>se_proc = example_proc_env, se_builder = example_env, se_servers = [(3, [example_server])],
      se_uninit = 0, se_write_ok = True\<rparr>"

definition example_session :: client_session where
  [eval_simps]: "example_session = ClientSession_new 0 True 3 example_server"

definition example_bytes :: string where
  [eval_simps]: "example_bytes = ''GET /a/c HTTP/1.1'' @ [CR, LF] @ ''Host: a'' @ [CR, LF, CR, LF]"

lemma example_session_build:
  "map_option (map_outcome (\<lambda>(b, d). (rb_status b, rb_state b, rd_loc d, rd_updated_path d)))
     (session_Build example_session_env 3 (builder_init, RequestDestination_new example_server) example_bytes)
   = Some (Inr (RB_DONE, BS_END, Some (plain_location ''/a/'' False), ''docs/c''))"
  by (simp add: eval_simps str_simps run_simps session_Build_def)

lemma example_ready: "listener_ready [(3, [example_server])] 3" "system_ok example_session_env"
  using example_types_distinct
  by (simp_all add: listener_ready_def location_ready_def system_ok_def eval_simps str_simps)

lemma take_answer_keeps: "cs_builder (take_answer e a s) = cs_builder s" "cs_dest (take_answer e a s) = cs_dest s"
  by (cases a; simp add: take_answer_def)+

lemma ProcessNewData_request:
  "session_Build e (cs_master_fd s) (cs_builder s, cs_dest s) data = Some (Inr (b, d)) \<Longrightarrow>
     ProcessNewData e data s = Some (Inr t) \<Longrightarrow> cs_builder t = b \<and> cs_dest t = d"
  by (auto simp: ProcessNewData_def Let_def take_answer_keeps map_outcome_Inr_iff split: if_splits)

definition example_read :: session_event where
  [eval_simps]: "example_read = Readable example_session_env \<lparr>rp_status = RS_OK, rp_data = example_bytes\<rparr>"

lemma example_session_run:
  "can_happen session_step (session_guard [(3, [example_server])]) example_session [example_read]"
  "run_events session_step example_session [example_read] = Inr s \<Longrightarrow>
     rb_state (cs_builder s) = BS_END \<and> rd_loc (cs_dest s) = Some (plain_location ''/a/'' False) \<and>
     rd_updated_path (cs_dest s) = ''docs/c''"
proof -
  from example_session_build obtain b d where
    b: "session_Build example_session_env 3 (builder_init, RequestDestination_new example_server) example_bytes
      = Some (Inr (b, d))"
    and bd: "rb_state b = BS_END" "rd_loc d = Some (plain_location ''/a/'' False)" "rd_updated_path d = ''docs/c''"
    by (auto simp: map_outcome_Inr_iff)
  have new: "cs_master_fd example_session = 3" "cs_builder example_session = builder_init" "\<not> cs_busy example_session"
    "cs_dest example_session = RequestDestination_new example_server"
    by (simp_all add: example_session_def ClientSession_new_def)
  have ok: "read_ok example_session_env example_bytes example_session"
    using b bd by (simp add: read_ok_def new plain_location_def short_script_name_def)
  then show "can_happen session_step (session_guard [(3, [example_server])]) example_session [example_read]"
    using example_ready by (simp add: example_read_def example_session_env_def system_ok_def split: sum.split)
  assume "run_events session_step example_session [example_read] = Inr s"
  then have "ProcessNewData example_session_env example_bytes example_session = Some (Inr s)"
    using new by (auto simp: example_read_def OnReadyToRecv_def bind_outcome_Inr_iff split: option.splits)
  with b bd new ProcessNewData_request [of example_session_env example_session] show
    "rb_state (cs_builder s) = BS_END \<and> rd_loc (cs_dest s) = Some (plain_location ''/a/'' False) \<and>
     rd_updated_path (cs_dest s) = ''docs/c''"
    by fastforce
qed

theorem ChooseServer_best_witness:
  "ChooseServer [(3, [example_server])] 3 ((request_for ''/a/c'')\<lparr>rq_headers := [(''host'', ''www.example.com'')]\<rparr>)
     = Inr example_server"
  using ChooseServer_best [of "(request_for ''/a/c'')\<lparr>rq_headers := [(''host'', ''www.example.com'')]\<rparr>"
      "[(3, [example_server])]" 3 "[example_server]"]
  by (simp add: eval_simps)

lemma example_survives: "\<not> event_fails example_read example_session"
  using example_session_run(1) by (simp add: session_guard_iff del: session_guard.simps)



end
