(* ===== verification/SessionRefinement.thy ===== *)
theory SessionRefinement
  imports ClientSessionProps
begin

text \<open>
  A session builds its requests with a callback that fills its destination.  Seen from the builder this
  is \<open>Build\<close> with a function of the request as its parameter: the session refines the builder.
\<close>

text \<open>
  The session's callback as the parameter of the builder: what it answers depends on the request only,
  and not on the destination it fills.
\<close>

definition session_callback :: "session_env \<Rightarrow> int \<Rightarrow> request_destination \<Rightarrow> request \<Rightarrow> headers_validation_result" where
  "session_callback e fd d rq =
     (case ChooseServerCb (se_servers e) (se_uninit e) fd rq d of
        Inr (vr, _) \<Rightarrow> vr
      | Inl _ \<Rightarrow> \<lparr>hv_status = HTTP_NOT_FOUND, hv_max_body_size = se_uninit e, hv_upload_path = None\<rparr>)"

definition plain_env :: "session_env \<Rightarrow> int \<Rightarrow> request_destination \<Rightarrow> builder_env" where
  "plain_env e fd d = (se_builder e)\<lparr>headers_ready_cb := session_callback e fd d\<rparr>"

lemma ChooseServerCb_same_answer:
  assumes "ChooseServerCb m u fd rq d = Inr (vr, d1)"
  shows "\<exists>d2. ChooseServerCb m u fd rq d' = Inr (vr, d2)"
proof -
  from assms obtain srv where srv: "ChooseServer m fd rq = Inr srv"
    by (auto simp: ChooseServerCb_def bind_outcome_Inr_iff)
  obtain chosen kind where k: "ChooseLocation srv rq = (chosen, kind)" by fastforce
  show ?thesis
  proof (cases chosen)
    case None
    with assms srv k show ?thesis by (auto simp: ChooseServerCb_def Let_def split: if_splits)
  next
    case (Some loc)
    with assms srv k show ?thesis
      by (cases "UpdatePath (loc_alias_dir loc) (fst (loc_route loc)) (target_path rq)")
        (auto simp: ChooseServerCb_def Let_def split: if_splits)
  qed
qed

lemma PrepareBody_env [simp]: "PrepareBody (e\<lparr>headers_ready_cb := f\<rparr>) vr b = PrepareBody e vr b"
  by (cases "hv_upload_path vr") (simp_all add: PrepareBody_def open_body_def stream_open_def Let_def)

lemma ProcessHeaders_callback:
  assumes "callback_request b = Some rq" "f rq = g rq"
  shows "BuildStep (e\<lparr>headers_ready_cb := f\<rparr>) b = BuildStep (e\<lparr>headers_ready_cb := g\<rparr>) b"
proof -
  obtain rc b1 where i: "InterpretHeaders b = (rc, b1)" by fastforce
  with assms(1) have "rb_state b = BS_AFTER_HEADERS" "rq = rb_rq b1"
    by (auto simp: callback_request_def split: if_splits)
  with assms(2) i show ?thesis by (simp add: BuildStep_def ProcessHeaders_def Let_def)
qed

lemma ProcessHeaders_no_callback:
  assumes "callback_request b = None"
  shows "BuildStep (e\<lparr>headers_ready_cb := f\<rparr>) b = BuildStep e b"
  using assms
  by (cases "rb_state b") (auto simp: BuildStep_def ProcessHeaders_def callback_request_def split: prod.splits if_splits)

lemma session_step_refines:
  assumes "session_step_build e fd b d0 = Inr p"
  shows "BuildStep (plain_env e fd d) b = Inr (fst p)"
proof (cases "callback_request b")
  case None
  with assms ProcessHeaders_no_callback show ?thesis
    by (auto simp: session_step_build_def plain_env_def map_outcome_Inr_iff)
next
  case (Some rq)
  with assms obtain vr d1 c where c: "ChooseServerCb (se_servers e) (se_uninit e) fd rq d0 = Inr (vr, d1)"
    "BuildStep ((se_builder e)\<lparr>headers_ready_cb := (\<lambda>_. vr)\<rparr>) b = Inr c" "fst p = c"
    by (auto simp: session_step_build_def bind_outcome_Inr_iff map_outcome_Inr_iff)
  from ChooseServerCb_same_answer [OF c(1), of d]
  have "session_callback e fd d rq = vr" by (auto simp: session_callback_def)
  with c ProcessHeaders_callback [OF Some, of "session_callback e fd d" "\<lambda>_. vr"] show ?thesis
    by (simp add: plain_env_def)
qed

text \<open>C6: what a session does to its builder is what \<open>Build\<close> does with the session's callback as its
  parameter, so that every property of \<open>Build\<close> holds of the requests of a session; in particular
  they return or hang together.\<close>

theorem session_Build_refines:
  assumes "env_ready e fd" "routed (se_servers e) fd (b, d)"
  shows "map_option (map_outcome fst) (session_Build e fd (b, d) data) = Build (plain_env e fd d) b data"
proof -
  define ok where "ok s \<longleftrightarrow> (\<exists>q. s = Inr q \<and> routed (se_servers e) fd q)" for s :: "build_pair outcome"
  let ?b = "b\<lparr>rb_parser := AddNewData (rb_parser b) data\<rparr>"
  have "routed (se_servers e) fd (?b, d)"
    using assms(2) by (rule routed_same) (simp_all add: same_head_def)
  then have start: "ok (Inr (?b, d))" by (simp add: ok_def)
  have cond: "session_cond s = loop_cond (map_outcome fst s)" if "ok s" for s
    using that by (auto simp: ok_def session_cond_def loop_cond_def)
  have body: "ok (session_body e fd s)" "map_outcome fst (session_body e fd s) = loop_body (plain_env e fd d) (map_outcome fst s)"
    if s: "ok s" for s
  proof -
    from s obtain q where q: "s = Inr q" "routed (se_servers e) fd q" by (auto simp: ok_def)
    from session_body_runs [OF assms(1) q(2)] obtain r where
      r: "session_body e fd (Inr q) = Inr r" "routed (se_servers e) fd r" by blast
    with q(1) show "ok (session_body e fd s)" by (simp add: ok_def)
    obtain c dest where "q = (c, dest)" by (cases q)
    with r(1) session_step_refines have "BuildStep (plain_env e fd d) (snd (CanBuild (fst q))) = Inr (fst r)"
      by (auto simp: session_body_def)
    with q(1) r(1) show "map_outcome fst (session_body e fd s) = loop_body (plain_env e fd d) (map_outcome fst s)"
      by (simp add: loop_body_def)
  qed
  have "map_option (map_outcome fst) (while_option session_cond (session_body e fd) (Inr (?b, d)))
      = while_option loop_cond (loop_body (plain_env e fd d)) (Inr ?b)"
    using while_option_commute_invariant [where P = ok and f = "map_outcome fst" and b = session_cond
        and b' = loop_cond and c = "session_body e fd" and c' = "loop_body (plain_env e fd d)", OF body(1) cond body(2) start]
    by simp
  moreover have "map_option (map_outcome fst) (map_option (map_outcome (\<lambda>(c, d). (after_loop c, d))) x)
      = map_option (map_outcome after_loop) (map_option (map_outcome fst) x)" for x :: "build_pair outcome option"
    by (cases x; cases "the x") (auto simp: map_outcome_def)
  ultimately show ?thesis by (simp add: session_Build_def Build_def feed_def)
qed

theorem session_Build_refines_witness:
  "map_option (map_outcome fst) (session_Build example_session_env 3
       (builder_init, RequestDestination_new example_server) example_bytes)
     = Build (plain_env example_session_env 3 (RequestDestination_new example_server)) builder_init example_bytes"
proof (rule session_Build_refines)
  show "env_ready example_session_env 3"
    using example_ready by (simp add: env_ready_def system_ok_def example_session_env_def)
  show "routed (se_servers example_session_env) 3 (builder_init, RequestDestination_new example_server)"
    using session_new_inv [of "se_servers example_session_env" 3 0 True example_server]
    by (simp add: session_inv_def ClientSession_new_def)
qed

end
