(* ===== verification/ParsedConfig.thy ===== *)
theory ParsedConfig
  imports StrUtils
begin

text \<open>
  \<open>src/config/ParsedConfig.cpp\<close>: the configuration file as a tree of blocks.  Every block keeps its
  settings in a \<open>std::multimap\<close>, in the order of the keys and of their insertion, and its nested
  blocks in the order of the file.  The constructor reads from a stream that the nested blocks share.
\<close>

section \<open>The multimap\<close>

type_synonym multimap = "(string \<times> string) list"

fun multimap_insert :: "string \<Rightarrow> string \<Rightarrow> multimap \<Rightarrow> multimap" where
  "multimap_insert k v [] = [(k, v)]"
| "multimap_insert k v ((j, w) # m) =
     (if k < j then (k, v) # (j, w) # m else (j, w) # multimap_insert k v m)"

text \<open>From the lower to the upper bound of the key.\<close>

definition equal_range :: "string \<Rightarrow> multimap \<Rightarrow> multimap" where
  [eval_simps]: "equal_range k m = takeWhile (\<lambda>(j, _). j \<le> k) (dropWhile (\<lambda>(j, _). j < k) m)"

lemma set_multimap_insert [simp]: "set (multimap_insert k v m) = insert (k, v) (set m)"
  by (induction k v m rule: multimap_insert.induct) auto

lemma sorted_multimap_insert:
  "sorted (map fst m) \<Longrightarrow> sorted (map fst (multimap_insert k v m))"
  by (induction k v m rule: multimap_insert.induct) auto

lemma multimap_insert_last:
  "\<forall>j\<in>fst ` set m. j \<le> k \<Longrightarrow> multimap_insert k v m = m @ [(k, v)]"
  by (induction k v m rule: multimap_insert.induct) auto

lemma equal_range_sorted:
  "sorted (map fst m) \<Longrightarrow> equal_range k m = filter (\<lambda>(j, _). j = k) m"
proof (induction m)
  case (Cons p m)
  obtain j w where p: "p = (j, w)" by (cases p)
  consider "j < k" | "j = k" | "k < j" by (rule linorder_cases)
  then show ?case
  proof cases
    case 1
    with Cons show ?thesis by (simp add: p equal_range_def)
  next
    case 2
    have "takeWhile (\<lambda>(j, _). j \<le> k) m = filter (\<lambda>(j, _). j = k) m"
      using Cons.prems 2 unfolding p
    proof (induction m)
      case (Cons q m)
      then show ?case by (cases q) (auto intro!: filter_False [symmetric])
    qed simp
    with 2 show ?thesis by (simp add: p equal_range_def)
  next
    case 3
    with Cons.prems have "filter (\<lambda>(j, _). j = k) m = []" by (auto simp: p filter_empty_conv)
    with 3 show ?thesis by (simp add: p equal_range_def)
  qed
qed (simp add: equal_range_def)

section \<open>The tree\<close>

datatype parsed_config = Parsed_config
  (nesting_lvl: string) (nesting_lvl_descr: string) (settings: multimap)
  (nested_configs: "parsed_config list")

definition FindSetting :: "parsed_config \<Rightarrow> string \<Rightarrow> string list" where
  [eval_simps]: "FindSetting f key = map snd (equal_range key (settings f))"

definition MakePair :: "string \<Rightarrow> string \<times> string" where
  [eval_simps]: "MakePair line =
     (case str_find_first_of line [SP, HT] 0 of
        None \<Rightarrow> (line, [])
      | Some pos \<Rightarrow>
          (case find_idx (\<lambda>c. c \<notin> set [SP, HT]) (drop pos line) of
             None \<Rightarrow> (cut 0 pos line, [])
           | Some i \<Rightarrow> (cut 0 pos line, cut (pos + i) (length line - (pos + i)) line)))"

section \<open>The parser\<close>

text \<open>
  \<open>std::getline(ifs >> std::ws, content)\<close>: the blanks are skipped first, which sets eofbit at the end
  of the file, and the test of the loop is that failbit is not set.
\<close>

definition skip_ws :: "sstream \<Rightarrow> sstream" where
  [eval_simps]: "skip_ws ss =
     (if \<not> ss_good ss then ss\<lparr>ss_fail := True\<rparr>
      else let rest = dropWhile isspace (ss_rest ss)
        in ss\<lparr>ss_rest := rest, ss_eof := (rest = [])\<rparr>)"

definition next_line :: "sstream \<Rightarrow> sstream \<times> string" where
  [eval_simps]: "next_line ss = getline (skip_ws ss) LF []"

lemma next_line_end:
  "\<not> ss_good ss \<or> dropWhile isspace (ss_rest ss) = [] \<Longrightarrow> ss_fail (fst (next_line ss))"
  by (auto simp: next_line_def skip_ws_def getline_def ss_good_def Let_def)

lemma next_line_more:
  assumes "ss_good ss" "dropWhile isspace (ss_rest ss) \<noteq> []"
  shows "next_line ss =
    (ss\<lparr>ss_rest := tl (dropWhile (\<lambda>c. c \<noteq> LF) (dropWhile isspace (ss_rest ss))),
       ss_eof := (LF \<notin> set (dropWhile isspace (ss_rest ss)))\<rparr>,
     takeWhile (\<lambda>c. c \<noteq> LF) (dropWhile isspace (ss_rest ss)))"
proof -
  let ?s = "dropWhile isspace (ss_rest ss)"
  have skip: "skip_ws ss = ss\<lparr>ss_rest := ?s\<rparr>"
    using assms by (simp add: skip_ws_def ss_good_def)
  show ?thesis
  proof (cases "find_idx (\<lambda>c. c = LF) ?s")
    case None
    then have out: "LF \<notin> set ?s" by (auto simp: find_idx_None_iff)
    then have tw: "takeWhile (\<lambda>c. c \<noteq> LF) ?s = ?s" "dropWhile (\<lambda>c. c \<noteq> LF) ?s = []"
      by (auto simp: takeWhile_eq_all_conv dropWhile_eq_Nil_conv)
    have "getline (ss\<lparr>ss_rest := ?s\<rparr>) LF []
        = (ss\<lparr>ss_rest := [], ss_eof := True, ss_fail := False\<rparr>, ?s)"
      using assms None by (simp add: getline_def ss_good_def)
    then show ?thesis using assms out unfolding next_line_def skip tw
      by (simp add: ss_good_def)
  next
    case (Some n)
    note js = find_idx_Some [OF Some]
    then have mem: "LF \<in> set ?s" by (metis nth_mem)
    have "getline (ss\<lparr>ss_rest := ?s\<rparr>) LF [] = (ss\<lparr>ss_rest := drop (Suc n) ?s\<rparr>, take n ?s)"
      using assms Some by (simp add: getline_def ss_good_def)
    moreover have "take n ?s = takeWhile (\<lambda>c. c \<noteq> LF) ?s" using find_idx_Some_take [OF Some] by simp
    moreover have "drop (Suc n) ?s = tl (dropWhile (\<lambda>c. c \<noteq> LF) ?s)"
      using find_idx_Some_drop [OF Some] by (metis drop_Suc tl_drop)
    ultimately show ?thesis using assms mem unfolding next_line_def skip
      by (simp add: ss_good_def)
  qed
qed

lemma length_next_line:
  assumes "\<not> ss_fail (fst (next_line ss))"
  shows "length (ss_rest (fst (next_line ss))) < length (ss_rest ss)"
proof -
  let ?s = "dropWhile isspace (ss_rest ss)"
  have *: "ss_good ss" "?s \<noteq> []" using assms next_line_end by blast+
  have "length (tl (dropWhile P s)) < length s" if "s \<noteq> []" for P and s :: string
  proof -
    have "length (tl (dropWhile P s)) = length (dropWhile P s) - 1" by (rule length_tl)
    moreover have "length (dropWhile P s) \<le> length s" by (rule length_dropWhile_le)
    moreover have "0 < length s" using that by simp
    ultimately show ?thesis by linarith
  qed
  from this [OF *(2)] have "length (tl (dropWhile (\<lambda>c. c \<noteq> LF) ?s)) < length ?s" .
  also have "\<dots> \<le> length (ss_rest ss)" by (rule length_dropWhile_le)
  finally show ?thesis unfolding next_line_more [OF *] by simp
qed

text \<open>What a line says: nothing, a setting, the start or the end of a block, or it is refused.\<close>

datatype config_line = Comment | Setting "string \<times> string" | Block_start "string \<times> string" | Block_end

definition classify_line :: "string \<Rightarrow> string \<Rightarrow> config_line outcome" where
  [eval_simps]: "classify_line lvl line =
     (if line = [] \<or> c_at line 0 = CHR ''#'' then Inr Comment
      else
        let trimmed = Trim line [SP, HT] in
        if trimmed = [] then Inl Undefined_behaviour
        else
          let last_char = last trimmed; content = Trim trimmed [SP, HT, last_char] in
          if last_char = CHR '';'' then
            (if content = [] then Inl Invalid_argument else Inr (Setting (MakePair content)))
          else if last_char = CHR 0x7B then
            (if content = [] then Inl Invalid_argument else Inr (Block_start (MakePair content)))
          else if last_char = CHR 0x7D \<and> lvl \<noteq> [] then
            (if content \<noteq> [] then Inl Invalid_argument else Inr Block_end)
          else Inl Invalid_argument)"

text \<open>The loop of the constructor: a block that starts is read by a constructor of its own.\<close>

function parse_block ::
  "sstream \<Rightarrow> string \<Rightarrow> string \<Rightarrow> multimap \<Rightarrow> parsed_config list \<Rightarrow> (parsed_config \<times> sstream) outcome"
  where
  "parse_block ss lvl descr sets blocks =
     (if ss_fail (fst (next_line ss)) then
        (if lvl \<noteq> [] then Inl Invalid_argument
         else Inr (Parsed_config lvl descr sets blocks, fst (next_line ss)))
      else
        bind_outcome (classify_line lvl (snd (next_line ss))) (\<lambda>line.
          case line of
            Comment \<Rightarrow> parse_block (fst (next_line ss)) lvl descr sets blocks
          | Setting s \<Rightarrow>
              parse_block (fst (next_line ss)) lvl descr (multimap_insert (fst s) (snd s) sets) blocks
          | Block_start s \<Rightarrow>
              bind_outcome (parse_block (fst (next_line ss)) (fst s) (snd s) [] []) (\<lambda>r.
                parse_block (snd r) lvl descr sets (blocks @ [fst r]))
          | Block_end \<Rightarrow> Inr (Parsed_config lvl descr sets blocks, fst (next_line ss))))"
  by pat_completeness auto

lemma parse_block_shrinks:
  assumes "parse_block_dom (ss, lvl, descr, sets, blocks)"
  shows "parse_block ss lvl descr sets blocks = Inr r \<Longrightarrow>
    length (ss_rest (snd r)) \<le> length (ss_rest ss)"
  using assms
proof (induction arbitrary: r rule: parse_block.pinduct)
  case (1 ss lvl descr sets blocks)
  show ?case
  proof (cases "ss_fail (fst (next_line ss))")
    case True
    have "length (ss_rest (fst (next_line ss))) \<le> length (ss_rest ss)"
      using length_dropWhile_le [of isspace "ss_rest ss"]
      by (auto simp: next_line_def skip_ws_def getline_def Let_def split: option.split)
    with 1(1) 1(6) True show ?thesis by (auto simp: parse_block.psimps split: if_splits)
  next
    case False
    note shrink = length_next_line [OF False]
    from 1(1) 1(6) False obtain line where line: "classify_line lvl (snd (next_line ss)) = Inr line"
      by (auto simp: parse_block.psimps bind_outcome_Inr_iff)
    let ?ss = "fst (next_line ss)"
    note run = 1(6) [unfolded parse_block.psimps [OF 1(1)]]
    show ?thesis
    proof (cases line)
      case Comment
      with run False line have "parse_block ?ss lvl descr sets blocks = Inr r" by simp
      with 1(2) [OF False line Comment] shrink show ?thesis by simp
    next
      case (Setting x)
      with run False line
      have "parse_block ?ss lvl descr (multimap_insert (fst x) (snd x) sets) blocks = Inr r" by simp
      with 1(3) [OF False line Setting] shrink show ?thesis by simp
    next
      case (Block_start x)
      with run False line obtain q where q: "parse_block ?ss (fst x) (snd x) [] [] = Inr q"
        "parse_block (snd q) lvl descr sets (blocks @ [fst q]) = Inr r"
        by (auto simp: bind_outcome_Inr_iff)
      have "length (ss_rest (snd q)) \<le> length (ss_rest ?ss)"
        by (rule 1(4) [OF False line Block_start q(1)])
      moreover have "length (ss_rest (snd r)) \<le> length (ss_rest (snd q))"
        by (rule 1(5) [OF False line Block_start q(1) q(2)])
      ultimately show ?thesis using shrink by simp
    next
      case Block_end
      with run False line shrink show ?thesis by auto
    qed
  qed
qed

termination parse_block
proof (relation "measure (\<lambda>(ss, _). length (ss_rest ss))", goal_cases)
  case (5 ss lvl descr sets blocks line x r)
  then have "length (ss_rest (snd r)) \<le> length (ss_rest (fst (next_line ss)))"
    by (intro parse_block_shrinks)
  with length_next_line [OF 5(1)] show ?case by simp
qed (simp_all add: length_next_line)

declare parse_block.simps [simp del]

definition ParsedConfig :: "string \<Rightarrow> parsed_config outcome" where
  "ParsedConfig file = bind_outcome (parse_block (ss_of file) [] [] [] []) (\<lambda>r. Inr (fst r))"

section \<open>What the parser accepts\<close>

text \<open>The constructor ends, and throws nothing but \<open>std::invalid_argument\<close>.\<close>

lemma Trim_Nil_iff: "Trim s cs = [] \<longleftrightarrow> set s \<subseteq> set cs"
proof (cases "find_idx (\<lambda>c. c \<notin> set cs) s")
  case None
  then have "set s \<subseteq> set cs" by (auto simp: find_idx_None_iff)
  with None show ?thesis by (simp add: Trim_def)
next
  case (Some f)
  note fs = find_idx_Some [OF this]
  then have "\<not> set s \<subseteq> set cs" by (metis nth_mem subsetD)
  then obtain l where l: "find_last_idx (\<lambda>c. c \<notin> set cs) s = Some l"
    using find_last_idx_None_iff [of "\<lambda>c. c \<notin> set cs" s] by (cases "find_last_idx (\<lambda>c. c \<notin> set cs) s") auto
  have "cut f (l - f + 1) s \<noteq> []" using fs by (simp add: cut_def)
  with Some l \<open>\<not> set s \<subseteq> set cs\<close> show ?thesis by (simp add: Trim_def)
qed

lemma next_line_start:
  assumes "\<not> ss_fail (fst (next_line ss))"
  shows "snd (next_line ss) = [] \<or> \<not> isspace (hd (snd (next_line ss)))"
proof -
  let ?s = "dropWhile isspace (ss_rest ss)"
  have *: "ss_good ss" "?s \<noteq> []" using assms next_line_end by blast+
  then have "\<not> isspace (hd ?s)" by (metis hd_dropWhile)
  moreover have "takeWhile P s = [] \<or> hd (takeWhile P s) = hd s" for P and s :: string
    by (cases s) auto
  ultimately show ?thesis unfolding next_line_more [OF *] by (metis snd_conv)
qed

lemma classify_line_error:
  assumes "\<not> isspace (hd line)"
  shows "classify_line lvl line \<noteq> Inl e \<or> e = Invalid_argument"
proof -
  have "Trim line [SP, HT] \<noteq> []" if "line \<noteq> []"
  proof -
    have "hd line \<in> set line" "hd line \<notin> set [SP, HT]"
      using that assms by (auto simp: isspace_def code_def)
    then show ?thesis unfolding Trim_Nil_iff by blast
  qed
  then show ?thesis by (auto simp: classify_line_def Let_def)
qed

lemma parse_block_error: "parse_block ss lvl descr sets blocks = Inl e \<Longrightarrow> e = Invalid_argument"
proof (induction ss lvl descr sets blocks arbitrary: e rule: parse_block.induct)
  case (1 ss lvl descr sets blocks)
  note run = 1(5) [unfolded parse_block.simps [of ss]]
  show ?case
  proof (cases "ss_fail (fst (next_line ss))")
    case True
    with run show ?thesis by (simp split: if_splits)
  next
    case False
    note start = next_line_start [OF False]
    show ?thesis
    proof (cases "classify_line lvl (snd (next_line ss))")
      case (Inl x)
      have "x = Invalid_argument"
      proof (cases "snd (next_line ss) = []")
        case True
        with Inl show ?thesis by (simp add: classify_line_def)
      next
        case False
        with start classify_line_error [of "snd (next_line ss)" lvl x] Inl show ?thesis by auto
      qed
      with Inl False run show ?thesis by simp
    next
      case (Inr line)
      show ?thesis
      proof (cases line)
        case Comment
        with run False Inr 1(1) [OF False Inr Comment] show ?thesis by simp
      next
        case (Setting x)
        with run False Inr 1(2) [OF False Inr Setting] show ?thesis by simp
      next
        case (Block_start x)
        show ?thesis
        proof (cases "parse_block (fst (next_line ss)) (fst x) (snd x) [] []")
          case (Inl e1)
          with 1(3) [OF False Inr Block_start Inl] run False Inr Block_start show ?thesis by simp
        next
          case i: (Inr r)
          with 1(4) [OF False Inr Block_start i] run False Inr Block_start show ?thesis by simp
        qed
      next
        case Block_end
        with run False Inr show ?thesis by simp
      qed
    qed
  qed
qed

section \<open>Reading back a written configuration\<close>

definition pair_text :: "string \<Rightarrow> string \<Rightarrow> string" where
  [eval_simps]: "pair_text k v = k @ (if v = [] then [] else SP # v)"

text \<open>A word and its value that can be written on a line that ends with \<open>d\<close>.\<close>

definition writable :: "char \<Rightarrow> string \<times> string \<Rightarrow> bool" where
  [eval_simps]: "writable d = (\<lambda>(k, v).
     k \<noteq> [] \<and> SP \<notin> set k \<and> HT \<notin> set k \<and> LF \<notin> set k \<and> \<not> isspace (hd k) \<and> hd k \<noteq> CHR ''#'' \<and>
     hd k \<noteq> d \<and> LF \<notin> set v \<and>
     (if v = [] then last k \<noteq> d
      else hd v \<noteq> SP \<and> hd v \<noteq> HT \<and> last v \<noteq> SP \<and> last v \<noteq> HT \<and> last v \<noteq> d))"

fun written :: "parsed_config \<Rightarrow> bool" where
  "written (Parsed_config lvl descr sets blocks) \<longleftrightarrow>
     sorted (map fst sets) \<and> list_all (writable (CHR '';'')) sets \<and>
     (\<forall>b\<in>set blocks. writable (CHR 0x7B) (nesting_lvl b, nesting_lvl_descr b) \<and> written b)"

definition setting_text :: "string \<times> string \<Rightarrow> string" where
  [eval_simps]: "setting_text s = pair_text (fst s) (snd s) @ [CHR '';'', LF]"

fun render_config :: "parsed_config \<Rightarrow> string" where
  "render_config (Parsed_config lvl descr sets blocks) =
     concat (map setting_text sets) @
     concat (map (\<lambda>b. pair_text (nesting_lvl b) (nesting_lvl_descr b) @ [CHR 0x7B, LF] @
       render_config b @ [CHR 0x7D, LF]) blocks)"

lemma MakePair_text:
  assumes "writable d (k, v)"
  shows "MakePair (pair_text k v) = (k, v)"
proof (cases "v = []")
  case True
  have "find_idx (\<lambda>c. c \<in> set [SP, HT]) k = None"
    using assms by (auto simp: writable_def find_idx_None_iff)
  with True show ?thesis by (simp add: MakePair_def pair_text_def str_find_first_of_def)
next
  case False
  then obtain h t where v: "v = h # t" by (cases v) auto
  have 1: "find_idx (\<lambda>c. c \<in> set [SP, HT]) (k @ SP # v) = Some (length k)"
    using assms by (intro find_idx_append_hit) (auto simp: writable_def)
  have 2: "find_idx (\<lambda>c. c \<notin> set [SP, HT]) (SP # v) = Some 1"
    using assms False by (simp add: writable_def v)
  show ?thesis
    using False 1 2 unfolding MakePair_def pair_text_def str_find_first_of_def by (simp add: cut_def)
qed

lemma classify_text:
  assumes "writable d (k, v)" "d \<noteq> SP" "d \<noteq> HT"
  shows "Trim (pair_text k v @ [d]) [SP, HT] = pair_text k v @ [d] \<and>
    Trim (pair_text k v @ [d]) [SP, HT, d] = pair_text k v \<and>
    pair_text k v \<noteq> [] \<and> \<not> isspace (hd (pair_text k v)) \<and> hd (pair_text k v) \<noteq> CHR ''#'' \<and>
    LF \<notin> set (pair_text k v)"
proof -
  have k: "k \<noteq> []" "\<not> isspace (hd k)" "hd k \<noteq> CHR ''#''" "hd k \<noteq> d" using assms(1)
    by (auto simp: writable_def)
  then have "hd k \<noteq> SP" "hd k \<noteq> HT" by (auto simp: isspace_def code_def)
  moreover have hd: "hd (pair_text k v) = hd k" "pair_text k v \<noteq> []" using k by (auto simp: pair_text_def)
  moreover have "last (pair_text k v) \<notin> set [SP, HT, d]"
  proof (cases "v = []")
    case True
    moreover have "last k \<in> set k" using k by simp
    ultimately show ?thesis using assms(1) by (auto simp: writable_def pair_text_def simp del: last_in_set)
  next
    case False
    then show ?thesis using assms(1) by (auto simp: writable_def pair_text_def)
  qed
  moreover have "LF \<notin> set (pair_text k v)" using assms(1) by (auto simp: writable_def pair_text_def)
  moreover have "Trim (pair_text k v @ [d]) [SP, HT] = pair_text k v @ [d]"
    using calculation assms by (intro Trim_unique [where pre = "[]" and post = "[]"]) auto
  moreover have "Trim (pair_text k v @ [d]) [SP, HT, d] = pair_text k v"
    using calculation k by (intro Trim_unique [where pre = "[]" and post = "[d]"]) auto
  ultimately show ?thesis using k by simp
qed

lemma next_line_of:
  assumes "line \<noteq> []" "\<not> isspace (hd line)" "LF \<notin> set line"
  shows "next_line (ss_of (line @ LF # rest)) = (ss_of rest, line)"
proof -
  have dw: "dropWhile isspace (line @ LF # rest) = line @ LF # rest"
    using assms by (cases line) auto
  have tw: "takeWhile (\<lambda>c. c \<noteq> LF) (line @ LF # rest) = line"
    "dropWhile (\<lambda>c. c \<noteq> LF) (line @ LF # rest) = LF # rest"
    using assms(3) by (auto simp: takeWhile_append dropWhile_append)
  have "ss_good (ss_of (line @ LF # rest))" by (simp add: ss_good_def ss_of_def)
  then show ?thesis
    using next_line_more [of "ss_of (line @ LF # rest)"] assms(1)
    by (simp add: ss_of_def dw tw)
qed

text \<open>The constructor on a line that holds a setting, the start, or the end of a block.\<close>

lemma parse_text:
  assumes "writable d (k, v)"
  shows "d = CHR '';'' \<Longrightarrow> parse_block (ss_of (pair_text k v @ [d, LF] @ rest)) lvl descr sets blocks
      = parse_block (ss_of rest) lvl descr (multimap_insert k v sets) blocks"
    and "d = CHR 0x7B \<Longrightarrow> parse_block (ss_of (pair_text k v @ [d, LF] @ rest)) lvl descr sets blocks
      = bind_outcome (parse_block (ss_of rest) k v [] []) (\<lambda>r. parse_block (snd r) lvl descr sets (blocks @ [fst r]))"
proof -
  assume d: "d = CHR '';''"
  note tx = classify_text [OF assms, unfolded d, simplified]
  have first: "c_at (pair_text k v @ [d]) 0 \<noteq> CHR ''#''"
    using tx by (cases "pair_text k v") (auto simp: c_at_def)
  have nl: "next_line (ss_of (pair_text k v @ [d, LF] @ rest)) = (ss_of rest, pair_text k v @ [d])"
    using next_line_of [of "pair_text k v @ [d]" rest] tx d by (simp add: hd_append)
  have "classify_line lvl (pair_text k v @ [d]) = Inr (Setting (k, v))"
    using tx d MakePair_text [OF assms] first by (simp add: classify_line_def Let_def)
  then show "parse_block (ss_of (pair_text k v @ [d, LF] @ rest)) lvl descr sets blocks
      = parse_block (ss_of rest) lvl descr (multimap_insert k v sets) blocks"
    using nl by (subst parse_block.simps) (simp add: ss_of_def)
next
  assume d: "d = CHR 0x7B"
  note tx = classify_text [OF assms, unfolded d, simplified]
  have first: "c_at (pair_text k v @ [d]) 0 \<noteq> CHR ''#''"
    using tx by (cases "pair_text k v") (auto simp: c_at_def)
  have nl: "next_line (ss_of (pair_text k v @ [d, LF] @ rest)) = (ss_of rest, pair_text k v @ [d])"
    using next_line_of [of "pair_text k v @ [d]" rest] tx d by (simp add: hd_append)
  have "classify_line lvl (pair_text k v @ [d]) = Inr (Block_start (k, v))"
    using tx d MakePair_text [OF assms] first by (simp add: classify_line_def Let_def)
  then show "parse_block (ss_of (pair_text k v @ [d, LF] @ rest)) lvl descr sets blocks
      = bind_outcome (parse_block (ss_of rest) k v [] []) (\<lambda>r. parse_block (snd r) lvl descr sets (blocks @ [fst r]))"
    using nl by (subst parse_block.simps) (simp add: ss_of_def)
qed

lemma parse_end:
  assumes "lvl \<noteq> []"
  shows "parse_block (ss_of ([CHR 0x7D, LF] @ rest)) lvl descr sets blocks
    = Inr (Parsed_config lvl descr sets blocks, ss_of rest)"
proof -
  have "next_line (ss_of ([CHR 0x7D] @ LF # rest)) = (ss_of rest, [CHR 0x7D])"
    by (rule next_line_of) (simp_all add: isspace_def code_def)
  moreover have "classify_line lvl [CHR 0x7D] = Inr Block_end"
    using assms by (simp add: classify_line_def Trim_def find_last_idx_def c_at_def cut_def)
  ultimately show ?thesis by (subst parse_block.simps) (simp add: ss_of_def)
qed

lemma parse_settings:
  assumes "list_all (writable (CHR '';'')) ss" "sorted (map fst (sets @ ss))"
  shows "parse_block (ss_of (concat (map setting_text ss) @ rest)) lvl descr sets blocks
    = parse_block (ss_of rest) lvl descr (sets @ ss) blocks"
  using assms
proof (induction ss arbitrary: sets)
  case (Cons s ss)
  obtain k v where s: "s = (k, v)" by (cases s)
  from Cons.prems have w: "writable (CHR '';'') (k, v)" and "\<forall>j\<in>fst ` set sets. j \<le> k"
    by (auto simp: s sorted_append)
  then have ins: "multimap_insert k v sets = sets @ [(k, v)]" by (intro multimap_insert_last)
  have "parse_block (ss_of (concat (map setting_text (s # ss)) @ rest)) lvl descr sets blocks
      = parse_block (ss_of (concat (map setting_text ss) @ rest)) lvl descr (sets @ [s]) blocks"
    using parse_text(1) [OF w refl, of "concat (map setting_text ss) @ rest" lvl descr sets blocks]
    by (simp add: setting_text_def s ins)
  also have "\<dots> = parse_block (ss_of rest) lvl descr ((sets @ [s]) @ ss) blocks"
    using Cons.prems by (intro Cons.IH) simp_all
  finally show ?case by simp
qed simp

lemma parse_rendered:
  "written t \<Longrightarrow> parse_block (ss_of (render_config t @ rest)) lvl descr [] []
     = parse_block (ss_of rest) lvl descr (settings t) (nested_configs t)"
proof (induction t arbitrary: rest lvl descr)
  case (Parsed_config lvl1 descr1 sets bs)
  let ?text = "\<lambda>b. pair_text (nesting_lvl b) (nesting_lvl_descr b) @ [CHR 0x7B, LF] @
    render_config b @ [CHR 0x7D, LF]"
  have blocks: "parse_block (ss_of (concat (map ?text cs) @ rest)) lvl descr sets ds
      = parse_block (ss_of rest) lvl descr sets (ds @ cs)" if "set cs \<subseteq> set bs" for cs ds
    using that
  proof (induction cs arbitrary: ds)
    case (Cons b cs)
    let ?more = "concat (map ?text cs) @ rest"
    from Cons.prems Parsed_config.prems
    have b: "b \<in> set bs" "written b" "writable (CHR 0x7B) (nesting_lvl b, nesting_lvl_descr b)" by auto
    then have lvl: "nesting_lvl b \<noteq> []" by (simp add: writable_def)
    have "parse_block (ss_of (render_config b @ [CHR 0x7D, LF] @ ?more)) (nesting_lvl b) (nesting_lvl_descr b) [] []
        = parse_block (ss_of ([CHR 0x7D, LF] @ ?more)) (nesting_lvl b) (nesting_lvl_descr b) (settings b) (nested_configs b)"
      using Parsed_config.IH [OF b(1,2)] by blast
    also have "\<dots> = Inr (b, ss_of ?more)" using parse_end [OF lvl] by (cases b) simp
    finally have "parse_block (ss_of (concat (map ?text (b # cs)) @ rest)) lvl descr sets ds
        = parse_block (ss_of ?more) lvl descr sets (ds @ [b])"
      using parse_text(2) [OF b(3) refl, of "render_config b @ [CHR 0x7D, LF] @ ?more" lvl descr sets ds]
      by simp
    also have "\<dots> = parse_block (ss_of rest) lvl descr sets ((ds @ [b]) @ cs)"
      using Cons.prems by (intro Cons.IH) simp
    finally show ?case by simp
  qed simp
  have "parse_block (ss_of (render_config (Parsed_config lvl1 descr1 sets bs) @ rest)) lvl descr [] []
      = parse_block (ss_of (concat (map ?text bs) @ rest)) lvl descr sets []"
    using parse_settings [of sets "[]" "concat (map ?text bs) @ rest" lvl descr "[]"] Parsed_config.prems
    by simp
  also have "\<dots> = parse_block (ss_of rest) lvl descr sets bs" using blocks [of bs "[]"] by simp
  finally show ?case by simp
qed

lemma parse_nothing: "parse_block (ss_of []) [] descr sets blocks
    = Inr (Parsed_config [] descr sets blocks, fst (next_line (ss_of [])))"
  using next_line_end [of "ss_of []"] by (subst parse_block.simps) (simp add: ss_of_def)

text \<open>C33: reading a configuration that was written out, block by block and setting by setting, gives
  the same tree; and whatever the file holds, reading it ends with a tree or with
  \<open>std::invalid_argument\<close>.\<close>

theorem ParsedConfig_roundtrip:
  assumes "written (Parsed_config [] [] sets blocks)"
  shows "ParsedConfig (render_config (Parsed_config [] [] sets blocks)) = Inr (Parsed_config [] [] sets blocks) \<and>
    (\<forall>file e. ParsedConfig file = Inl e \<longrightarrow> e = Invalid_argument)"
proof -
  have "e = Invalid_argument" if "ParsedConfig str = Inl e" for str e
  proof (cases "parse_block (ss_of str) [] [] [] []")
    case (Inl x)
    with parse_block_error [OF this] that show ?thesis by (simp add: ParsedConfig_def)
  next
    case (Inr r)
    with that show ?thesis by (simp add: ParsedConfig_def)
  qed
  moreover have "ParsedConfig (render_config (Parsed_config [] [] sets blocks)) = Inr (Parsed_config [] [] sets blocks)"
    using parse_rendered [OF assms, of "[]" "[]" "[]"] by (simp add: ParsedConfig_def parse_nothing)
  ultimately show ?thesis by blast
qed

definition example_config :: parsed_config where
  "example_config = Parsed_config [] [] [(''use'', ''poll'')]
     [Parsed_config ''http'' [] []
       [Parsed_config ''server'' [] [(''listen'', ''8080''), (''listen'', ''127.0.0.1:81'')]
         [Parsed_config ''location'' ''= /a'' [(''alias'', ''/www'')] []]]]"

theorem ParsedConfig_roundtrip_witness:
  "ParsedConfig (render_config example_config) = Inr example_config"
proof -
  have "written example_config"
    by (simp add: example_config_def writable_def isspace_def code_def less_list_code)
  then show ?thesis unfolding example_config_def
    using ParsedConfig_roundtrip by blast
qed

end
