(* ===== verification/LocationConfigBuilder.thy ===== *)
theory LocationConfigBuilder
  imports ParsedConfig LocationConfig NumericUtils
begin

text \<open>
  \<open>src/config/InheritedSettings.cpp\<close> and \<open>LocationConfigBuilder.cpp\<close>: the settings a block hands down
  to the blocks in it, and the settings of a location made from its block.
\<close>

section \<open>Settings handed down\<close>

record inherited_settings =
  is_alias :: string
  is_def_files :: "string list"
  is_dir_listing :: string
  is_client_max_body_size :: string

definition InheritedSettings_new :: inherited_settings where
  [eval_simps]: "InheritedSettings_new =
     \<lparr>is_alias = [], is_def_files = [], is_dir_listing = [], is_client_max_body_size = []\<rparr>"

definition Inherited_BuildAliasDir :: "string list \<Rightarrow> string \<Rightarrow> string outcome" where
  [eval_simps]: "Inherited_BuildAliasDir vals inherited_alias =
     (if vals = [] then Inr inherited_alias
      else if 1 < length vals then Inl Runtime_error
      else if c_at (hd vals) 0 \<noteq> CHR ''/'' then Inl Runtime_error
      else Inr (hd vals))"

text \<open>The loop that three settings share: every turn splits the first value again.\<close>

definition split_first_value :: "string list \<Rightarrow> string list outcome" where
  [eval_simps]: "split_first_value vals =
     (if \<exists>v\<in>set vals. v = [] then Inl Runtime_error
      else Inr (concat (map (\<lambda>_. SplitLine (hd vals)) vals)))"

definition Inherited_BuildDefaultFile :: "string list \<Rightarrow> string list \<Rightarrow> string list outcome" where
  [eval_simps]: "Inherited_BuildDefaultFile vals inherited_def_files =
     (if vals = [] then Inr inherited_def_files else split_first_value vals)"

definition Inherited_ParseDirListing :: "string \<Rightarrow> string outcome" where
  [eval_simps]: "Inherited_ParseDirListing vals =
     (if vals = ''on'' \<or> vals = ''off'' then Inr vals else Inl Runtime_error)"

definition Inherited_BuildDirListing :: "string list \<Rightarrow> string \<Rightarrow> string outcome" where
  [eval_simps]: "Inherited_BuildDirListing vals inherited_dir_listing =
     (if vals = [] then Inr inherited_dir_listing
      else if 1 < length vals then Inl Runtime_error
      else Inherited_ParseDirListing (hd vals))"

text \<open>The exception of \<open>StrToNumeric\<close> is caught and replaced.\<close>

definition Inherited_ParseClientMaxBodySize :: "string \<Rightarrow> string \<Rightarrow> string outcome" where
  [eval_simps]: "Inherited_ParseClientMaxBodySize val unit =
     (case StrToNumeric True 32 val of
        Inl _ \<Rightarrow> Inl Runtime_error
      | Inr _ \<Rightarrow> if unit = ''KB'' \<or> unit = ''MB'' \<or> unit = ''GB'' \<or> unit = [] then Inr val
          else Inl Runtime_error)"

definition Inherited_BuildClientMaxBodySize :: "string list \<Rightarrow> string \<Rightarrow> string outcome" where
  [eval_simps]: "Inherited_BuildClientMaxBodySize vals inherited_client_max_body_size =
     (if vals = [] then Inr inherited_client_max_body_size
      else if 1 < length vals then Inl Runtime_error
      else case SplitLine (hd vals) of
        [val] \<Rightarrow> bind_outcome (Inherited_ParseClientMaxBodySize val []) (\<lambda>_. Inr (hd vals))
      | [val, unit] \<Rightarrow> bind_outcome (Inherited_ParseClientMaxBodySize val unit) (\<lambda>_. Inr (hd vals))
      | _ \<Rightarrow> Inl Runtime_error)"

section \<open>The settings of a location\<close>

text \<open>\<open>vals[0]\<close> and \<open>vals[1]\<close> are read without a test that they are there.\<close>

definition ParseRoute :: "string list \<Rightarrow> (string \<times> bool) outcome" where
  [eval_simps]: "ParseRoute vals =
     (if 2 < length vals then Inl Runtime_error
      else if length vals = 1 \<and> c_at (vals ! 0) 0 = CHR ''/'' then Inr (vals ! 0, False)
      else if vals = [] then Inl Undefined_behaviour
      else if vals ! 0 = ''='' then
        (if length vals < 2 then Inl Undefined_behaviour
         else if c_at (vals ! 1) 0 = CHR ''/'' then Inr (vals ! 1, True)
         else Inl Runtime_error)
      else Inl Runtime_error)"

definition BuildRoute :: "string \<Rightarrow> (string \<times> bool) outcome" where
  [eval_simps]: "BuildRoute vals = (if vals = [] then Inl Runtime_error else ParseRoute (SplitLine vals))"

definition parse_method :: "string \<Rightarrow> http_method outcome" where
  [eval_simps]: "parse_method val =
     (if val = ''GET'' then Inr HTTP_GET
      else if val = ''POST'' then Inr HTTP_POST
      else if val = ''DELETE'' then Inr HTTP_DELETE
      else Inl Runtime_error)"

definition ParseAllowedMethods :: "string list \<Rightarrow> http_method list outcome" where
  [eval_simps]: "ParseAllowedMethods vals = map_outcomes parse_method vals"

definition BuildAllowedMethods :: "string list \<Rightarrow> http_method list outcome" where
  [eval_simps]: "BuildAllowedMethods vals =
     (if vals = [] then Inr kDefaultAllowedMethods
      else bind_outcome (split_first_value vals) ParseAllowedMethods)"

definition ParseRedirect :: "string list \<Rightarrow> (int \<times> string) outcome" where
  [eval_simps]: "ParseRedirect vals =
     (if length vals \<noteq> 2 then Inl Runtime_error
      else bind_outcome (StrToNumeric True 32 (vals ! 0)) (\<lambda>code. Inr (code, vals ! 1)))"

definition BuildRedirect :: "string list \<Rightarrow> (int \<times> string) outcome" where
  [eval_simps]: "BuildRedirect vals =
     (if vals = [] then Inr (0, [])
      else if 1 < length vals then Inl Runtime_error
      else ParseRedirect (SplitLine (hd vals)))"

definition ParseCgiExtensions :: "string list \<Rightarrow> string list outcome" where
  [eval_simps]: "ParseCgiExtensions vals =
     (if \<exists>v\<in>set vals. c_at v 0 \<noteq> CHR ''.'' \<or> length v < 2 then Inl Runtime_error else Inr vals)"

definition BuildCgiExtensions :: "string list \<Rightarrow> string list outcome" where
  [eval_simps]: "BuildCgiExtensions vals =
     (if vals = [] then Inr kDefaultCgiExtensions
      else bind_outcome (split_first_value vals) ParseCgiExtensions)"

definition Location_BuildAliasDir :: "string list \<Rightarrow> string \<Rightarrow> string outcome" where
  [eval_simps]: "Location_BuildAliasDir vals inherited_alias =
     (if vals = [] \<and> inherited_alias = [] then Inr kDefaultAliasDir
      else Inherited_BuildAliasDir vals inherited_alias)"

definition BuildUploadDir :: "string list \<Rightarrow> string outcome" where
  [eval_simps]: "BuildUploadDir vals =
     (if vals = [] then Inr []
      else if 1 < length vals then Inl Runtime_error
      else if c_at (hd vals) 0 \<noteq> CHR ''/'' then Inl Runtime_error
      else Inr (hd vals))"

definition Location_BuildDefaultFile :: "string list \<Rightarrow> string list \<Rightarrow> string list outcome" where
  [eval_simps]: "Location_BuildDefaultFile vals inherited_def_files =
     (if vals = [] \<and> inherited_def_files = [] then Inr kDefaultIndexFile
      else Inherited_BuildDefaultFile vals inherited_def_files)"

definition Location_ParseDirListing :: "string \<Rightarrow> bool outcome" where
  [eval_simps]: "Location_ParseDirListing vals =
     (if vals = ''on'' then Inr True else if vals = ''off'' then Inr False else Inl Runtime_error)"

definition Location_BuildDirListing :: "string list \<Rightarrow> string \<Rightarrow> bool outcome" where
  [eval_simps]: "Location_BuildDirListing vals inherited_dir_listing =
     (if vals = [] \<and> inherited_dir_listing = [] then Inr kDefaultDirListing
      else bind_outcome (Inherited_BuildDirListing vals inherited_dir_listing) Location_ParseDirListing)"

text \<open>The number is an \<open>int\<close>, stored as an \<open>unsigned int\<close> and shifted in its 32 bits.\<close>

definition Location_ParseClientMaxBodySize :: "string \<Rightarrow> string \<Rightarrow> 32 word outcome" where
  [eval_simps]: "Location_ParseClientMaxBodySize val unit =
     bind_outcome (StrToNumeric True 32 val) (\<lambda>num.
       let nb = word_of_int num in
       if unit = ''KB'' then Inr (push_bit 10 nb)
       else if unit = ''MB'' then Inr (push_bit 20 nb)
       else if unit = ''GB'' then Inr (push_bit 30 nb)
       else if unit = [] then Inr nb
       else Inl Runtime_error)"

definition Location_BuildClientMaxBodySize :: "string list \<Rightarrow> string \<Rightarrow> 32 word outcome" where
  [eval_simps]: "Location_BuildClientMaxBodySize vals inherited_client_max_body_size =
     (if vals = [] \<and> inherited_client_max_body_size = [] then Inr kDefaultClientMaxBodySize
      else if 1 < length vals then Inl Runtime_error
      else bind_outcome (Inherited_BuildClientMaxBodySize vals inherited_client_max_body_size) (\<lambda>str.
        case SplitLine str of
          [val] \<Rightarrow> Location_ParseClientMaxBodySize val []
        | [val, unit] \<Rightarrow> Location_ParseClientMaxBodySize val unit
        | _ \<Rightarrow> if vals = [] then Inl Undefined_behaviour else Inl Runtime_error))"

definition Location_IsKeyAllowed :: "string \<Rightarrow> bool" where
  [eval_simps]: "Location_IsKeyAllowed key \<longleftrightarrow>
     key = ''limit_except'' \<or> key = ''return'' \<or> key = ''cgi_extension'' \<or> key = ''alias'' \<or>
     key = ''index'' \<or> key = ''autoindex'' \<or> key = ''client_max_body_size'' \<or> key = ''upload_store''"

definition Location_AreNestingsValid :: "parsed_config \<Rightarrow> bool" where
  [eval_simps]: "Location_AreNestingsValid f \<longleftrightarrow> nested_configs f = []"

text \<open>The loop over the settings, which every builder has.\<close>

definition check_keys :: "(string \<Rightarrow> bool) \<Rightarrow> parsed_config \<Rightarrow> unit outcome" where
  [eval_simps]: "check_keys allowed f =
     (if \<exists>s\<in>set (settings f). \<not> allowed (fst s) then Inl Runtime_error else Inr ())"

definition Location_Build :: "parsed_config \<Rightarrow> inherited_settings \<Rightarrow> location_config outcome" where
  [eval_simps]: "Location_Build f inh =
     bind_outcome (check_keys Location_IsKeyAllowed f) (\<lambda>_.
     bind_outcome (BuildRoute (nesting_lvl_descr f)) (\<lambda>route.
     bind_outcome (BuildAllowedMethods (FindSetting f ''limit_except'')) (\<lambda>allowed_methods.
     bind_outcome (BuildRedirect (FindSetting f ''return'')) (\<lambda>redirect.
     bind_outcome (BuildCgiExtensions (FindSetting f ''cgi_extension'')) (\<lambda>cgi_extensions.
     bind_outcome (Location_BuildAliasDir (FindSetting f ''alias'') (is_alias inh)) (\<lambda>alias_dir.
     bind_outcome (Location_BuildDefaultFile (FindSetting f ''index'') (is_def_files inh)) (\<lambda>default_file.
     bind_outcome (Location_BuildDirListing (FindSetting f ''autoindex'') (is_dir_listing inh)) (\<lambda>dir_listing.
     bind_outcome (Location_BuildClientMaxBodySize (FindSetting f ''client_max_body_size'')
       (is_client_max_body_size inh)) (\<lambda>client_max_body_size.
     bind_outcome (BuildUploadDir (FindSetting f ''upload_store'')) (\<lambda>upload_dir.
     if \<not> Location_AreNestingsValid f then Inl Runtime_error
     else LocationConfig_new route allowed_methods redirect cgi_extensions alias_dir default_file
       dir_listing client_max_body_size upload_dir))))))))))"

section \<open>Locations that are accepted\<close>

text \<open>What a location may be, which the server relies on.\<close>

definition location_valid :: "location_config \<Rightarrow> bool" where
  "location_valid lc \<longleftrightarrow>
     fst (lc_route lc) \<noteq> [] \<and> hd (fst (lc_route lc)) = CHR ''/'' \<and> SP \<notin> set (fst (lc_route lc)) \<and>
     HTTP_NO_METHOD \<notin> set (lc_allowed_methods lc) \<and>
     (snd (lc_redirect lc) \<noteq> [] \<longrightarrow> 100 \<le> fst (lc_redirect lc) \<and> fst (lc_redirect lc) \<le> 599) \<and>
     lc_is_cgi lc = IsCgiLocation (fst (lc_route lc)) \<and>
     (\<forall>ext\<in>set (lc_cgi_extensions lc). hd ext = CHR ''.'' \<and> 2 \<le> length ext) \<and>
     lc_alias_dir lc \<noteq> [] \<and> hd (lc_alias_dir lc) = CHR ''/'' \<and>
     [] \<notin> set (lc_default_files lc) \<and>
     (lc_upload_dir lc \<noteq> [] \<longrightarrow> hd (lc_upload_dir lc) = CHR ''/'')"

definition inherited_valid :: "inherited_settings \<Rightarrow> bool" where
  "inherited_valid inh \<longleftrightarrow>
     (is_alias inh \<noteq> [] \<longrightarrow> hd (is_alias inh) = CHR ''/'') \<and> [] \<notin> set (is_def_files inh)"

lemma inherited_valid_new: "inherited_valid InheritedSettings_new"
  by (simp add: inherited_valid_def InheritedSettings_new_def)

lemma c_at_hd: "c \<noteq> NUL \<Longrightarrow> c_at s 0 = c \<longleftrightarrow> s \<noteq> [] \<and> hd s = c"
  by (cases s) (auto simp: c_at_def)

lemma SplitLine_elem: "w \<in> set (SplitLine s) \<Longrightarrow> w \<noteq> [] \<and> SP \<notin> set w \<and> set w \<subseteq> set s"
  using split_on_elem [of w SP s] by (auto simp: SplitLine_fields)

lemma BuildRoute_valid:
  "BuildRoute v = Inr r \<Longrightarrow> fst r \<noteq> [] \<and> hd (fst r) = CHR ''/'' \<and> SP \<notin> set (fst r)"
  using SplitLine_elem [of _ v] nth_mem [of 0 "SplitLine v"] nth_mem [of 1 "SplitLine v"]
  by (auto simp: BuildRoute_def ParseRoute_def c_at_hd split: if_splits)

lemma BuildAllowedMethods_valid:
  "BuildAllowedMethods v = Inr ms \<Longrightarrow> HTTP_NO_METHOD \<notin> set ms"
  by (auto simp: BuildAllowedMethods_def kDefaultAllowedMethods_def ParseAllowedMethods_def
      bind_outcome_Inr_iff map_outcomes_Inr_iff parse_method_def in_set_conv_nth list_all2_conv_all_nth
      split: if_splits)

lemma BuildCgiExtensions_valid:
  "BuildCgiExtensions v = Inr es \<Longrightarrow> \<forall>ext\<in>set es. hd ext = CHR ''.'' \<and> 2 \<le> length ext"
  by (auto simp: BuildCgiExtensions_def kDefaultCgiExtensions_def ParseCgiExtensions_def
      bind_outcome_Inr_iff c_at_hd split: if_splits)

lemma Inherited_BuildAliasDir_valid:
  "Inherited_BuildAliasDir v a = Inr d \<Longrightarrow> a = [] \<or> hd a = CHR ''/'' \<Longrightarrow>
     (d = [] \<longrightarrow> v = [] \<and> a = []) \<and> (d \<noteq> [] \<longrightarrow> hd d = CHR ''/'')"
  by (auto simp: Inherited_BuildAliasDir_def c_at_hd split: if_splits)

lemma Inherited_BuildDefaultFile_valid:
  "Inherited_BuildDefaultFile v fs = Inr ds \<Longrightarrow> [] \<notin> set fs \<Longrightarrow> [] \<notin> set ds"
  using SplitLine_elem [of "[]"] by (auto simp: Inherited_BuildDefaultFile_def split_first_value_def split: if_splits)

lemma Location_Build_valid:
  assumes "Location_Build f inh = Inr lc" "inherited_valid inh"
  shows "location_valid lc"
proof -
  from assms(1) obtain route ms rd es al df dl mb ud
    where b: "BuildRoute (nesting_lvl_descr f) = Inr route"
      "BuildAllowedMethods (FindSetting f ''limit_except'') = Inr ms"
      "BuildCgiExtensions (FindSetting f ''cgi_extension'') = Inr es"
      "Location_BuildAliasDir (FindSetting f ''alias'') (is_alias inh) = Inr al"
      "Location_BuildDefaultFile (FindSetting f ''index'') (is_def_files inh) = Inr df"
      "BuildUploadDir (FindSetting f ''upload_store'') = Inr ud"
      "LocationConfig_new route ms rd es al df dl mb ud = Inr lc"
    by (auto simp: Location_Build_def bind_outcome_Inr_iff split: if_splits)
  have "al \<noteq> [] \<and> hd al = CHR ''/''"
    using b(4) assms(2) Inherited_BuildAliasDir_valid [of "FindSetting f ''alias''" "is_alias inh" al]
    by (auto simp: Location_BuildAliasDir_def kDefaultAliasDir_def inherited_valid_def split: if_splits)
  moreover have "[] \<notin> set df"
    using b(5) assms(2) Inherited_BuildDefaultFile_valid [of _ "is_def_files inh" df]
    by (auto simp: Location_BuildDefaultFile_def kDefaultIndexFile_def inherited_valid_def split: if_splits)
  moreover have "ud \<noteq> [] \<longrightarrow> hd ud = CHR ''/''"
    using b(6) by (auto simp: BuildUploadDir_def c_at_hd split: if_splits)
  moreover have "snd rd \<noteq> [] \<longrightarrow> 100 \<le> fst rd \<and> fst rd \<le> 599"
    using b(7) by (auto simp: LocationConfig_new_def InitRedirect_def split: if_splits)
  moreover have "lc = \<lparr>lc_route = route, lc_allowed_methods = ms, lc_redirect = rd,
        lc_is_cgi = IsCgiLocation (fst route), lc_cgi_extensions = es, lc_alias_dir = al,
        lc_default_files = df, lc_dir_listing = dl,
        lc_client_max_body_size = mb, lc_upload_dir = ud\<rparr>"
    using b(7) by (auto simp: LocationConfig_new_def InitRedirect_def split: if_splits)
  ultimately show ?thesis
    using BuildRoute_valid [OF b(1)] BuildAllowedMethods_valid [OF b(2)] BuildCgiExtensions_valid [OF b(3)]
    by (simp add: location_valid_def)
qed

section \<open>The limit of the body\<close>

text \<open>The number of bits that a unit shifts by.\<close>

definition unit_shift :: "string \<Rightarrow> nat option" where
  "unit_shift unit = map_of [(''KB'', 10), (''MB'', 20), (''GB'', 30)] unit"

lemma StrToNumeric_nat:
  assumes "n < 2 ^ 31"
  shows "StrToNumeric True 32 (NumericToString (int n)) = Inr (int n)"
proof -
  have "int n < 2 ^ 31" using assms by (metis of_nat_less_iff of_nat_numeral of_nat_power)
  then have "to_int32 (int n) = int n" by (simp add: to_int32_def)
  with assms show ?thesis
    by (simp add: StrToNumeric_def NumericToString_def StrToNumericNoThrow_digits print_base_isdigit
        num_of_print_base)
qed

lemma SplitLine_two:
  "a \<noteq> [] \<Longrightarrow> b \<noteq> [] \<Longrightarrow> SP \<notin> set a \<Longrightarrow> SP \<notin> set b \<Longrightarrow> SplitLine (a @ SP # b) = [a, b]"
  by (simp add: SplitLine_fields split_on_append split_on_no_sep)

text \<open>C35: a limit written as a number and a unit is the number times the unit, cut to 32 bits: so it is
  what was written exactly when that is below 4 GB, and 4 GB is no bytes at all.\<close>

theorem client_max_body_size_cut:
  assumes "n < 2 ^ 31" "unit_shift unit = Some s"
  shows "Location_BuildClientMaxBodySize [NumericToString (int n) @ SP # unit] inherited
      = Inr (word_of_nat (n * 2 ^ s)) \<and>
    (unat (word_of_nat (n * 2 ^ s) :: 32 word) = n * 2 ^ s \<longleftrightarrow> n * 2 ^ s < 2 ^ 32)"
proof -
  let ?num = "NumericToString (int n)"
  have exact: "unat (word_of_nat m :: 32 word) = m \<longleftrightarrow> m < 2 ^ 32" for m
    using unsigned_less [of "word_of_nat m :: 32 word"] by (auto simp: unat_of_nat)
  have unit: "unit = ''KB'' \<and> s = 10 \<or> unit = ''MB'' \<and> s = 20 \<or> unit = ''GB'' \<and> s = 30"
    using assms(2) by (auto simp: unit_shift_def split: if_splits)
  have digits: "?num = print_base 10 n" by (simp add: NumericToString_def)
  have "SP \<notin> set ?num" using print_base_isdigit [of n]
    unfolding digits by (auto simp: list_all_iff isdigit_def code_def)
  moreover have "?num \<noteq> []" by (simp add: digits)
  ultimately have split: "SplitLine (?num @ SP # unit) = [?num, unit]"
    using unit by (intro SplitLine_two) auto
  have shift: "push_bit s (word_of_int (int n)) = (word_of_nat (n * 2 ^ s) :: 32 word)"
    by (simp add: push_bit_eq_mult mult.commute)
  have "Location_BuildClientMaxBodySize [?num @ SP # unit] inherited
      = Inr (push_bit s (word_of_int (int n)))"
    using unit StrToNumeric_nat [OF assms(1)]
    by (auto simp: Location_BuildClientMaxBodySize_def Inherited_BuildClientMaxBodySize_def split
        Inherited_ParseClientMaxBodySize_def Location_ParseClientMaxBodySize_def)
  then show ?thesis unfolding shift using exact [of "n * 2 ^ s"] by blast
qed

theorem client_max_body_size_cut_witness:
  "Location_BuildClientMaxBodySize [''4 GB''] [] = Inr 0"
proof -
  have "NumericToString 4 = ''4''" by (simp add: eval_simps print_base.simps)
  then show ?thesis using client_max_body_size_cut [of 4 "''GB''" 30 "[]"] by (simp add: unit_shift_def)
qed

end
