(* ===== verification/ServerConfigBuilder.thy ===== *)
theory ServerConfigBuilder
  imports LocationConfigBuilder ServerConfig IPv4
begin

text \<open>
  \<open>src/config/ServerConfigBuilder.cpp\<close>: the settings of a virtual server made from its block, with
  the syntax of listeners and of server names.
\<close>

section \<open>Logs and listeners\<close>

definition parse_level :: "severity \<Rightarrow> string \<Rightarrow> severity outcome" where
  [eval_simps]: "parse_level dflt val =
     (if val = ''debug'' then Inr DEBUG
      else if val = ''info'' then Inr INFO
      else if val = ''warning'' then Inr WARNING
      else if val = ''error'' then Inr ERROR
      else if val = ''fatal'' then Inr FATAL
      else if val = [] then Inr dflt
      else Inl Runtime_error)"

definition ParseAccessLogLevel :: "string \<Rightarrow> severity outcome" where
  [eval_simps]: "ParseAccessLogLevel val = parse_level kDefaultAccessLogLevel val"

definition BuildAccessLog :: "string list \<Rightarrow> (string \<times> severity) outcome" where
  [eval_simps]: "BuildAccessLog vals =
     (if vals = [] then Inr (kDefaultAccessLogPath, kDefaultAccessLogLevel)
      else if 1 < length vals then Inl Runtime_error
      else case SplitLine (hd vals) of
        [path] \<Rightarrow> Inr (path, kDefaultAccessLogLevel)
      | [path, level] \<Rightarrow> bind_outcome (ParseAccessLogLevel level) (\<lambda>l. Inr (path, l))
      | _ \<Rightarrow> Inl Runtime_error)"

definition BuildErrorLogPath :: "string list \<Rightarrow> string outcome" where
  [eval_simps]: "BuildErrorLogPath vals =
     (if vals = [] then Inr kDefaultErrorLogPath
      else if 1 < length vals then Inl Runtime_error
      else Inr (hd vals))"

text \<open>
  \<open>StrToNumeric<in_port_t>\<close> hands back an \<open>int\<close>, which is stored in 16 bits.  A value without a colon
  is an address, or else a port.
\<close>

definition parse_port :: "string \<Rightarrow> 16 word outcome" where
  [eval_simps]: "parse_port val =
     bind_outcome (StrToNumeric False 16 val) (\<lambda>p. Inr (word_of_int p))"

definition ParseListener :: "string \<Rightarrow> listener outcome" where
  [eval_simps]: "ParseListener val =
     (case str_find val '':'' 0 of
        None \<Rightarrow>
          (case IPv4FromString val of
             Inr addr \<Rightarrow> Inr (addr, kDefaultPort)
           | Inl e \<Rightarrow> if e = Runtime_error
               then bind_outcome (parse_port val) (\<lambda>port. Inr (kDefaultIPAddress, port)) else Inl e)
      | Some colon_pos \<Rightarrow>
          bind_outcome (IPv4FromString (cut 0 colon_pos val)) (\<lambda>addr.
          bind_outcome (parse_port (drop (colon_pos + 1) val)) (\<lambda>port. Inr (addr, port))))"

definition BuildListeners :: "string list \<Rightarrow> listener list outcome" where
  [eval_simps]: "BuildListeners vals =
     (if vals = [] then Inl Runtime_error else map_outcomes ParseListener vals)"

section \<open>Server names\<close>

definition CheckComponentSeparatedByDots :: "string \<Rightarrow> bool" where
  [eval_simps]: "CheckComponentSeparatedByDots label \<longleftrightarrow>
     \<not> (label = [] \<or> hd label = CHR ''-'' \<or> last label = CHR ''-'') \<and>
     list_all (\<lambda>c. isalnum c \<or> c = CHR ''-'') label"

text \<open>The loop over the dots: each label but the last, and then what is left.\<close>

function check_labels :: "string \<Rightarrow> nat \<Rightarrow> bool" where
  "check_labels val start =
     (case str_find val ''.'' start of
        Some dot_pos \<Rightarrow>
          (start = 0 \<and> cut start (dot_pos - start) val = ''*'' \<or>
           CheckComponentSeparatedByDots (cut start (dot_pos - start) val)) \<and>
          check_labels val (dot_pos + 1)
      | None \<Rightarrow> drop start val = ''*'' \<or> CheckComponentSeparatedByDots (drop start val))"
  by pat_completeness auto
termination
proof (relation "measure (\<lambda>(val, start). length val - start)", goal_cases)
  case (2 val start dot_pos)
  then obtain i where "find_sub ''.'' (drop start val) = Some i" "dot_pos = start + i" "start \<le> length val"
    by (auto simp: str_find_def split: if_splits)
  with find_sub_Some [of "''.''" "drop start val" i] show ?case by auto
qed simp

declare check_labels.simps [simp del]

definition name_bytes_ok :: "string \<Rightarrow> bool" where
  [eval_simps]: "name_bytes_ok val \<longleftrightarrow>
     (\<forall>i<length val. (isalnum (val ! i) \<or> val ! i = CHR ''-'' \<or> val ! i = CHR ''.'' \<or> val ! i = CHR ''*'') \<and>
        \<not> (val ! i = CHR ''*'' \<and> i \<noteq> 0 \<and> i \<noteq> length val - 1))"

text \<open>The first byte of an empty name is its terminating NUL, and then the last is not looked at.\<close>

definition ParseServerName :: "string \<Rightarrow> string outcome" where
  [eval_simps]: "ParseServerName val =
     (if \<not> name_bytes_ok val then Inl Runtime_error
      else if c_at val 0 = CHR ''*'' \<and> last val = CHR ''*'' then Inl Runtime_error
      else if \<not> check_labels val 0 then Inl Runtime_error
      else Inr val)"

definition ParseServerNames :: "string list \<Rightarrow> string list outcome" where
  [eval_simps]: "ParseServerNames vals = map_outcomes ParseServerName (concat (map SplitLine vals))"

definition BuildServerNames :: "string list \<Rightarrow> string list outcome" where
  [eval_simps]: "BuildServerNames vals = (if vals = [] then Inr [] else ParseServerNames vals)"

section \<open>The settings of a server\<close>

definition BuildLocationConfigs ::
  "parsed_config list \<Rightarrow> inherited_settings \<Rightarrow> location_config list outcome" where
  [eval_simps]: "BuildLocationConfigs blocks inh = map_outcomes (\<lambda>f. Location_Build f inh) blocks"

definition Server_IsKeyAllowed :: "string \<Rightarrow> bool" where
  [eval_simps]: "Server_IsKeyAllowed key \<longleftrightarrow>
     key = ''listen'' \<or> key = ''server_name'' \<or> key = ''access_log'' \<or> key = ''error_log'' \<or>
     key = ''alias'' \<or> key = ''index'' \<or> key = ''autoindex'' \<or> key = ''client_max_body_size''"

definition Server_AreNestingsValid :: "parsed_config \<Rightarrow> bool" where
  [eval_simps]: "Server_AreNestingsValid f \<longleftrightarrow>
     list_all (\<lambda>b. \<not> (nesting_lvl_descr b = [] \<or> nesting_lvl b \<noteq> ''location'')) (nested_configs f)"

definition Inherited_Build :: "parsed_config \<Rightarrow> inherited_settings \<Rightarrow> inherited_settings outcome" where
  [eval_simps]: "Inherited_Build f inh =
     bind_outcome (Inherited_BuildAliasDir (FindSetting f ''alias'') (is_alias inh)) (\<lambda>al.
     bind_outcome (Inherited_BuildDefaultFile (FindSetting f ''index'') (is_def_files inh)) (\<lambda>df.
     bind_outcome (Inherited_BuildDirListing (FindSetting f ''autoindex'') (is_dir_listing inh)) (\<lambda>dl.
     bind_outcome (Inherited_BuildClientMaxBodySize (FindSetting f ''client_max_body_size'')
       (is_client_max_body_size inh)) (\<lambda>mb.
     Inr \<lparr>is_alias = al, is_def_files = df, is_dir_listing = dl, is_client_max_body_size = mb\<rparr>))))"

definition Server_Build :: "parsed_config \<Rightarrow> inherited_settings \<Rightarrow> server_config outcome" where
  [eval_simps]: "Server_Build f inh =
     bind_outcome (check_keys Server_IsKeyAllowed f) (\<lambda>_.
     bind_outcome (BuildAccessLog (FindSetting f ''access_log'')) (\<lambda>access_log.
     bind_outcome (BuildErrorLogPath (FindSetting f ''error_log'')) (\<lambda>error_log_path.
     bind_outcome (BuildListeners (FindSetting f ''listen'')) (\<lambda>listeners.
     bind_outcome (BuildServerNames (FindSetting f ''server_name'')) (\<lambda>server_names.
     bind_outcome (Inherited_Build f inh) (\<lambda>server_inherited.
     if \<not> Server_AreNestingsValid f then Inl Runtime_error
     else bind_outcome (BuildLocationConfigs (nested_configs f) server_inherited) (\<lambda>location_configs.
       Inr (ServerConfig_new access_log error_log_path listeners server_names location_configs))))))))"

section \<open>Which names are accepted\<close>

text \<open>A name is made of labels; the first or the last of them, not both, may be \<open>*\<close>.\<close>

fun inner_labels :: "string list \<Rightarrow> bool" where
  "inner_labels [] = True"
| "inner_labels [l] = (l = ''*'' \<or> CheckComponentSeparatedByDots l)"
| "inner_labels (l # ls) = (CheckComponentSeparatedByDots l \<and> inner_labels ls)"

lemma inner_labels_Cons:
  "ls \<noteq> [] \<Longrightarrow> inner_labels (l # ls) = (CheckComponentSeparatedByDots l \<and> inner_labels ls)"
  by (cases ls) auto

lemma split_on_find:
  "split_on c s = (case find_idx (\<lambda>d. d = c) s of None \<Rightarrow> [s]
     | Some i \<Rightarrow> take i s # split_on c (drop (Suc i) s))"
proof (cases "find_idx (\<lambda>d. d = c) s")
  case None
  then have "c \<notin> set s" by (auto simp: find_idx_None_iff)
  with None show ?thesis by (simp add: split_on_no_sep)
next
  case (Some i)
  note js = find_idx_Some [OF Some]
  then have "s = take i s @ c # drop (Suc i) s" using id_take_nth_drop [of i s] by auto
  moreover have "c \<notin> set (take i s)"
    using js by (auto simp: in_set_conv_nth)
  ultimately have "split_on c s = take i s # split_on c (drop (Suc i) s)" by (metis split_on_append)
  with Some show ?thesis by simp
qed

lemma check_labels_inner:
  "0 < start \<Longrightarrow> start \<le> length val \<Longrightarrow>
     check_labels val start = inner_labels (split_on (CHR ''.'') (drop start val))"
proof (induction val start rule: check_labels.induct)
  case (1 val start)
  show ?case
  proof (cases "find_idx (\<lambda>d. d = CHR ''.'') (drop start val)")
    case None
    then show ?thesis using 1(3)
      by (simp add: check_labels.simps [of val start] split_on_find [of _ "drop start val"] str_find_def
          find_sub_single)
  next
    case (Some i)
    then have find: "str_find val ''.'' start = Some (start + i)" using 1(3)
      by (simp add: str_find_def find_sub_single)
    from find_idx_Some [OF Some] have "start + i + 1 \<le> length val" by auto
    from 1(1) [OF find _ this] have "check_labels val (start + i + 1)
        = inner_labels (split_on (CHR ''.'') (drop (start + i + 1) val))" by simp
    moreover have "drop (start + i + 1) val = drop (Suc i) (drop start val)" by (simp add: add.commute)
    ultimately show ?thesis using 1(2) Some find
      by (simp add: check_labels.simps [of val start] split_on_find [of _ "drop start val"] cut_def
          inner_labels_Cons)
  qed
qed

lemma inner_labels_snoc:
  "inner_labels (ls @ [l]) \<longleftrightarrow>
     list_all CheckComponentSeparatedByDots ls \<and> (l = ''*'' \<or> CheckComponentSeparatedByDots l)"
proof (induction ls)
  case (Cons k ls)
  then show ?case using inner_labels_Cons [of "ls @ [l]" k] by simp
qed simp

lemma check_labels_0:
  "check_labels val 0 \<longleftrightarrow>
     (case split_on (CHR ''.'') val of
        [l] \<Rightarrow> l = ''*'' \<or> CheckComponentSeparatedByDots l
      | l # ls \<Rightarrow> (l = ''*'' \<or> CheckComponentSeparatedByDots l) \<and> inner_labels ls)"
proof (cases "find_idx (\<lambda>d. d = CHR ''.'') val")
  case None
  then show ?thesis
    by (simp add: check_labels.simps [of val 0] split_on_find [of _ val] str_find_def find_sub_single)
next
  case (Some i)
  then have find: "str_find val ''.'' 0 = Some i" by (simp add: str_find_def find_sub_single)
  have "Suc i \<le> length val" using find_idx_Some [OF Some] by simp
  then have "check_labels val (Suc i) = inner_labels (split_on (CHR ''.'') (drop (Suc i) val))"
    by (intro check_labels_inner) simp_all
  moreover obtain k ks where "split_on (CHR ''.'') (drop (Suc i) val) = k # ks"
    by (cases "split_on (CHR ''.'') (drop (Suc i) val)") auto
  moreover have "split_on (CHR ''.'') val = take i val # split_on (CHR ''.'') (drop (Suc i) val)"
    using Some split_on_find [of "CHR ''.''" val] by simp
  ultimately show ?thesis
    using find by (simp add: check_labels.simps [of val 0] cut_def)
qed

lemma split_on_last:
  "split_on c s = ls @ [l] \<Longrightarrow> ls \<noteq> [] \<Longrightarrow> \<exists>t. s = t @ c # l \<and> split_on c t = ls"
proof (induction ls arbitrary: s)
  case (Cons k ls)
  from Cons.prems(1) obtain i where i: "find_idx (\<lambda>d. d = c) s = Some i"
    using split_on_find [of c s] by (cases "find_idx (\<lambda>d. d = c) s") auto
  note js = find_idx_Some [OF i]
  have s: "s = take i s @ c # drop (Suc i) s" using js id_take_nth_drop [of i s] by auto
  have k: "k = take i s" "split_on c (drop (Suc i) s) = ls @ [l]"
    using Cons.prems(1) split_on_find [of c s] i by simp_all
  have no: "c \<notin> set k" using js by (auto simp: k(1) in_set_conv_nth)
  show ?case
  proof (cases "ls = []")
    case True
    with k(2) have "drop (Suc i) s = l"
      using split_on_find [of c "drop (Suc i) s"] by (auto split: option.splits)
    with True s k(1) no show ?thesis by (intro exI [of _ k]) (simp add: split_on_no_sep)
  next
    case False
    from Cons.IH [OF k(2) False] obtain t where t: "drop (Suc i) s = t @ c # l" "split_on c t = ls" by blast
    have "s = (k @ c # t) @ c # l" using s t(1) k(1) by simp
    moreover have "split_on c (k @ c # t) = k # ls" using no t(2) by (simp add: split_on_append)
    ultimately show ?thesis by blast
  qed
qed simp

text \<open>A name is made of labels with dots between them.\<close>

definition dotted :: "string \<Rightarrow> bool" where
  "dotted s \<longleftrightarrow> list_all CheckComponentSeparatedByDots (split_on (CHR ''.'') s)"

definition name_accepted :: "string \<Rightarrow> bool" where
  "name_accepted val \<longleftrightarrow> dotted val \<or> (\<exists>s. val = ''*.'' @ s \<and> dotted s) \<or> (\<exists>s. val = s @ ''.*'' \<and> dotted s)"

lemma label_bytes:
  "CheckComponentSeparatedByDots l \<Longrightarrow> l \<noteq> [] \<and> (\<forall>c\<in>set l. isalnum c \<or> c = CHR ''-'') \<and> CHR ''*'' \<notin> set l"
  by (auto simp: CheckComponentSeparatedByDots_def list_all_iff isalnum_def isdigit_def isupper_def
      islower_def code_def)

lemma split_on_bytes: "c \<in> set s \<Longrightarrow> c = d \<or> (\<exists>l\<in>set (split_on d s). c \<in> set l)"
proof (induction s)
  case (Cons x s)
  then show ?case by (cases "split_on d s") (auto split: list.splits)
qed simp

lemma dotted_bytes:
  assumes "dotted s"
  shows "s \<noteq> [] \<and> (\<forall>c\<in>set s. isalnum c \<or> c = CHR ''-'' \<or> c = CHR ''.'') \<and> CHR ''*'' \<notin> set s"
proof -
  have label: "CheckComponentSeparatedByDots l" if "l \<in> set (split_on (CHR ''.'') s)" for l
    using that assms by (simp add: dotted_def list_all_iff)
  have bytes: "c = CHR ''.'' \<or> (isalnum c \<or> c = CHR ''-'') \<and> c \<noteq> CHR ''*''" if "c \<in> set s" for c
    using split_on_bytes [OF that, of "CHR ''.''"] label label_bytes by metis
  have "s \<noteq> []" using label [of "[]"] label_bytes [of "[]"] by (cases s) auto
  moreover have "CHR ''*'' \<notin> set s" using bytes [of "CHR ''*''"] by auto
  ultimately show ?thesis using bytes by blast
qed

lemma inner_labels_split:
  "inner_labels (split_on (CHR ''.'') s) \<longleftrightarrow> dotted s \<or> s = ''*'' \<or> (\<exists>t. s = t @ ''.*'' \<and> dotted t)"
proof -
  obtain ls l where split: "split_on (CHR ''.'') s = ls @ [l]"
    by (metis rev_exhaust split_on_nonempty)
  have star: "split_on (CHR ''.'') (t @ ''.*'') = split_on (CHR ''.'') t @ [''*'']" for t
    using split_on_append_sep [of "CHR ''.''" t "''*''"] by simp
  show ?thesis
  proof (cases "l = ''*'' \<and> ls \<noteq> []")
    case True
    from split_on_last [OF split] True obtain t where t: "s = t @ ''.*''" "split_on (CHR ''.'') t = ls" by auto
    then have "\<not> dotted s" using dotted_bytes [of s] by auto
    with True split t show ?thesis by (auto simp: inner_labels_snoc dotted_def)
  next
    case False
    have no_tail: "\<not> (\<exists>t. s = t @ ''.*'' \<and> dotted t)"
    proof
      assume "\<exists>t. s = t @ ''.*'' \<and> dotted t"
      then obtain t where "s = t @ ''.*''" by blast
      then have "ls @ [l] = split_on (CHR ''.'') t @ [''*'']" using split star by simp
      with False show False by simp
    qed
    show ?thesis
    proof (cases "ls = []")
      case True
      have "l = s"
        using split True split_on_find [of "CHR ''.''" s] by (simp split: option.splits)
      with True split no_tail show ?thesis by (auto simp: dotted_def)
    next
      case more: False
      then have "s \<noteq> ''*''" using split by auto
      with more False split no_tail show ?thesis by (auto simp: inner_labels_snoc dotted_def)
    qed
  qed
qed

lemma name_bytes_dotted:
  assumes "dotted s"
  shows "name_bytes_ok s" "name_bytes_ok (''*.'' @ s)" "name_bytes_ok (s @ ''.*'')"
proof -
  note b = dotted_bytes [OF assms]
  then have nth: "isalnum (s ! i) \<or> s ! i = CHR ''-'' \<or> s ! i = CHR ''.''" "s ! i \<noteq> CHR ''*''"
    if "i < length s" for i using that nth_mem [of i s] by metis+
  show "name_bytes_ok s" using nth by (auto simp: name_bytes_ok_def)
  show "name_bytes_ok (''*.'' @ s)"
    using nth by (auto simp: name_bytes_ok_def less_Suc_eq_0_disj nth_Cons split: nat.splits)
  show "name_bytes_ok (s @ ''.*'')"
    using nth by (auto simp: name_bytes_ok_def nth_append less_Suc_eq)
qed

lemma dotted_star: "dotted s \<Longrightarrow> hd s \<noteq> CHR ''*'' \<and> last s \<noteq> CHR ''*''"
  using dotted_bytes [of s] hd_in_set [of s] last_in_set [of s] by metis

lemma split_on_two: "split_on c s = l # k # ks \<Longrightarrow>
    \<exists>t. s = l @ c # t \<and> split_on c t = k # ks"
proof -
  assume s: "split_on c s = l # k # ks"
  then obtain i where i: "find_idx (\<lambda>d. d = c) s = Some i"
    using split_on_find [of c s] by (cases "find_idx (\<lambda>d. d = c) s") auto
  then have "l = take i s" "split_on c (drop (Suc i) s) = k # ks"
    using s split_on_find [of c s] by simp_all
  moreover have "s = take i s @ c # drop (Suc i) s"
    using find_idx_Some [OF i] id_take_nth_drop [of i s] by auto
  ultimately show ?thesis by metis
qed

lemma check_labels_iff:
  assumes "val \<noteq> []"
  shows "check_labels val 0 \<and> \<not> (hd val = CHR ''*'' \<and> last val = CHR ''*'') \<longleftrightarrow> name_accepted val"
proof (cases "split_on (CHR ''.'') val" rule: remdups_adj.cases)
  case (2 l)
  have l: "l = val" using 2 split_on_find [of "CHR ''.''" val] by (simp split: option.splits)
  then have no_dot: "CHR ''.'' \<notin> set val" using split_on_elem [of l "CHR ''.''" val] 2 by simp
  show ?thesis
  proof (cases "CheckComponentSeparatedByDots val")
    case True
    then have "dotted val" using 2 l by (simp add: dotted_def)
    with True 2 l dotted_star [of val] show ?thesis by (auto simp: check_labels_0 name_accepted_def)
  next
    case False
    then have "\<not> dotted val" using 2 l by (simp add: dotted_def)
    moreover have "val \<noteq> ''*.'' @ s" "val \<noteq> s @ ''.*''" for s using no_dot by auto
    ultimately show ?thesis using False 2 l by (auto simp: check_labels_0 name_accepted_def)
  qed
next
  case (3 l k ks)
  from split_on_two [OF 3] obtain t where t: "val = l @ CHR ''.'' # t" "split_on (CHR ''.'') t = k # ks" by blast
  have l: "CHR ''.'' \<notin> set l" using split_on_elem [of l "CHR ''.''" val] 3 by simp
  have check: "check_labels val 0 \<longleftrightarrow> (l = ''*'' \<or> CheckComponentSeparatedByDots l) \<and>
      (dotted t \<or> t = ''*'' \<or> (\<exists>u. t = u @ ''.*'' \<and> dotted u))"
    using 3 t(2) inner_labels_split [of t] by (simp add: check_labels_0)
  have join: "dotted (l @ CHR ''.'' # u) \<longleftrightarrow> CheckComponentSeparatedByDots l \<and> dotted u" for u
    using l by (simp add: dotted_def split_on_append)
  have tail: "(\<exists>s. val = s @ ''.*'' \<and> dotted s) \<longleftrightarrow>
      CheckComponentSeparatedByDots l \<and> (t = ''*'' \<or> (\<exists>u. t = u @ ''.*'' \<and> dotted u))"
  proof
    assume "\<exists>s. val = s @ ''.*'' \<and> dotted s"
    then obtain s where s: "l @ CHR ''.'' # t = s @ ''.*''" "dotted s" using t(1) by auto
    from s(1) consider "s = l" "t = ''*''" | u where "s = l @ CHR ''.'' # u" "t = u @ ''.*''"
      | u where "l = s @ CHR ''.'' # u"
      by (auto simp: append_eq_append_conv2 Cons_eq_append_conv append_eq_Cons_conv)
    then show "CheckComponentSeparatedByDots l \<and> (t = ''*'' \<or> (\<exists>u. t = u @ ''.*'' \<and> dotted u))"
      using s(2) join l by cases (auto simp: dotted_def split_on_no_sep)
  next
    assume *: "CheckComponentSeparatedByDots l \<and> (t = ''*'' \<or> (\<exists>u. t = u @ ''.*'' \<and> dotted u))"
    then have "dotted l" using l by (simp add: dotted_def split_on_no_sep)
    with * join t(1) show "\<exists>s. val = s @ ''.*'' \<and> dotted s" by force
  qed
  show ?thesis
  proof (cases "l = ''*''")
    case True
    then have "\<not> CheckComponentSeparatedByDots l" using label_bytes [of l] by auto
    then have "name_accepted val \<longleftrightarrow> dotted t"
      using True t(1) join [of t] tail by (auto simp: name_accepted_def)
    moreover have "dotted t \<Longrightarrow> last val \<noteq> CHR ''*''"
      using dotted_star [of t] dotted_bytes [of t] t(1) by simp
    moreover have "hd val = CHR ''*''" using True t(1) by simp
    moreover have "t = ''*'' \<or> (\<exists>u. t = u @ ''.*'') \<Longrightarrow> last val = CHR ''*''" using t(1) by auto
    ultimately show ?thesis using check True by blast
  next
    case False
    have "val \<noteq> ''*.'' @ s" for s
    proof
      assume "val = ''*.'' @ s"
      then have "split_on (CHR ''.'') val = ''*'' # split_on (CHR ''.'') s" by simp
      with 3 False show False by simp
    qed
    then have acc: "name_accepted val \<longleftrightarrow> CheckComponentSeparatedByDots l \<and>
        (dotted t \<or> t = ''*'' \<or> (\<exists>u. t = u @ ''.*'' \<and> dotted u))"
      using t(1) join [of t] tail by (auto simp: name_accepted_def)
    have "CheckComponentSeparatedByDots l \<Longrightarrow> hd val \<noteq> CHR ''*''"
      using label_bytes [of l] hd_in_set [of l] t(1) by (cases l) auto
    then show ?thesis using acc check False by blast
  qed
qed (use assms in simp)

lemma no_empty_name: "\<not> check_labels [] 0" "\<not> name_accepted []"
  by (simp add: check_labels.simps str_find_def find_sub_Nil CheckComponentSeparatedByDots_def)
    (simp add: name_accepted_def dotted_def CheckComponentSeparatedByDots_def)

lemma server_name_parsed:
  "ParseServerName val = (if name_accepted val then Inr val else Inl Runtime_error)"
proof (cases "val = []")
  case False
  have "name_accepted val \<Longrightarrow> name_bytes_ok val" using name_bytes_dotted by (auto simp: name_accepted_def)
  with False show ?thesis
    using check_labels_iff [OF False] c_at_hd [of "CHR ''*''" val] by (auto simp: ParseServerName_def)
qed (simp add: ParseServerName_def no_empty_name)

text \<open>C34: a server name is accepted exactly when it is labels of letters, digits and inner hyphens with
  dots between them, possibly with \<open>*.\<close> before or \<open>.*\<close> after them, not both; it is kept as it is.\<close>

theorem ParseServerName_spec:
  "ParseServerName val = (if name_accepted val then Inr val else Inl Runtime_error)"
  by (rule server_name_parsed)

theorem ParseServerName_spec_witness:
  "ParseServerName ''*.a-b.org'' = Inr ''*.a-b.org'' \<and> ParseServerName ''a..b'' = Inl Runtime_error"
proof -
  have "dotted ''a-b.org''" by (simp add: dotted_def eval_simps)
  then have "name_accepted ''*.a-b.org''" by (simp add: name_accepted_def)
  moreover have "\<not> name_accepted ''a..b''"
    by (auto simp: name_accepted_def dotted_def eval_simps append_eq_Cons_conv)
  ultimately show ?thesis
    using ParseServerName_spec [of "''*.a-b.org''"] ParseServerName_spec [of "''a..b''"] by simp
qed

end
