(* ===== verification/ConfigBuilder.thy ===== *)
theory ConfigBuilder
  imports ServerConfigBuilder Multiplexer Server FileUtils
begin

text \<open>
  \<open>src/config/HttpConfigBuilder.cpp\<close>, \<open>HttpConfig.cpp\<close>, \<open>ConfigBuilder.cpp\<close> and \<open>Config.cpp\<close>: the
  settings that hold for all servers, and the whole configuration made from the file.
\<close>

section \<open>The http block\<close>

record http_config =
  hc_keepalive_timeout :: "32 word"
  hc_error_pages :: "(int, string) std_map"
  hc_server_configs :: "server_config list"

definition kDefaultKeepaliveTimeout :: "32 word" where
  [eval_simps]: "kDefaultKeepaliveTimeout = 65"

definition InitErrorPages :: "(int, string) std_map \<Rightarrow> (int, string) std_map outcome" where
  [eval_simps]: "InitErrorPages value =
     (if \<exists>p\<in>set value. fst p < 400 \<or> 599 < fst p then Inl Runtime_error else Inr value)"

definition HttpConfig_new ::
  "32 word \<Rightarrow> (int, string) std_map \<Rightarrow> server_config list \<Rightarrow> http_config outcome" where
  [eval_simps]: "HttpConfig_new keepalive_timeout pages server_configs =
     bind_outcome (InitErrorPages pages) (\<lambda>p.
       Inr \<lparr>hc_keepalive_timeout = keepalive_timeout, hc_error_pages = p,
         hc_server_configs = server_configs\<rparr>)"

definition ParseKeepAliveTimeout :: "string \<Rightarrow> 32 word outcome" where
  [eval_simps]: "ParseKeepAliveTimeout val =
     bind_outcome (StrToNumeric False 32 val) (\<lambda>n. Inr (word_of_int n))"

definition BuildKeepAliveTimeout :: "string list \<Rightarrow> 32 word outcome" where
  [eval_simps]: "BuildKeepAliveTimeout vals =
     (if vals = [] then Inr kDefaultKeepaliveTimeout
      else if 1 < length vals then Inl Runtime_error
      else ParseKeepAliveTimeout (hd vals))"

text \<open>Every element but the last is a status code, and the last one the page for them.\<close>

fun assign_codes ::
  "string list \<Rightarrow> string \<Rightarrow> (int, string) std_map \<Rightarrow> (int, string) std_map outcome" where
  "assign_codes [] page pages = Inr pages"
| "assign_codes (c # cs) page pages =
     bind_outcome (StrToNumeric True 32 c) (\<lambda>num. assign_codes cs page (map_assign num page pages))"

fun parse_error_pages ::
  "string list \<Rightarrow> (int, string) std_map \<Rightarrow> (int, string) std_map outcome" where
  "parse_error_pages [] pages = Inr pages"
| "parse_error_pages (v # vals) pages =
     (let elements = SplitLine v in
      if length elements < 2 then Inl Runtime_error
      else bind_outcome (assign_codes (butlast elements) (last elements) pages) (parse_error_pages vals))"

definition ParseErrorPages :: "string list \<Rightarrow> (int, string) std_map outcome" where
  [eval_simps]: "ParseErrorPages vals = parse_error_pages vals []"

definition BuildErrorPages :: "string list \<Rightarrow> (int, string) std_map outcome" where
  [eval_simps]: "BuildErrorPages vals = (if vals = [] then Inr [] else ParseErrorPages vals)"

definition BuildServerConfigs ::
  "parsed_config list \<Rightarrow> inherited_settings \<Rightarrow> server_config list outcome" where
  [eval_simps]: "BuildServerConfigs blocks inh = map_outcomes (\<lambda>f. Server_Build f inh) blocks"

definition Http_IsKeyAllowed :: "string \<Rightarrow> bool" where
  [eval_simps]: "Http_IsKeyAllowed key \<longleftrightarrow>
     key = ''keepalive_timeout'' \<or> key = ''client_max_body_size'' \<or> key = ''error_page'' \<or>
     key = ''alias'' \<or> key = ''index'' \<or> key = ''autoindex'' \<or> key = ''client_max_body_size''"

definition Http_AreNestingsValid :: "parsed_config \<Rightarrow> bool" where
  [eval_simps]: "Http_AreNestingsValid f \<longleftrightarrow>
     nested_configs f \<noteq> [] \<and>
     list_all (\<lambda>b. \<not> (nesting_lvl_descr b \<noteq> [] \<or> nesting_lvl b \<noteq> ''server'')) (nested_configs f)"

definition Http_Build :: "parsed_config \<Rightarrow> inherited_settings \<Rightarrow> http_config outcome" where
  [eval_simps]: "Http_Build f inh =
     bind_outcome (check_keys Http_IsKeyAllowed f) (\<lambda>_.
     bind_outcome (BuildKeepAliveTimeout (FindSetting f ''keepalive_timeout'')) (\<lambda>keepalive_timeout.
     bind_outcome (BuildErrorPages (FindSetting f ''error_page'')) (\<lambda>pages.
     bind_outcome (Inherited_Build f inh) (\<lambda>http_inherited.
     if \<not> Http_AreNestingsValid f then Inl Runtime_error
     else bind_outcome (BuildServerConfigs (nested_configs f) http_inherited) (\<lambda>server_configs.
       HttpConfig_new keepalive_timeout pages server_configs)))))"

section \<open>The configuration\<close>

record config =
  cfg_mx_type :: multiplex_type
  cfg_error_log_path :: string
  cfg_error_log_level :: severity
  cfg_http_config :: http_config

definition Config_new :: "multiplex_type \<Rightarrow> string \<times> severity \<Rightarrow> http_config \<Rightarrow> config" where
  [eval_simps]: "Config_new mx error_log http =
     \<lparr>cfg_mx_type = mx, cfg_error_log_path = fst error_log, cfg_error_log_level = snd error_log,
      cfg_http_config = http\<rparr>"

definition kDefaultMxType :: multiplex_type where [eval_simps]: "kDefaultMxType = MT_SELECT"
definition Config_kDefaultErrorLogPath :: string where [eval_simps]: "Config_kDefaultErrorLogPath = []"
definition kDefaultErrorLogLevel :: severity where [eval_simps]: "kDefaultErrorLogLevel = INFO"

definition ParseMxType :: "string \<Rightarrow> multiplex_type outcome" where
  [eval_simps]: "ParseMxType val =
     (if val = ''epoll'' then Inr MT_EPOLL
      else if val = ''select'' then Inr MT_SELECT
      else if val = ''poll'' then Inr MT_POLL
      else Inl Runtime_error)"

definition BuildMxType :: "string list \<Rightarrow> multiplex_type outcome" where
  [eval_simps]: "BuildMxType vals =
     (if vals = [] then Inr kDefaultMxType
      else if 1 < length vals then Inl Runtime_error
      else ParseMxType (hd vals))"

definition ParseErrorLogLevel :: "string \<Rightarrow> severity outcome" where
  [eval_simps]: "ParseErrorLogLevel val = parse_level kDefaultErrorLogLevel val"

definition BuildErrorLog :: "string list \<Rightarrow> (string \<times> severity) outcome" where
  [eval_simps]: "BuildErrorLog vals =
     (if vals = [] then Inr (Config_kDefaultErrorLogPath, kDefaultErrorLogLevel)
      else if 1 < length vals then Inl Runtime_error
      else case SplitLine (hd vals) of
        [path] \<Rightarrow> Inr (path, kDefaultErrorLogLevel)
      | [path, level] \<Rightarrow> bind_outcome (ParseErrorLogLevel level) (\<lambda>l. Inr (path, l))
      | _ \<Rightarrow> Inl Runtime_error)"

definition Config_IsKeyAllowed :: "string \<Rightarrow> bool" where
  [eval_simps]: "Config_IsKeyAllowed key \<longleftrightarrow> key = ''use'' \<or> key = ''error_log''"

definition Config_AreNestingsValid :: "parsed_config \<Rightarrow> bool" where
  [eval_simps]: "Config_AreNestingsValid f \<longleftrightarrow>
     length (nested_configs f) = 1 \<and>
     list_all (\<lambda>b. \<not> (nesting_lvl b \<noteq> ''http'' \<or> nesting_lvl_descr b \<noteq> [])) (nested_configs f)"

definition Config_Build :: "parsed_config \<Rightarrow> inherited_settings \<Rightarrow> config outcome" where
  [eval_simps]: "Config_Build f inh =
     bind_outcome (check_keys Config_IsKeyAllowed f) (\<lambda>_.
     bind_outcome (BuildMxType (FindSetting f ''use'')) (\<lambda>mx.
     bind_outcome (BuildErrorLog (FindSetting f ''error_log'')) (\<lambda>error_log.
     if \<not> Config_AreNestingsValid f then Inl Runtime_error
     else bind_outcome (Http_Build (hd (nested_configs f)) inh) (\<lambda>http.
       Inr (Config_new mx error_log http)))))"

text \<open>A file that cannot be opened has no content.\<close>

definition GetConfigFromConfFile :: "file_system \<Rightarrow> string \<Rightarrow> config outcome" where
  [eval_simps]: "GetConfigFromConfFile fs config_path =
     bind_outcome (CheckFileExtension config_path ''.conf'') (\<lambda>ok.
       if \<not> ok then Inl Invalid_argument
       else if \<not> IsRegularFile fs config_path then Inl Invalid_argument
       else case content_of fs (c_str config_path) of
         None \<Rightarrow> Inl Invalid_argument
       | Some text_of \<Rightarrow> bind_outcome (ParsedConfig text_of) (\<lambda>f. Config_Build f InheritedSettings_new))"

section \<open>Configurations that are accepted\<close>

definition server_valid :: "server_config \<Rightarrow> bool" where
  "server_valid sc \<longleftrightarrow> sc_listeners sc \<noteq> [] \<and> (\<forall>n\<in>set (sc_server_names sc). name_accepted n) \<and>
     (\<forall>lc\<in>set (sc_locations sc). location_valid lc)"

definition config_valid :: "config \<Rightarrow> bool" where
  "config_valid cfg \<longleftrightarrow>
     hc_server_configs (cfg_http_config cfg) \<noteq> [] \<and>
     (\<forall>sc\<in>set (hc_server_configs (cfg_http_config cfg)). server_valid sc) \<and>
     map_sorted (hc_error_pages (cfg_http_config cfg)) \<and>
     (\<forall>p\<in>set (hc_error_pages (cfg_http_config cfg)). 400 \<le> fst p \<and> fst p \<le> 599 \<and> snd p \<noteq> [])"

lemma map_outcomes_set:
  "map_outcomes f xs = Inr ys \<Longrightarrow> y \<in> set ys \<Longrightarrow> \<exists>x\<in>set xs. f x = Inr y"
  by (auto simp: map_outcomes_Inr_iff list_all2_conv_all_nth in_set_conv_nth) (metis nth_mem)

lemma map_outcomes_length: "map_outcomes f xs = Inr ys \<Longrightarrow> length ys = length xs"
  by (auto simp: map_outcomes_Inr_iff list_all2_lengthD)

lemma Inherited_Build_valid:
  "Inherited_Build f inh = Inr i \<Longrightarrow> inherited_valid inh \<Longrightarrow> inherited_valid i"
  using Inherited_BuildAliasDir_valid Inherited_BuildDefaultFile_valid
  by (fastforce simp: Inherited_Build_def bind_outcome_Inr_iff inherited_valid_def)

lemma BuildServerNames_valid:
  assumes "BuildServerNames vals = Inr names" "n \<in> set names"
  shows "name_accepted n"
proof -
  obtain w where w: "w \<in> set (concat (map SplitLine vals))" "ParseServerName w = Inr n"
    using assms map_outcomes_set [of ParseServerName "concat (map SplitLine vals)" names n]
    by (auto simp: BuildServerNames_def ParseServerNames_def split: if_splits)
  then show ?thesis by (auto simp: server_name_parsed split: if_splits)
qed

lemma Server_Build_valid:
  assumes "Server_Build f inh = Inr sc" "inherited_valid inh"
  shows "server_valid sc"
proof -
  from assms(1) obtain al el ls ns i lcs where
    b: "BuildListeners (FindSetting f ''listen'') = Inr ls"
      "BuildServerNames (FindSetting f ''server_name'') = Inr ns"
      "Inherited_Build f inh = Inr i"
      "BuildLocationConfigs (nested_configs f) i = Inr lcs"
      "sc = ServerConfig_new al el ls ns lcs"
    by (auto simp: Server_Build_def bind_outcome_Inr_iff split: if_splits)
  have "ls \<noteq> []"
    using b(1) map_outcomes_length by (fastforce simp: BuildListeners_def split: if_splits)
  moreover have "\<forall>lc\<in>set lcs. location_valid lc"
    using map_outcomes_set [OF b(4) [unfolded BuildLocationConfigs_def]]
      Location_Build_valid [OF _ Inherited_Build_valid [OF b(3) assms(2)]] by blast
  ultimately show ?thesis
    using b(2,5) BuildServerNames_valid by (auto simp: server_valid_def ServerConfig_new_def)
qed

lemma assign_codes_pages:
  "assign_codes cs page pages = Inr q \<Longrightarrow> map_sorted pages \<Longrightarrow> page \<noteq> [] \<Longrightarrow> [] \<notin> snd ` set pages \<Longrightarrow>
     map_sorted q \<and> [] \<notin> snd ` set q"
proof (induction cs page pages rule: assign_codes.induct)
  case (2 c cs page pages)
  then obtain num where num: "StrToNumeric True 32 c = Inr num"
    "assign_codes cs page (map_assign num page pages) = Inr q"
    by (auto simp: bind_outcome_Inr_iff)
  have "[] \<notin> snd ` set (map_assign num page pages)"
    using 2(4,5) set_map_assign [of num page pages] by force
  with 2(1) [OF num] 2(3,4) show ?case by (simp add: map_sorted_assign)
qed simp

lemma parse_error_pages_valid:
  "parse_error_pages vals pages = Inr q \<Longrightarrow> map_sorted pages \<Longrightarrow> [] \<notin> snd ` set pages \<Longrightarrow>
     map_sorted q \<and> [] \<notin> snd ` set q"
proof (induction vals pages rule: parse_error_pages.induct)
  case (2 v vals pages)
  let ?es = "SplitLine v"
  from 2(2) obtain p where p: "2 \<le> length ?es" "assign_codes (butlast ?es) (last ?es) pages = Inr p"
    "parse_error_pages vals p = Inr q"
    by (auto simp: bind_outcome_Inr_iff Let_def split: if_splits)
  then have "last ?es \<noteq> []" using SplitLine_elem [of "last ?es" v] by (cases ?es rule: rev_cases) auto
  with assign_codes_pages [OF p(2) 2(3)] 2(4) have "map_sorted p" "[] \<notin> snd ` set p" by auto
  with 2(1) [OF refl _ p(2)] p(1,3) show ?case by simp
qed simp

lemma Http_Build_valid:
  assumes "Http_Build f inh = Inr hc" "inherited_valid inh"
  shows "hc_server_configs hc \<noteq> [] \<and> (\<forall>sc\<in>set (hc_server_configs hc). server_valid sc) \<and>
    map_sorted (hc_error_pages hc) \<and>
    (\<forall>p\<in>set (hc_error_pages hc). 400 \<le> fst p \<and> fst p \<le> 599 \<and> snd p \<noteq> [])"
proof -
  from assms(1) obtain kt ps i scs where b:
      "BuildErrorPages (FindSetting f ''error_page'') = Inr ps" "Inherited_Build f inh = Inr i"
      "nested_configs f \<noteq> []" "BuildServerConfigs (nested_configs f) i = Inr scs"
      "HttpConfig_new kt ps scs = Inr hc"
    by (auto simp: Http_Build_def Http_AreNestingsValid_def bind_outcome_Inr_iff split: if_splits)
  have "map_sorted ps \<and> [] \<notin> snd ` set ps"
    using b(1) parse_error_pages_valid [of "FindSetting f ''error_page''" "[]" ps]
    by (auto simp: BuildErrorPages_def ParseErrorPages_def split: if_splits)
  moreover have "hc = \<lparr>hc_keepalive_timeout = kt, hc_error_pages = ps, hc_server_configs = scs\<rparr>"
    "\<forall>p\<in>set ps. 400 \<le> fst p \<and> fst p \<le> 599"
    using b(5) by (auto simp: HttpConfig_new_def InitErrorPages_def split: if_splits)
  moreover have "scs \<noteq> []"
    using b(3,4) map_outcomes_length by (fastforce simp: BuildServerConfigs_def)
  moreover have "\<forall>sc\<in>set scs. server_valid sc"
    using map_outcomes_set [OF b(4) [unfolded BuildServerConfigs_def]]
      Server_Build_valid [OF _ Inherited_Build_valid [OF b(2) assms(2)]] by blast
  ultimately show ?thesis by force
qed

lemma config_accepted:
  assumes "GetConfigFromConfFile fs path = Inr cfg"
  shows "config_valid cfg"
proof -
  from assms obtain f hc mx el where
    "Http_Build (hd (nested_configs f)) InheritedSettings_new = Inr hc" "cfg = Config_new mx el hc"
    by (auto simp: GetConfigFromConfFile_def Config_Build_def bind_outcome_Inr_iff
        split: if_splits option.splits)
  then show ?thesis
    using Http_Build_valid [OF _ inherited_valid_new, of "hd (nested_configs f)" hc]
    by (simp add: config_valid_def Config_new_def)
qed

text \<open>C32: whatever configuration file is accepted, it has a server; every server listens somewhere and has
  only well-formed names; every location has a route that starts with a slash, an alias that is an
  absolute path, methods and a redirect status that exist; and error pages are for codes from 400 to 599.\<close>

theorem accepted_config_valid:
  assumes "GetConfigFromConfFile fs path = Inr cfg"
  shows "config_valid cfg"
  by (rule config_accepted [OF assms])

definition example_tree :: parsed_config where
  "example_tree = Parsed_config [] [] [(''use'', ''poll'')]
     [Parsed_config ''http'' [] [(''error_page'', ''404 /e.html'')]
       [Parsed_config ''server'' [] [(''listen'', ''81''), (''server_name'', ''*.a.org'')]
         [Parsed_config ''location'' ''/'' [(''alias'', ''/www'')] []]]]"

definition config_fs :: "string \<Rightarrow> file_system" where
  "config_fs str = \<lparr>access_f = (\<lambda>_. True), access_r = (\<lambda>_. True), access_x = (\<lambda>_. False),
     stat_of = (\<lambda>_. Some \<lparr>st_mode = S_IFREG, st_size = length str, st_mtime = 0\<rparr>),
     remove_ok = (\<lambda>_. False), content_of = (\<lambda>_. Some str), readdir_of = (\<lambda>_. None)\<rparr>"

definition example_parsed :: config where
  "example_parsed = \<lparr>cfg_mx_type = MT_POLL, cfg_error_log_path = [], cfg_error_log_level = INFO,
     cfg_http_config = \<lparr>hc_keepalive_timeout = 65, hc_error_pages = [(404, ''/e.html'')],
       hc_server_configs = [\<lparr>sc_access_log_path = [], sc_access_log_level = INFO, sc_error_log_path = [],
         sc_listeners = [(0, 81)], sc_server_names = [''*.a.org''],
         sc_locations = [\<lparr>lc_route = (''/'', False), lc_allowed_methods = [HTTP_GET], lc_redirect = (0, []),
           lc_is_cgi = False, lc_cgi_extensions = [''.py'', ''.php''], lc_alias_dir = ''/www'',
           lc_default_files = [''index.html''], lc_dir_listing = False,
           lc_client_max_body_size = 0x200000, lc_upload_dir = []\<rparr>]\<rparr>]\<rparr>\<rparr>"

lemma example_tree_built: "Config_Build example_tree InheritedSettings_new = Inr example_parsed"
  by code_simp

lemma example_file_parsed:
  "GetConfigFromConfFile (config_fs (render_config example_tree)) ''webserv.conf'' = Inr example_parsed"
proof -
  have "written example_tree" by code_simp
  then have "ParsedConfig (render_config example_tree) = Inr example_tree"
    using parse_rendered [of example_tree "[]" "[]" "[]"]
    by (simp add: ParsedConfig_def parse_nothing example_tree_def)
  moreover have "CheckFileExtension ''webserv.conf'' ''.conf'' = Inr True" by code_simp
  ultimately show ?thesis
    using example_tree_built
    by (simp add: GetConfigFromConfFile_def config_fs_def IsRegularFile_def S_IFREG_def)
qed

theorem accepted_config_valid_witness: "config_valid example_parsed"
  by (rule accepted_config_valid [OF example_file_parsed])

end
