(* ===== verification/ServerCluster.thy ===== *)
theory ServerCluster
  imports ClientSessionProps ConfigBuilder
begin

text \<open>
  \<open>src/ServerCluster.cpp\<close>: the listeners made from the configuration, the clients they accept, and the
  loop that serves them.  What \<open>socket\<close>, \<open>bind\<close> and \<open>listen\<close> answer for a new listener is given by a
  function of the listeners that are open and of the address; whether a callback can be registered,
  by a predicate.
\<close>

section \<open>State\<close>

record server_cluster =
  cl_sockets :: "(int, sockaddr_in) std_map"
  cl_servers :: "server list"
  cl_sockets_to_servers :: sockets_to_servers
  cl_clients :: "(int, client_session) std_map"
  cl_keep_alive_timeout :: "32 word"

definition cluster_empty :: server_cluster where
  [eval_simps]: "cluster_empty =
     \<lparr>cl_sockets = [], cl_servers = [], cl_sockets_to_servers = [], cl_clients = [],
      cl_keep_alive_timeout = 0\<rparr>"

type_synonym listen_kernel = "(int, sockaddr_in) std_map \<Rightarrow> sockaddr_in \<Rightarrow> int option \<times> bool \<times> bool"

section \<open>Listeners\<close>

definition listener_addr :: "listener \<Rightarrow> sockaddr_in" where
  [eval_simps]: "listener_addr address = GetIPv4SockAddr (fst address) (snd address)"

definition GetListenerFdForServer ::
  "listen_kernel \<Rightarrow> listener \<Rightarrow> server_cluster \<Rightarrow> (int \<times> server_cluster) outcome" where
  [eval_simps]: "GetListenerFdForServer os address c =
     (let addr = listener_addr address in
      case find (\<lambda>(_, open_addr). IsSameSockAddr open_addr addr) (cl_sockets c) of
        Some (sockfd, _) \<Rightarrow> Inr (sockfd, c)
      | None \<Rightarrow>
          (case os (cl_sockets c) addr of (socket_fd, bind_ok, listen_ok) \<Rightarrow>
             bind_outcome (MasterSocket_new socket_fd bind_ok listen_ok addr) (\<lambda>(sockfd, open_addr).
               Inr (sockfd, c\<lparr>cl_sockets := map_assign sockfd open_addr (cl_sockets c)\<rparr>))))"

fun MapListenersToServer ::
  "listen_kernel \<Rightarrow> listener list \<Rightarrow> server \<Rightarrow> server_cluster \<Rightarrow> server_cluster outcome" where
  "MapListenersToServer os [] serv c = Inr c"
| "MapListenersToServer os (l # ls) serv c =
     bind_outcome (GetListenerFdForServer os l c) (\<lambda>(sockfd, d).
       MapListenersToServer os ls serv
         (d\<lparr>cl_sockets_to_servers := map_assign sockfd
           (servers_of (cl_sockets_to_servers d) sockfd @ [serv]) (cl_sockets_to_servers d)\<rparr>))"

fun create_servers ::
  "listen_kernel \<Rightarrow> (int, string) std_map \<Rightarrow> server_config list \<Rightarrow> server_cluster \<Rightarrow> server_cluster outcome"
where
  "create_servers os pages [] c = Inr c"
| "create_servers os pages (conf # confs) c =
     (let serv = Server_new conf pages in
      bind_outcome (MapListenersToServer os (sc_listeners conf) serv
          (c\<lparr>cl_servers := cl_servers c @ [serv]\<rparr>))
        (create_servers os pages confs))"

definition CreateServers :: "listen_kernel \<Rightarrow> config \<Rightarrow> server_cluster \<Rightarrow> server_cluster outcome" where
  [eval_simps]: "CreateServers os cfg c =
     bind_outcome (create_servers os (hc_error_pages (cfg_http_config cfg))
         (hc_server_configs (cfg_http_config cfg)) c)
       (\<lambda>d. Inr (d\<lparr>cl_keep_alive_timeout := hc_keepalive_timeout (cfg_http_config cfg)\<rparr>))"

text \<open>The constructor.  \<open>LOG(FATAL)\<close> throws.\<close>

definition ServerCluster_new :: "listen_kernel \<Rightarrow> (int \<Rightarrow> bool) \<Rightarrow> config \<Rightarrow> server_cluster outcome" where
  [eval_simps]: "ServerCluster_new os can_register cfg =
     bind_outcome (CreateServers os cfg cluster_empty) (\<lambda>c.
       if list_all (\<lambda>(fd, _). can_register fd) (cl_sockets c) then Inr c else Inl Runtime_error)"

section \<open>Clients\<close>

text \<open>\<open>MasterSocketCallback::Call\<close>: \<open>accept_fd\<close> is the answer of \<open>accept\<close>.\<close>

definition MasterSocketCallback_Call ::
  "int \<Rightarrow> bool \<Rightarrow> int \<Rightarrow> int option \<Rightarrow> server_cluster \<Rightarrow> server_cluster outcome" where
  [eval_simps]: "MasterSocketCallback_Call now registered fd accept_fd c =
     (case map_find (cl_sockets c) fd of
        None \<Rightarrow> Inr c
      | Some _ \<Rightarrow>
          (case accept_fd of
             None \<Rightarrow> Inr c
           | Some client_fd \<Rightarrow>
               (case servers_of (cl_sockets_to_servers c) fd of
                  [] \<Rightarrow> Inl Undefined_behaviour
                | default_server # _ \<Rightarrow>
                    Inr (c\<lparr>cl_clients := map_assign client_fd
                      (ClientSession_new now registered fd default_server) (cl_clients c)\<rparr>))))"

text \<open>The loop of \<open>CheckClients_\<close>, which erases while it goes on.\<close>

fun check_clients ::
  "int \<Rightarrow> int \<Rightarrow> (int, client_session) std_map \<Rightarrow> (int, client_session) std_map" where
  "check_clients now timeout [] = []"
| "check_clients now timeout ((fd, client) # clients) =
     (if cs_closed client then check_clients now timeout clients
      else if timeout < now - cs_last_activity client
      then (fd, CloseConnection client) # check_clients now timeout clients
      else (fd, client) # check_clients now timeout clients)"

definition CheckClients :: "int \<Rightarrow> server_cluster \<Rightarrow> server_cluster" where
  [eval_simps]: "CheckClients now c =
     c\<lparr>cl_clients := check_clients now (uint (cl_keep_alive_timeout c)) (cl_clients c)\<rparr>"

definition KillAllClients :: "server_cluster \<Rightarrow> server_cluster" where
  [eval_simps]: "KillAllClients c =
     c\<lparr>cl_clients := map (\<lambda>(fd, client). (fd, CloseConnection client)) (cl_clients c)\<rparr>"

section \<open>The loop\<close>

datatype cluster_event =
    Connection int bool int "int option"
  | Client_event int session_event
  | Check int

fun cluster_step :: "cluster_event \<Rightarrow> server_cluster \<Rightarrow> server_cluster outcome" where
  "cluster_step (Connection now registered fd accept_fd) c =
     MasterSocketCallback_Call now registered fd accept_fd c"
| "cluster_step (Client_event fd ev) c =
     (case map_find (cl_clients c) fd of
        None \<Rightarrow> Inr c
      | Some s \<Rightarrow> bind_outcome (session_step ev s) (\<lambda>t.
          Inr (c\<lparr>cl_clients := map_assign fd t (cl_clients c)\<rparr>)))"
| "cluster_step (Check now) c = Inr (CheckClients now c)"

text \<open>
  A turn of \<open>Run\<close>: the callbacks that \<open>CheckOnce\<close> calls, and then the look at the clients.  When an
  allocation fails inside a callback, \<open>interrupted\<close> is what it left of the cluster, which can be anything.
  Any other exception leaves the loop.
\<close>

definition Run_turn ::
  "cluster_event list \<Rightarrow> server_cluster option \<Rightarrow> int \<Rightarrow> server_cluster \<Rightarrow> server_cluster outcome" where
  [eval_simps]: "Run_turn callbacks interrupted now c =
     bind_outcome (run_events cluster_step c callbacks) (\<lambda>d.
       Inr (CheckClients now (case interrupted of None \<Rightarrow> d | Some half_done \<Rightarrow> KillAllClients half_done)))"

section \<open>Which servers listen where\<close>

text \<open>The servers and listeners in the order of the configuration, and those for an address.\<close>

definition wanted :: "config \<Rightarrow> (server \<times> listener) list" where
  [eval_simps]: "wanted cfg =
     concat (map (\<lambda>sc. map (Pair (Server_new sc (hc_error_pages (cfg_http_config cfg)))) (sc_listeners sc))
       (hc_server_configs (cfg_http_config cfg)))"

definition servers_at :: "sockaddr_in \<Rightarrow> (server \<times> listener) list \<Rightarrow> server list" where
  [eval_simps]: "servers_at a ws = map fst (filter (\<lambda>w. listener_addr (snd w) = a) ws)"

definition listens :: "server_cluster \<Rightarrow> (server \<times> listener) list \<Rightarrow> bool" where
  "listens c ws \<longleftrightarrow>
     (\<forall>fd a. map_find (cl_sockets c) fd = Some a \<longrightarrow>
        servers_of (cl_sockets_to_servers c) fd = servers_at a ws \<and> servers_at a ws \<noteq> []) \<and>
     (\<forall>fd. map_find (cl_sockets c) fd = None \<longrightarrow> servers_of (cl_sockets_to_servers c) fd = []) \<and>
     (\<forall>w\<in>set ws. \<exists>!fd. map_find (cl_sockets c) fd = Some (listener_addr (snd w)))"

definition fresh_fds :: "listen_kernel \<Rightarrow> bool" where
  "fresh_fds os \<longleftrightarrow>
     (\<forall>socks a fd. fst (os socks a) = Some fd \<longrightarrow> map_find socks fd = None)"

lemma map_find_in_set:
  assumes "map_sorted m"
  shows "(k, v) \<in> set m \<longleftrightarrow> map_find m k = Some v"
proof -
  have "distinct (map fst m)" using assms strict_sorted_iff by (auto simp: map_sorted_def)
  then show ?thesis by (simp add: map_find_def)
qed

lemma servers_of_assign: "servers_of (map_assign fd srvs m) = (servers_of m)(fd := srvs)"
  by (auto simp: servers_of_def map_find_assign fun_eq_iff)

lemma servers_at_append: "servers_at a (ws @ [(srv, l)]) =
    servers_at a ws @ (if listener_addr l = a then [srv] else [])"
  by (simp add: servers_at_def)

lemma listensD:
  assumes "listens c ws"
  shows "map_find (cl_sockets c) k = Some a \<Longrightarrow> servers_of (cl_sockets_to_servers c) k = servers_at a ws"
    "map_find (cl_sockets c) k = Some a \<Longrightarrow> servers_at a ws \<noteq> []"
    "map_find (cl_sockets c) k = None \<Longrightarrow> servers_of (cl_sockets_to_servers c) k = []"
    "w \<in> set ws \<Longrightarrow> \<exists>!k. map_find (cl_sockets c) k = Some (listener_addr (snd w))"
  using assms unfolding listens_def by blast+

abbreviation push_server :: "int \<Rightarrow> server \<Rightarrow> server_cluster \<Rightarrow> server_cluster" where
  "push_server fd srv c \<equiv> c\<lparr>cl_sockets_to_servers := map_assign fd
     (servers_of (cl_sockets_to_servers c) fd @ [srv]) (cl_sockets_to_servers c)\<rparr>"

text \<open>A server is added to a listener that is open, or to a new one.\<close>

lemma listens_known:
  assumes "listens c ws" and found: "map_find (cl_sockets c) fd = Some (listener_addr l)"
  shows "listens (push_server fd srv c) (ws @ [(srv, l)])"
proof -
  obtain w where w: "w \<in> set ws" "listener_addr (snd w) = listener_addr l"
    using listensD(2) [OF assms] by (auto simp: servers_at_def filter_empty_conv)
  have other: "k = fd" if "map_find (cl_sockets c) k = Some (listener_addr l)" for k
    using listensD(4) [OF assms(1) w(1)] w(2) that found by auto
  let ?s = "servers_of (cl_sockets_to_servers c)"
  have at: "(?s(fd := ?s fd @ [srv])) k = servers_at a (ws @ [(srv, l)])"
    "servers_at a (ws @ [(srv, l)]) \<noteq> []" if k: "map_find (cl_sockets c) k = Some a" for k a
    using k found other [of k] listensD(1,2) [OF assms(1) k] by (auto simp: servers_at_append)
  have closed: "(?s(fd := ?s fd @ [srv])) k = []" if "map_find (cl_sockets c) k = None" for k
    using that found listensD(3) [OF assms(1) that] by auto
  have one: "\<exists>!k. map_find (cl_sockets c) k = Some (listener_addr (snd v))" if "v \<in> set (ws @ [(srv, l)])" for v
    using that listensD(4) [OF assms(1), of v] found other by (cases "v = (srv, l)") (simp, blast, simp)
  show ?thesis
    using at closed one by (simp add: listens_def servers_of_assign)
qed

lemma listens_opened:
  assumes "listens c ws" and free: "map_find (cl_sockets c) fd = None"
    and absent: "\<And>k. map_find (cl_sockets c) k \<noteq> Some (listener_addr l)"
  shows "listens (push_server fd srv (c\<lparr>cl_sockets := map_assign fd (listener_addr l) (cl_sockets c)\<rparr>)) (ws @ [(srv, l)])"
proof -
  let ?m = "(map_find (cl_sockets c))(fd \<mapsto> listener_addr l)"
  let ?s = "(servers_of (cl_sockets_to_servers c))(fd := [srv])"
  have none: "listener_addr (snd w) \<noteq> listener_addr l" if "w \<in> set ws" for w
    using listensD(4) [OF assms(1) that] absent by metis
  then have new: "servers_at (listener_addr l) ws = []" by (auto simp: servers_at_def filter_empty_conv)
  have at: "?s k = servers_at a (ws @ [(srv, l)])" "servers_at a (ws @ [(srv, l)]) \<noteq> []" if k: "?m k = Some a" for k a
    using k new absent [of k] listensD(1,2) [OF assms(1), of k a]
    by (auto simp: servers_at_append split: if_splits)
  have closed: "?s k = []" if "?m k = None" for k
    using that listensD(3) [OF assms(1), of k] by (auto split: if_splits)
  have one: "\<exists>!k. ?m k = Some (listener_addr (snd v))" if v: "v \<in> set (ws @ [(srv, l)])" for v
  proof (cases "v = (srv, l)")
    case True
    then show ?thesis using absent by (intro ex1I [of _ fd]) (auto split: if_splits)
  next
    case False
    with v have old: "v \<in> set ws" by simp
    then obtain k where k: "map_find (cl_sockets c) k = Some (listener_addr (snd v))"
      "\<And>j. map_find (cl_sockets c) j = Some (listener_addr (snd v)) \<Longrightarrow> j = k"
      using listensD(4) [OF assms(1) old] by blast
    have "k \<noteq> fd" using k(1) free by auto
    then have "?m k = Some (listener_addr (snd v))" using k(1) by simp
    moreover have "j = k" if "?m j = Some (listener_addr (snd v))" for j
      using that none [OF old] k(2) [of j] by (cases "j = fd") simp_all
    ultimately show ?thesis by blast
  qed
  let ?t = "push_server fd srv (c\<lparr>cl_sockets := map_assign fd (listener_addr l) (cl_sockets c)\<rparr>)"
  have t: "map_find (cl_sockets ?t) = ?m" "servers_of (cl_sockets_to_servers ?t) = ?s"
    using listensD(3) [OF assms(1) free] by (simp_all add: servers_of_assign map_find_assign)
  show ?thesis
    unfolding listens_def t using at closed one by blast
qed

lemma listener_step:
  assumes "listens c ws" "map_sorted (cl_sockets c)" "fresh_fds os"
    and "GetListenerFdForServer os l c = Inr (fd, d)"
  shows "listens (push_server fd srv d) (ws @ [(srv, l)]) \<and> map_sorted (cl_sockets d)"
proof (cases "find (\<lambda>(_, a). IsSameSockAddr a (listener_addr l)) (cl_sockets c)")
  case (Some p)
  with assms(4) have "p = (fd, snd p)" and d: "d = c"
    by (auto simp: GetListenerFdForServer_def Let_def split: prod.splits)
  with Some have "(fd, listener_addr l) \<in> set (cl_sockets c)"
    by (auto simp: find_Some_iff IsSameSockAddr_def in_set_conv_nth split: prod.splits) (metis prod.collapse)
  then have "map_find (cl_sockets c) fd = Some (listener_addr l)"
    using assms(2) by (simp add: map_find_in_set)
  from listens_known [OF assms(1) this] show ?thesis using assms(2) d by simp
next
  case None
  obtain ok1 ok2 skt where os: "os (cl_sockets c) (listener_addr l) = (skt, ok1, ok2)"
    by (cases "os (cl_sockets c) (listener_addr l)")
  with None assms(4) have skt: "skt = Some fd"
    and d: "d = c\<lparr>cl_sockets := map_assign fd (listener_addr l) (cl_sockets c)\<rparr>"
    by (auto simp: GetListenerFdForServer_def Let_def MasterSocket_new_Inr bind_outcome_Inr_iff
        split: option.splits if_splits)
  have free: "map_find (cl_sockets c) fd = None"
    using os skt assms(3) unfolding fresh_fds_def by (metis fst_conv)
  have absent: "map_find (cl_sockets c) k \<noteq> Some (listener_addr l)" for k
    using None assms(2) by (auto simp: find_None_iff IsSameSockAddr_def simp flip: map_find_in_set)
  from listens_opened [OF assms(1) free absent] show ?thesis
    using assms(2) d by (simp add: map_sorted_assign)
qed

lemma MapListenersToServer_listens:
  assumes "fresh_fds os"
  shows "listens c ws \<Longrightarrow> map_sorted (cl_sockets c) \<Longrightarrow> MapListenersToServer os ls srv c = Inr d \<Longrightarrow>
    listens d (ws @ map (Pair srv) ls) \<and> map_sorted (cl_sockets d)"
proof (induction ls arbitrary: c ws)
  case (Cons l ls)
  then obtain fd e where e: "GetListenerFdForServer os l c = Inr (fd, e)"
    "MapListenersToServer os ls srv (push_server fd srv e) = Inr d"
    by (auto simp: bind_outcome_Inr_iff)
  from listener_step [OF Cons.prems(1,2) assms e(1), of srv] have
    "listens (push_server fd srv e) (ws @ [(srv, l)])" "map_sorted (cl_sockets (push_server fd srv e))" by simp_all
  from Cons.IH [OF this e(2)] show ?case by simp
qed simp

lemma create_servers_listens:
  assumes "fresh_fds os"
  shows "listens c ws \<Longrightarrow> map_sorted (cl_sockets c) \<Longrightarrow> create_servers os pages confs c = Inr d \<Longrightarrow>
    listens d (ws @ concat (map (\<lambda>sc. map (Pair (Server_new sc pages)) (sc_listeners sc)) confs))
      \<and> map_sorted (cl_sockets d)"
proof (induction confs arbitrary: c ws)
  case (Cons conf confs)
  let ?c = "c\<lparr>cl_servers := cl_servers c @ [Server_new conf pages]\<rparr>"
  from Cons.prems obtain e where e: "MapListenersToServer os (sc_listeners conf) (Server_new conf pages) ?c = Inr e"
    "create_servers os pages confs e = Inr d"
    by (auto simp: bind_outcome_Inr_iff Let_def)
  have "listens ?c ws" "map_sorted (cl_sockets ?c)" using Cons.prems by (simp_all add: listens_def)
  from MapListenersToServer_listens [OF assms this e(1)]
  have "listens e (ws @ map (Pair (Server_new conf pages)) (sc_listeners conf))" "map_sorted (cl_sockets e)" by simp_all
  from Cons.IH [OF this e(2)] show ?case by simp
qed simp

lemma cluster_listening:
  assumes "fresh_fds os" "ServerCluster_new os can_register cfg = Inr c"
  shows "listens c (wanted cfg) \<and> map_sorted (cl_sockets c)"
proof -
  from assms(2) obtain d where d: "create_servers os (hc_error_pages (cfg_http_config cfg))
      (hc_server_configs (cfg_http_config cfg)) cluster_empty = Inr d"
    "c = d\<lparr>cl_keep_alive_timeout := hc_keepalive_timeout (cfg_http_config cfg)\<rparr>"
    by (auto simp: ServerCluster_new_def CreateServers_def bind_outcome_Inr_iff split: if_splits)
  have "listens cluster_empty []" "map_sorted (cl_sockets cluster_empty)"
    by (simp_all add: listens_def cluster_empty_def servers_of_def map_find_def)
  from create_servers_listens [OF assms(1) this d(1)] show ?thesis
    by (simp add: d(2) wanted_def listens_def)
qed

section \<open>Every session of the cluster\<close>

text \<open>
  What holds between two callbacks: every listener is ready for requests, and every client came from
  one of them and has the invariant of a session.
\<close>

definition cluster_inv :: "server_cluster \<Rightarrow> bool" where
  "cluster_inv c \<longleftrightarrow>
     (\<forall>fd a. map_find (cl_sockets c) fd = Some a \<longrightarrow> listener_ready (cl_sockets_to_servers c) fd) \<and>
     map_sorted (cl_clients c) \<and>
     (\<forall>(fd, s)\<in>set (cl_clients c). listener_ready (cl_sockets_to_servers c) (cs_master_fd s) \<and>
        session_inv (cl_sockets_to_servers c) (cs_master_fd s) s)"

fun cluster_guard :: "cluster_event \<Rightarrow> server_cluster \<Rightarrow> bool" where
  "cluster_guard (Client_event fd ev) c \<longleftrightarrow>
     (case map_find (cl_clients c) fd of None \<Rightarrow> True
      | Some s \<Rightarrow> session_guard (cl_sockets_to_servers c) ev s)"
| "cluster_guard _ c \<longleftrightarrow> True"

text \<open>What the environment promises of the clients, and what is left out beyond that.\<close>

fun cluster_promise :: "cluster_event \<Rightarrow> server_cluster \<Rightarrow> bool" where
  "cluster_promise (Client_event fd ev) c \<longleftrightarrow>
     (case map_find (cl_clients c) fd of None \<Rightarrow> True
      | Some s \<Rightarrow> session_promise (cl_sockets_to_servers c) ev s)"
| "cluster_promise _ c \<longleftrightarrow> True"

lemma cluster_unguarded:
  assumes "cluster_promise ev c" "\<not> cluster_guard ev c"
  shows "\<exists>fd e pack s. ev = Client_event fd (Readable e pack) \<and> map_find (cl_clients c) fd = Some s \<and> read_fails e pack s"
proof (cases ev)
  case (Client_event fd sev)
  with assms obtain s where "map_find (cl_clients c) fd = Some s" "event_fails sev s"
    by (auto simp: session_guard_iff simp del: session_guard.simps session_promise.simps split: option.splits)
  with Client_event show ?thesis by (auto simp: event_fails_def split: session_event.splits)
qed (use assms in simp_all)

definition no_session_stuck :: "server_cluster \<Rightarrow> bool" where
  "no_session_stuck c \<longleftrightarrow> (\<forall>fd s. map_find (cl_clients c) fd = Some s \<longrightarrow> not_stuck s)"

lemma servers_ready:
  assumes "config_valid cfg"
    and "\<forall>sc\<in>set (hc_server_configs (cfg_http_config cfg)). \<forall>lc\<in>set (sc_locations sc). NUL \<notin> set (fst (lc_route lc))"
    and "(srv, l) \<in> set (wanted cfg)"
  shows "[] \<notin> set (server_names srv) \<and> (\<forall>loc\<in>set (locations srv). location_ready loc)"
proof -
  from assms(3) obtain sc where sc: "sc \<in> set (hc_server_configs (cfg_http_config cfg))"
    "srv = Server_new sc (hc_error_pages (cfg_http_config cfg))"
    by (auto simp: wanted_def)
  with assms(1) have v: "server_valid sc" by (simp add: config_valid_def)
  have "\<not> name_accepted []" by (auto simp: name_accepted_def dotted_def CheckComponentSeparatedByDots_def)
  then have "[] \<notin> set (server_names srv)" using v sc(2) by (auto simp: server_valid_def Server_new_def)
  moreover have "location_ready (Location_new lc)" if "lc \<in> set (sc_locations sc)" for lc
    using v that assms(2) sc(1) by (auto simp: server_valid_def location_valid_def location_ready_def Location_new_def)
  ultimately show ?thesis using sc(2) by (auto simp: Server_new_def)
qed

lemma MapListenersToServer_clients:
  "MapListenersToServer os ls srv c = Inr d \<Longrightarrow> cl_clients d = cl_clients c"
  by (induction os ls srv c rule: MapListenersToServer.induct)
    (auto simp: bind_outcome_Inr_iff GetListenerFdForServer_def Let_def split: option.splits prod.splits)

lemma create_servers_clients: "create_servers os pages confs c = Inr d \<Longrightarrow> cl_clients d = cl_clients c"
proof (induction confs arbitrary: c)
  case (Cons conf confs)
  then obtain e where e: "MapListenersToServer os (sc_listeners conf) (Server_new conf pages)
      (c\<lparr>cl_servers := cl_servers c @ [Server_new conf pages]\<rparr>) = Inr e" "create_servers os pages confs e = Inr d"
    by (auto simp: bind_outcome_Inr_iff Let_def)
  from MapListenersToServer_clients [OF e(1)] Cons.IH [OF e(2)] show ?case by simp
qed simp

lemma no_clients_yet: "ServerCluster_new os can_register cfg = Inr c \<Longrightarrow> cl_clients c = []"
  using create_servers_clients
  by (fastforce simp: ServerCluster_new_def CreateServers_def bind_outcome_Inr_iff cluster_empty_def split: if_splits)

lemma cluster_started:
  assumes "fresh_fds os" "ServerCluster_new os can_register cfg = Inr c" "config_valid cfg"
    and "\<forall>sc\<in>set (hc_server_configs (cfg_http_config cfg)). \<forall>lc\<in>set (sc_locations sc). NUL \<notin> set (fst (lc_route lc))"
  shows "cluster_inv c"
proof -
  from cluster_listening [OF assms(1,2)] have li: "listens c (wanted cfg)" by simp
  have "listener_ready (cl_sockets_to_servers c) fd" if "map_find (cl_sockets c) fd = Some a" for fd a
    using listensD(1,2) [OF li that] servers_ready [OF assms(3,4)]
    by (auto simp: listener_ready_def servers_at_def)
  moreover have "cl_clients c = []" by (rule no_clients_yet [OF assms(2)])
  ultimately show ?thesis by (simp add: cluster_inv_def)
qed

lemma check_clients_set:
  "set (check_clients now t m) \<subseteq> set m \<union> {(fd, CloseConnection s) | fd s. (fd, s) \<in> set m}"
  by (induction now t m rule: check_clients.induct) auto

lemma check_clients_sorted: "map_sorted m \<Longrightarrow> map_sorted (check_clients now t m)"
proof (induction now t m rule: check_clients.induct)
  case (2 now t fd s m)
  moreover have "fst ` set (check_clients now t m) \<subseteq> fst ` set m" using check_clients_set [of now t m] by force
  then have "\<forall>j\<in>fst ` set m. fd < j \<Longrightarrow> \<forall>j\<in>fst ` set (check_clients now t m). fd < j" by blast
  ultimately show ?case by simp
qed simp

lemma CloseConnection_inv: "session_inv m fd s \<Longrightarrow> session_inv m fd (CloseConnection s)"
  by (simp add: CloseConnection_def session_inv_def not_stuck_def)

lemma CloseConnection_master [simp]: "cs_master_fd (CloseConnection s) = cs_master_fd s"
  by (simp add: CloseConnection_def)

text \<open>
  A session is a client of a listener, so every handler of the cluster rests on the handler of a
  session, and on the laws of the map of clients.
\<close>

lemma map_find_set: "map_find m k = Some v \<Longrightarrow> (k, v) \<in> set m"
  by (simp add: map_find_def map_of_SomeD)

lemma cluster_client_inv:
  assumes "cluster_inv c" "map_sorted m"
    and "\<And>fd s. (fd, s) \<in> set m \<Longrightarrow> listener_ready (cl_sockets_to_servers c) (cs_master_fd s) \<and>
      session_inv (cl_sockets_to_servers c) (cs_master_fd s) s"
  shows "cluster_inv (c\<lparr>cl_clients := m\<rparr>)"
  using assms by (auto simp: cluster_inv_def)

lemma cluster_handler:
  assumes "cluster_inv c" "cluster_guard ev c"
  shows "\<exists>d. cluster_step ev c = Inr d \<and> cluster_inv d"
proof -
  have sorted: "map_sorted (cl_clients c)"
    and clients: "\<And>fd s. (fd, s) \<in> set (cl_clients c) \<Longrightarrow>
      listener_ready (cl_sockets_to_servers c) (cs_master_fd s) \<and> session_inv (cl_sockets_to_servers c) (cs_master_fd s) s"
    using assms(1) by (auto simp: cluster_inv_def)
  show ?thesis
  proof (cases ev)
    case (Connection now registered fd client)
    show ?thesis
    proof (cases "map_find (cl_sockets c) fd = None \<or> client = None")
      case True
      with assms(1) Connection show ?thesis by (auto simp: MasterSocketCallback_Call_def split: option.split)
    next
      case False
      then obtain a k where "map_find (cl_sockets c) fd = Some a" "client = Some k" by auto
      moreover have ready: "listener_ready (cl_sockets_to_servers c) fd"
        using assms(1) calculation(1) by (auto simp: cluster_inv_def)
      then obtain srv srvs where "servers_of (cl_sockets_to_servers c) fd = srv # srvs"
        by (cases "servers_of (cl_sockets_to_servers c) fd") (auto simp: listener_ready_def)
      ultimately have "cluster_step ev c = Inr (c\<lparr>cl_clients :=
          map_assign k (ClientSession_new now registered fd srv) (cl_clients c)\<rparr>)"
        by (simp add: Connection MasterSocketCallback_Call_def)
      moreover have "cs_master_fd (ClientSession_new now registered fd srv) = fd" by (simp add: ClientSession_new_def)
      then have "cluster_inv (c\<lparr>cl_clients := map_assign k (ClientSession_new now registered fd srv) (cl_clients c)\<rparr>)"
        using sorted clients ready session_new_inv set_map_assign [of k _ "cl_clients c"]
        by (intro cluster_client_inv [OF assms(1)]) (fastforce simp: map_sorted_assign)+
      ultimately show ?thesis by blast
    qed
  next
    case (Client_event fd sev)
    show ?thesis
    proof (cases "map_find (cl_clients c) fd")
      case None
      with assms(1) Client_event show ?thesis by simp
    next
      case (Some s)
      note s = clients [OF map_find_set [OF Some]]
      obtain t where t: "session_step sev s = Inr t" "session_inv (cl_sockets_to_servers c) (cs_master_fd s) t"
        using session_handler [of _ _ s sev] s assms(2) Some Client_event by auto
      have m: "cs_master_fd t = cs_master_fd s" using t(2) by (simp add: session_inv_def)
      have "cluster_inv (c\<lparr>cl_clients := map_assign fd t (cl_clients c)\<rparr>)"
        using sorted clients s t(2) m set_map_assign [of fd t "cl_clients c"]
        by (intro cluster_client_inv [OF assms(1)]) (fastforce simp: map_sorted_assign)+
      with Some t(1) Client_event show ?thesis by simp
    qed
  next
    case (Check now)
    have "cluster_inv (CheckClients now c)"
      unfolding CheckClients_def
      using clients CloseConnection_inv check_clients_sorted [OF sorted] check_clients_set [of now _ "cl_clients c"]
      by (intro cluster_client_inv [OF assms(1)]) fastforce+
    with Check show ?thesis by simp
  qed
qed

interpretation cluster: guarded_machine cluster_step cluster_guard cluster_inv
  by unfold_locales (rule cluster_handler)

section \<open>The properties of the cluster\<close>

lemma check_clients_find:
  assumes "map_sorted m"
  shows "map_find (check_clients now t m) fd =
    (case map_find m fd of None \<Rightarrow> None
     | Some s \<Rightarrow> if cs_closed s then None
         else Some (if t < now - cs_last_activity s then CloseConnection s else s))"
  using assms
proof (induction now t m rule: check_clients.induct)
  case (2 now t k s m)
  have "map_of m k = None" using 2(4) by (intro map_of_above_None) simp
  with 2 show ?case by (cases "fd = k") (auto simp: map_find_def split: if_splits)
qed (simp add: map_find_def)

text \<open>For every address that the configuration names, there is exactly one listener, and it hands
  its requests to the servers that name the address, in their order; no other address is listened on.\<close>

lemma cluster_listens:
  assumes "fresh_fds os" "ServerCluster_new os can_register cfg = Inr c"
  shows "(\<forall>w\<in>set (wanted cfg). \<exists>!fd. map_find (cl_sockets c) fd = Some (listener_addr (snd w))) \<and>
    (\<forall>fd a. map_find (cl_sockets c) fd = Some a \<longrightarrow>
       servers_of (cl_sockets_to_servers c) fd = servers_at a (wanted cfg) \<and>
       (\<exists>w\<in>set (wanted cfg). listener_addr (snd w) = a))"
proof -
  from cluster_listening [OF assms] have li: "listens c (wanted cfg)" by simp
  have "\<exists>w\<in>set (wanted cfg). listener_addr (snd w) = a" if "map_find (cl_sockets c) fd = Some a" for fd a
    using listensD(2) [OF li that] by (auto simp: servers_at_def filter_empty_conv)
  with listensD(1,4) [OF li] show ?thesis by blast
qed

text \<open>When memory was short in a turn, whatever the callback that was interrupted left, all sessions are gone.\<close>

lemma all_closed_dropped: "\<forall>(fd, s)\<in>set m. cs_closed s \<Longrightarrow> check_clients now timeout m = []"
  by (induction now timeout m rule: check_clients.induct) auto

lemma out_of_memory_drops_all:
  assumes "Run_turn callbacks (Some half_done) now c = Inr d"
  shows "cl_clients d = [] \<and> cl_sockets d = cl_sockets half_done"
proof -
  have "check_clients now t (map (\<lambda>(fd, s). (fd, CloseConnection s)) m) = []" for t m
    by (rule all_closed_dropped) (auto simp: CloseConnection_def)
  with assms show ?thesis
    by (auto simp: Run_turn_def KillAllClients_def CheckClients_def bind_outcome_Inr_iff)
qed

lemma cluster_inv_not_stuck: "cluster_inv c \<Longrightarrow> no_session_stuck c"
  using map_find_set by (fastforce simp: cluster_inv_def no_session_stuck_def session_inv_def)


text \<open>C38: the look at the clients drops those that are closed, closes those that were idle for longer than
  the timeout, and leaves all others as they are; so an idle client is gone after two looks.\<close>

theorem CheckClients_reaps:
  assumes "map_sorted (cl_clients c)" "map_find (cl_clients c) fd = Some s"
  shows "map_find (cl_clients (CheckClients now c)) fd =
      (if cs_closed s then None
       else if uint (cl_keep_alive_timeout c) < now - cs_last_activity s then Some (CloseConnection s)
       else Some s) \<and>
    (cs_closed s \<or> uint (cl_keep_alive_timeout c) < now - cs_last_activity s \<longrightarrow>
       map_find (cl_clients (CheckClients later (CheckClients now c))) fd = None)"
proof -
  have "map_sorted (cl_clients (CheckClients now c))" using assms(1) by (simp add: CheckClients_def check_clients_sorted)
  with assms show ?thesis by (auto simp: CheckClients_def check_clients_find CloseConnection_def)
qed

section \<open>The properties on concrete input\<close>

definition example_os :: listen_kernel where
  [eval_simps]: "example_os socks a = (if socks = [] then Some 3 else None, True, True)"

definition example_cluster :: server_cluster where
  [eval_simps]: "example_cluster =
     \<lparr>cl_sockets = [(3, GetIPv4SockAddr 0 81)],
      cl_servers = [Server_new (hd (hc_server_configs (cfg_http_config example_parsed))) [(404, ''/e.html'')]],
      cl_sockets_to_servers =
        [(3, [Server_new (hd (hc_server_configs (cfg_http_config example_parsed))) [(404, ''/e.html'')]])],
      cl_clients = [], cl_keep_alive_timeout = 65\<rparr>"

lemma example_cluster_made:
  "fresh_fds example_os" "ServerCluster_new example_os (\<lambda>_. True) example_parsed = Inr example_cluster"
  by (simp_all add: fresh_fds_def map_find_def ServerCluster_new_def CreateServers_def cluster_empty_def
      GetListenerFdForServer_def MasterSocket_new_def Socket_new_def BindAndListen_def example_os_def example_parsed_def example_cluster_def
      listener_addr_def servers_of_def Let_def)

lemma cluster_listens_example:
  "\<exists>!fd. map_find (cl_sockets example_cluster) fd = Some (GetIPv4SockAddr 0 81)"
  using cluster_listens [OF example_cluster_made]
  by (simp add: wanted_def example_parsed_def listener_addr_def)

text \<open>A client connects, hangs up, and is dropped.\<close>

definition example_turn :: "cluster_event list" where
  "example_turn = [Connection 1 True 3 (Some 7),
     Client_event 7 (Readable (example_session_env\<lparr>se_servers := cl_sockets_to_servers example_cluster\<rparr>)
       (Socket_Recv 0 [])), Check 1]"

lemma example_turn_can_happen: "can_happen cluster_step cluster_promise example_cluster example_turn"
proof -
  have "\<not> IsDirectory (pe_fs (se_proc (example_session_env\<lparr>se_servers := m\<rparr>))) []" for m
    using example_ready(2) by (simp add: system_ok_def)
  then show ?thesis
    by (simp add: example_turn_def MasterSocketCallback_Call_def example_cluster_def servers_of_def map_find_def
        ClientSession_new_def OnReadyToRecv_def Socket_Recv_def CloseConnection_def)
qed

text \<open>The read of the example only finds the end of the connection.\<close>

lemma example_turn_survived: "Client_event fd (Readable e pack) \<in> set example_turn \<Longrightarrow> \<not> read_fails e pack s"
  by (auto simp: example_turn_def read_fails_def Socket_Recv_def)


theorem CheckClients_reaps_witness:
  "map_find (cl_clients (CheckClients 201 (CheckClients 100
     (example_cluster\<lparr>cl_clients := [(7, ClientSession_new 1 True 3 example_server)]\<rparr>)))) 7 = None"
  using CheckClients_reaps [of "example_cluster\<lparr>cl_clients := [(7, ClientSession_new 1 True 3 example_server)]\<rparr>"
      7 "ClientSession_new 1 True 3 example_server" 100 201]
  by (simp add: map_find_def example_cluster_def ClientSession_new_def)

end
