(* ===== verification/SharedPtr.thy ===== *)
theory SharedPtr
  imports StdMap Machine "HOL-Library.Multiset"
begin

text \<open>
  \<open>src/utils/shared_ptr.h\<close>: the reference-counted pointer, over an explicit heap of the objects it owns
  and of the counters.  An address is a number, and \<open>NULL\<close> is zero.  Deleting what is not alive, and
  reading or writing a counter that is not alive, is \<open>Undefined_behaviour\<close>.
\<close>

section \<open>Heap\<close>

type_synonym address = nat

abbreviation NULL :: address where "NULL \<equiv> 0"

record heap =
  hp_objects :: "address list"
  hp_counters :: "(address, int) std_map"

definition delete_object :: "address \<Rightarrow> heap \<Rightarrow> heap outcome" where
  [eval_simps]: "delete_object p h =
     (if p = NULL then Inr h
      else if p \<in> set (hp_objects h) then Inr (h\<lparr>hp_objects := remove1 p (hp_objects h)\<rparr>)
      else Inl Undefined_behaviour)"

definition read_counter :: "address \<Rightarrow> heap \<Rightarrow> int outcome" where
  [eval_simps]: "read_counter r h =
     (case map_find (hp_counters h) r of None \<Rightarrow> Inl Undefined_behaviour | Some n \<Rightarrow> Inr n)"

definition write_counter :: "address \<Rightarrow> int \<Rightarrow> heap \<Rightarrow> heap" where
  [eval_simps]: "write_counter r n h = h\<lparr>hp_counters := map_assign r n (hp_counters h)\<rparr>"

definition delete_counter :: "address \<Rightarrow> heap \<Rightarrow> heap" where
  [eval_simps]: "delete_counter r h = h\<lparr>hp_counters := map_erase r (hp_counters h)\<rparr>"

text \<open>\<open>new long(1)\<close>: the address comes from the allocator, which may refuse.\<close>

type_synonym allocator = "(address, int) std_map \<Rightarrow> address option"

section \<open>The pointer\<close>

record shared_ptr =
  raw_ptr :: address
  ref_cnt :: address

definition shared_null :: shared_ptr where
  [eval_simps]: "shared_null = \<lparr>raw_ptr = NULL, ref_cnt = NULL\<rparr>"

definition acquire :: "allocator \<Rightarrow> address \<Rightarrow> shared_ptr \<Rightarrow> heap \<Rightarrow> (shared_ptr \<times> heap) outcome" where
  [eval_simps]: "acquire alloc p s h =
     (if p = NULL then Inr (s\<lparr>raw_ptr := p\<rparr>, h)
      else if ref_cnt s = NULL then
        (case alloc (hp_counters h) of
           None \<Rightarrow> bind_outcome (delete_object p h) (\<lambda>_. Inl Bad_alloc)
         | Some r \<Rightarrow> Inr (\<lparr>raw_ptr = p, ref_cnt = r\<rparr>, write_counter r 1 h))
      else bind_outcome (read_counter (ref_cnt s) h) (\<lambda>n.
        Inr (s\<lparr>raw_ptr := p\<rparr>, write_counter (ref_cnt s) (n + 1) h)))"

definition release :: "shared_ptr \<Rightarrow> heap \<Rightarrow> (shared_ptr \<times> heap) outcome" where
  [eval_simps]: "release s h =
     (if ref_cnt s = NULL then Inr (s, h)
      else bind_outcome (read_counter (ref_cnt s) h) (\<lambda>n.
        let h1 = write_counter (ref_cnt s) (n - 1) h in
        if n - 1 = 0 then bind_outcome (delete_object (raw_ptr s) h1) (\<lambda>h2.
          Inr (shared_null, delete_counter (ref_cnt s) h2))
        else Inr (shared_null, h1)))"

definition count_of :: "shared_ptr \<Rightarrow> heap \<Rightarrow> int outcome" where
  [eval_simps]: "count_of s h = (if ref_cnt s \<noteq> NULL then read_counter (ref_cnt s) h else Inr 0)"

definition shared_of :: "allocator \<Rightarrow> address \<Rightarrow> heap \<Rightarrow> (shared_ptr \<times> heap) outcome" where
  [eval_simps]: "shared_of alloc p h = acquire alloc p shared_null h"

text \<open>The copy constructors, and the one for casts, which takes the counter of one pointer and the address of another.\<close>

definition shared_copy :: "allocator \<Rightarrow> shared_ptr \<Rightarrow> heap \<Rightarrow> (shared_ptr \<times> heap) outcome" where
  [eval_simps]: "shared_copy alloc rhs h =
     bind_outcome (if raw_ptr rhs \<noteq> NULL then map_sum id (\<lambda>n. n = 0) (count_of rhs h) else Inr False) (\<lambda>uncoherent.
       if uncoherent then Inl Logic_error
       else acquire alloc (raw_ptr rhs) \<lparr>raw_ptr = NULL, ref_cnt = ref_cnt rhs\<rparr> h)"

definition shared_cast :: "allocator \<Rightarrow> shared_ptr \<Rightarrow> address \<Rightarrow> heap \<Rightarrow> (shared_ptr \<times> heap) outcome" where
  [eval_simps]: "shared_cast alloc rhs p h = acquire alloc p \<lparr>raw_ptr = NULL, ref_cnt = ref_cnt rhs\<rparr> h"

text \<open>The destructor, \<open>reset\<close> and \<open>swap\<close>.\<close>

definition shared_destroy :: "shared_ptr \<Rightarrow> heap \<Rightarrow> heap outcome" where
  [eval_simps]: "shared_destroy s h = map_sum id snd (release s h)"

definition shared_reset :: "shared_ptr \<Rightarrow> heap \<Rightarrow> (shared_ptr \<times> heap) outcome" where
  [eval_simps]: "shared_reset s h = release s h"

definition shared_swap :: "shared_ptr \<Rightarrow> shared_ptr \<Rightarrow> shared_ptr \<times> shared_ptr" where
  [eval_simps]: "shared_swap s lhs =
     (s\<lparr>raw_ptr := raw_ptr lhs, ref_cnt := ref_cnt lhs\<rparr>, lhs\<lparr>raw_ptr := raw_ptr s, ref_cnt := ref_cnt s\<rparr>)"

lemma shared_swap_eq [simp]: "shared_swap s lhs = (lhs, s)"
  by (cases s; cases lhs) (simp add: shared_swap_def)

text \<open>The argument of the assignment is a copy; it is swapped in, and destroyed with the old value in it.\<close>

definition shared_assign ::
  "allocator \<Rightarrow> shared_ptr \<Rightarrow> shared_ptr \<Rightarrow> heap \<Rightarrow> (shared_ptr \<times> heap) outcome" where
  [eval_simps]: "shared_assign alloc lhs rhs h =
     bind_outcome (shared_copy alloc rhs h) (\<lambda>(tmp, h1).
       case shared_swap lhs tmp of (new, old) \<Rightarrow>
         bind_outcome (shared_destroy old h1) (\<lambda>h2. Inr (new, h2)))"

definition shared_reset_to ::
  "allocator \<Rightarrow> address \<Rightarrow> shared_ptr \<Rightarrow> heap \<Rightarrow> (shared_ptr \<times> heap) outcome" where
  [eval_simps]: "shared_reset_to alloc p s h =
     (if p = raw_ptr s then Inr (s, h)
      else bind_outcome (release s h) (\<lambda>(s1, h1). acquire alloc p s1 h1))"

definition shared_bool :: "shared_ptr \<Rightarrow> heap \<Rightarrow> bool outcome" where
  [eval_simps]: "shared_bool s h = bind_outcome (count_of s h) (\<lambda>n. Inr (0 < n))"

definition shared_unique :: "shared_ptr \<Rightarrow> heap \<Rightarrow> bool outcome" where
  [eval_simps]: "shared_unique s h = bind_outcome (count_of s h) (\<lambda>n. Inr (1 = n))"

definition shared_deref :: "shared_ptr \<Rightarrow> heap \<Rightarrow> address outcome" where
  [eval_simps]: "shared_deref s h =
     (if raw_ptr s = NULL then Inl Runtime_error
      else if raw_ptr s \<in> set (hp_objects h) then Inr (raw_ptr s)
      else Inl Undefined_behaviour)"

definition static_pointer_cast :: "allocator \<Rightarrow> shared_ptr \<Rightarrow> heap \<Rightarrow> (shared_ptr \<times> heap) outcome" where
  [eval_simps]: "static_pointer_cast alloc s h = shared_cast alloc s (raw_ptr s) h"

text \<open>\<open>is_a\<close>: whether the object has the type of the cast.\<close>

definition dynamic_pointer_cast ::
  "allocator \<Rightarrow> (address \<Rightarrow> bool) \<Rightarrow> shared_ptr \<Rightarrow> heap \<Rightarrow> (shared_ptr \<times> heap) outcome" where
  [eval_simps]: "dynamic_pointer_cast alloc is_a s h =
     (let p = (if is_a (raw_ptr s) then raw_ptr s else NULL) in
      if p \<noteq> NULL then shared_cast alloc s p h else Inr (shared_null, h))"

section \<open>Owners and counters agree\<close>

text \<open>
  The pointers of a program as a multiset: an object is alive exactly while a pointer holds it, its
  counter says how many do, and pointers to the same object share the counter.
\<close>

definition holders :: "shared_ptr multiset \<Rightarrow> address \<Rightarrow> nat" where
  "holders M r = size (filter_mset (\<lambda>v. ref_cnt v = r) M)"

definition counters_agree :: "shared_ptr multiset \<Rightarrow> heap \<Rightarrow> bool" where
  "counters_agree M h \<longleftrightarrow> map_sorted (hp_counters h) \<and>
     (\<forall>r. map_find (hp_counters h) r =
        (if r \<noteq> NULL \<and> holders M r \<noteq> 0 then Some (int (holders M r)) else None))"

definition coherent :: "shared_ptr multiset \<Rightarrow> bool" where
  "coherent M \<longleftrightarrow> (\<forall>v\<in>#M. raw_ptr v = NULL \<longleftrightarrow> ref_cnt v = NULL) \<and>
     (\<forall>v\<in>#M. \<forall>w\<in>#M. raw_ptr v = raw_ptr w \<longleftrightarrow> ref_cnt v = ref_cnt w)"

definition owned :: "shared_ptr multiset \<Rightarrow> heap \<Rightarrow> bool" where
  "owned M h \<longleftrightarrow> counters_agree M h \<and> coherent M \<and> distinct (hp_objects h) \<and>
     set (hp_objects h) = raw_ptr ` set_mset M - {NULL}"

lemma holders_add [simp]: "holders (add_mset v M) r = holders M r + (if ref_cnt v = r then 1 else 0)"
  by (simp add: holders_def)

lemma holders_zero: "holders M r = 0 \<longleftrightarrow> (\<forall>v\<in>#M. ref_cnt v \<noteq> r)"
  by (induction M) (auto simp: holders_def)

lemma owned_empty: "owned {#} \<lparr>hp_objects = [], hp_counters = []\<rparr>"
  by (simp add: owned_def counters_agree_def coherent_def holders_def map_find_def)

lemma owned_null [simp]: "owned (add_mset shared_null M) h \<longleftrightarrow> owned M h"
  by (auto simp: owned_def counters_agree_def coherent_def shared_null_def)

definition alloc_ok :: "allocator \<Rightarrow> bool" where
  "alloc_ok alloc \<longleftrightarrow> (\<forall>m. \<exists>r. alloc m = Some r \<and> r \<noteq> NULL \<and> map_find m r = None)"

lemma acquire_new:
  assumes "owned M h" "alloc_ok alloc" "p \<noteq> NULL" "p \<notin> set (hp_objects h)"
  shows "\<exists>v k. acquire alloc p shared_null (h\<lparr>hp_objects := p # hp_objects h\<rparr>) = Inr (v, k) \<and>
    raw_ptr v = p \<and> owned (add_mset v M) k"
proof -
  from assms(2) obtain r where r: "alloc (hp_counters h) = Some r" "r \<noteq> NULL" "map_find (hp_counters h) r = None"
    unfolding alloc_ok_def by blast
  have free: "holders M r = 0"
    using r(2,3) assms(1) by (auto simp: owned_def counters_agree_def split: if_splits)
  have new: "raw_ptr w \<noteq> p" if "w \<in># M" for w using that assms(1,3,4) by (auto simp: owned_def)
  let ?v = "\<lparr>raw_ptr = p, ref_cnt = r\<rparr>"
  have "counters_agree (add_mset ?v M) (write_counter r 1 (h\<lparr>hp_objects := p # hp_objects h\<rparr>))"
    using assms(1) r(2) free
    by (auto simp: owned_def counters_agree_def write_counter_def map_find_assign map_sorted_assign)
  moreover have "coherent (add_mset ?v M)"
    using assms(1,3) r(2) new free holders_zero [of M r] by (auto simp: owned_def coherent_def)
  ultimately have "owned (add_mset ?v M) (write_counter r 1 (h\<lparr>hp_objects := p # hp_objects h\<rparr>))"
    using assms by (auto simp: owned_def write_counter_def)
  then show ?thesis using r(1) assms(3) by (simp add: acquire_def shared_null_def)
qed

lemma counter_read:
  assumes "counters_agree M h" "v \<in># M" "ref_cnt v \<noteq> NULL"
  shows "read_counter (ref_cnt v) h = Inr (int (holders M (ref_cnt v)))" "0 < holders M (ref_cnt v)"
proof -
  show "0 < holders M (ref_cnt v)" using assms(2) holders_zero [of M "ref_cnt v"] by auto
  then show "read_counter (ref_cnt v) h = Inr (int (holders M (ref_cnt v)))"
    using assms(1,3) by (simp add: read_counter_def counters_agree_def)
qed

lemma copy_owned:
  assumes "owned M h" "v \<in># M"
  shows "\<exists>k. shared_copy alloc v h = Inr (v, k) \<and> owned (add_mset v M) k \<and> hp_objects k = hp_objects h"
proof (cases "raw_ptr v = NULL")
  case True
  with assms have "v = shared_null" by (auto simp: owned_def coherent_def shared_null_def)
  moreover have "shared_copy alloc shared_null h = Inr (shared_null, h)"
    by (simp add: shared_copy_def acquire_def shared_null_def)
  ultimately show ?thesis using assms(1) by simp
next
  case False
  with assms have ref: "ref_cnt v \<noteq> NULL" by (auto simp: owned_def coherent_def)
  from assms have agree: "counters_agree M h" by (simp add: owned_def)
  note n = counter_read [OF agree assms(2) ref]
  let ?k = "write_counter (ref_cnt v) (int (holders M (ref_cnt v)) + 1) h"
  have "shared_copy alloc v h = Inr (v, ?k)"
    using False ref n by (simp add: shared_copy_def count_of_def acquire_def)
  moreover have "counters_agree (add_mset v M) ?k"
    using agree ref by (auto simp: counters_agree_def write_counter_def map_find_assign map_sorted_assign)
  then have "owned (add_mset v M) ?k"
    using assms False by (auto simp: owned_def coherent_def write_counter_def)
  ultimately show ?thesis by (simp add: write_counter_def)
qed

lemma release_owned:
  assumes "owned (add_mset v M) h"
  shows "\<exists>k. release v h = Inr (shared_null, k) \<and> owned M k"
proof (cases "ref_cnt v = NULL")
  case True
  with assms have "v = shared_null" by (auto simp: owned_def coherent_def shared_null_def)
  moreover have "release v h = Inr (v, h)" using True by (simp add: release_def)
  ultimately show ?thesis using assms by simp
next
  case ref: False
  from assms have agree: "counters_agree (add_mset v M) h" and coh: "coherent (add_mset v M)"
    and objs: "set (hp_objects h) = raw_ptr ` set_mset (add_mset v M) - {NULL}" "distinct (hp_objects h)"
    by (simp_all add: owned_def)
  have raw: "raw_ptr v \<noteq> NULL" using coh ref by (simp add: coherent_def)
  have n: "read_counter (ref_cnt v) h = Inr (int (holders M (ref_cnt v)) + 1)"
    using counter_read [OF agree _ ref] by simp
  have cohM: "coherent M" using coh by (simp add: coherent_def)
  show ?thesis
  proof (cases "holders M (ref_cnt v) = 0")
    case True
    then have last: "raw_ptr w \<noteq> raw_ptr v" if "w \<in># M" for w
      using that coh holders_zero [of M "ref_cnt v"] by (auto simp: coherent_def)
    let ?k = "delete_counter (ref_cnt v) ((write_counter (ref_cnt v) 0 h)\<lparr>hp_objects := remove1 (raw_ptr v) (hp_objects h)\<rparr>)"
    have "release v h = Inr (shared_null, ?k)"
      using ref n True raw objs by (simp add: release_def Let_def delete_object_def write_counter_def)
    moreover have "counters_agree M ?k"
      using agree True
      by (auto simp: counters_agree_def delete_counter_def write_counter_def map_find_assign map_find_erase
          map_sorted_assign map_sorted_erase split: if_splits)
    moreover have "set (hp_objects ?k) = raw_ptr ` set_mset M - {NULL}" "distinct (hp_objects ?k)"
      using objs last by (auto simp: delete_counter_def)
    ultimately show ?thesis unfolding owned_def using cohM by blast
  next
    case False
    let ?k = "write_counter (ref_cnt v) (int (holders M (ref_cnt v))) h"
    have "release v h = Inr (shared_null, ?k)" using ref n False by (simp add: release_def Let_def)
    moreover have "counters_agree M ?k"
      using agree False ref
      by (auto simp: counters_agree_def write_counter_def map_find_assign map_sorted_assign split: if_splits)
    moreover obtain w where w: "w \<in># M" "ref_cnt w = ref_cnt v" using False holders_zero [of M "ref_cnt v"] by auto
    then have "raw_ptr w = raw_ptr v" using coh by (simp add: coherent_def)
    with w(1) have "raw_ptr v \<in> raw_ptr ` set_mset M" by (metis imageI)
    then have "set (hp_objects ?k) = raw_ptr ` set_mset M - {NULL}" "distinct (hp_objects ?k)"
      using objs by (simp_all add: write_counter_def insert_absorb)
    ultimately show ?thesis unfolding owned_def using cohM by blast
  qed
qed

section \<open>Programs over shared pointers\<close>

text \<open>
  The pointer variables of a program as a list, and what it can do with them: a new object in a new
  pointer, a default pointer, a copy, casts, an assignment, resets to nothing, to \<open>NULL\<close>, to what the
  pointer holds and to a new object, a swap, and the end of a variable.
\<close>

record pointers =
  ps_vars :: "shared_ptr list"
  ps_heap :: heap

datatype pointer_event = Make address | Default_construct | Copy nat | Static_cast nat
  | Dynamic_cast nat bool | Assign nat nat | Reset nat | Reset_null nat | Reset_same nat
  | Reset_to nat address | Swap nat nat | Destroy nat

definition new_object :: "address \<Rightarrow> heap \<Rightarrow> heap" where
  [eval_simps]: "new_object p h = h\<lparr>hp_objects := p # hp_objects h\<rparr>"

definition store :: "nat \<Rightarrow> pointers \<Rightarrow> shared_ptr \<times> heap \<Rightarrow> pointers" where
  [eval_simps]: "store i st = (\<lambda>(v, h). \<lparr>ps_vars = (ps_vars st)[i := v], ps_heap = h\<rparr>)"

definition push :: "pointers \<Rightarrow> shared_ptr \<times> heap \<Rightarrow> pointers" where
  [eval_simps]: "push st = (\<lambda>(v, h). \<lparr>ps_vars = ps_vars st @ [v], ps_heap = h\<rparr>)"

fun pointer_step :: "allocator \<Rightarrow> pointer_event \<Rightarrow> pointers \<Rightarrow> pointers outcome" where
  "pointer_step alloc (Make p) st =
     map_sum id (push st) (shared_of alloc p (new_object p (ps_heap st)))"
| "pointer_step alloc Default_construct st = Inr (push st (shared_null, ps_heap st))"
| "pointer_step alloc (Copy i) st = map_sum id (push st) (shared_copy alloc (ps_vars st ! i) (ps_heap st))"
| "pointer_step alloc (Static_cast i) st =
     map_sum id (push st) (static_pointer_cast alloc (ps_vars st ! i) (ps_heap st))"
| "pointer_step alloc (Dynamic_cast i is_a) st =
     map_sum id (push st) (dynamic_pointer_cast alloc (\<lambda>_. is_a) (ps_vars st ! i) (ps_heap st))"
| "pointer_step alloc (Assign i j) st =
     map_sum id (store i st) (shared_assign alloc (ps_vars st ! i) (ps_vars st ! j) (ps_heap st))"
| "pointer_step alloc (Reset i) st = map_sum id (store i st) (shared_reset (ps_vars st ! i) (ps_heap st))"
| "pointer_step alloc (Reset_null i) st =
     map_sum id (store i st) (shared_reset_to alloc NULL (ps_vars st ! i) (ps_heap st))"
| "pointer_step alloc (Reset_same i) st =
     map_sum id (store i st) (shared_reset_to alloc (raw_ptr (ps_vars st ! i)) (ps_vars st ! i) (ps_heap st))"
| "pointer_step alloc (Reset_to i p) st =
     map_sum id (store i st) (shared_reset_to alloc p (ps_vars st ! i) (new_object p (ps_heap st)))"
| "pointer_step alloc (Swap i j) st =
     (case shared_swap (ps_vars st ! i) (ps_vars st ! j) of (u, v) \<Rightarrow> Inr (st\<lparr>ps_vars := (ps_vars st)[i := u, j := v]\<rparr>))"
| "pointer_step alloc (Destroy i) st =
     map_sum id (\<lambda>h. \<lparr>ps_vars = take i (ps_vars st) @ drop (Suc i) (ps_vars st), ps_heap = h\<rparr>)
       (shared_destroy (ps_vars st ! i) (ps_heap st))"

fun pointer_guard :: "pointer_event \<Rightarrow> pointers \<Rightarrow> bool" where
  "pointer_guard (Make p) st \<longleftrightarrow> p \<noteq> NULL \<and> p \<notin> set (hp_objects (ps_heap st))"
| "pointer_guard Default_construct st \<longleftrightarrow> True"
| "pointer_guard (Copy i) st \<longleftrightarrow> i < length (ps_vars st)"
| "pointer_guard (Static_cast i) st \<longleftrightarrow> i < length (ps_vars st)"
| "pointer_guard (Dynamic_cast i is_a) st \<longleftrightarrow> i < length (ps_vars st)"
| "pointer_guard (Assign i j) st \<longleftrightarrow> i < length (ps_vars st) \<and> j < length (ps_vars st)"
| "pointer_guard (Reset i) st \<longleftrightarrow> i < length (ps_vars st)"
| "pointer_guard (Reset_null i) st \<longleftrightarrow> i < length (ps_vars st)"
| "pointer_guard (Reset_same i) st \<longleftrightarrow> i < length (ps_vars st)"
| "pointer_guard (Reset_to i p) st \<longleftrightarrow>
     i < length (ps_vars st) \<and> p \<noteq> NULL \<and> p \<notin> set (hp_objects (ps_heap st))"
| "pointer_guard (Swap i j) st \<longleftrightarrow> i < length (ps_vars st) \<and> j < length (ps_vars st)"
| "pointer_guard (Destroy i) st \<longleftrightarrow> i < length (ps_vars st)"

definition all_owned :: "pointers \<Rightarrow> bool" where
  "all_owned st \<longleftrightarrow> owned (mset (ps_vars st)) (ps_heap st)"

text \<open>One variable is taken out of the multiset, changed, and put back.\<close>

lemma mset_take_out:
  assumes "i < length xs"
  shows "mset xs = add_mset (xs ! i) (mset xs - {#xs ! i#})" "mset (xs[i := v]) = add_mset v (mset xs - {#xs ! i#})"
    "mset (take i xs @ drop (Suc i) xs) = mset xs - {#xs ! i#}"
proof -
  have xs: "xs = take i xs @ xs ! i # drop (Suc i) xs" using assms by (rule id_take_nth_drop)
  show "mset xs = add_mset (xs ! i) (mset xs - {#xs ! i#})" using assms by simp
  show "mset (xs[i := v]) = add_mset v (mset xs - {#xs ! i#})" using assms by (simp add: mset_update)
  have "mset xs = add_mset (xs ! i) (mset (take i xs @ drop (Suc i) xs))" by (subst (1) xs) simp
  then show "mset (take i xs @ drop (Suc i) xs) = mset xs - {#xs ! i#}" by simp
qed

lemma mset_swap_vars:
  "i < length xs \<Longrightarrow> j < length xs \<Longrightarrow> mset (xs[i := xs ! j, j := xs ! i]) = mset xs"
  using mset_swap [of j xs i] by simp

lemma make_owned:
  assumes "owned M h" "alloc_ok alloc" "p \<noteq> NULL" "p \<notin> set (hp_objects h)"
  shows "\<exists>v k. shared_of alloc p (new_object p h) = Inr (v, k) \<and> owned (add_mset v M) k"
  using acquire_new [OF assms] by (auto simp: shared_of_def new_object_def)

lemma assign_owned:
  assumes "owned (add_mset lhs M) h" "rhs \<in># add_mset lhs M"
  shows "\<exists>v k. shared_assign alloc lhs rhs h = Inr (v, k) \<and> owned (add_mset v M) k"
proof -
  from copy_owned [OF assms] obtain h1 where c: "shared_copy alloc rhs h = Inr (rhs, h1)"
    "owned (add_mset lhs (add_mset rhs M)) h1" by (auto simp: add_mset_commute)
  from release_owned [OF c(2)] obtain k where "release lhs h1 = Inr (shared_null, k)" "owned (add_mset rhs M) k" by blast
  with c(1) show ?thesis by (simp add: shared_assign_def shared_destroy_def)
qed

lemma release_beside_new:
  "release v h = Inr (u, k) \<Longrightarrow> raw_ptr v \<noteq> p \<Longrightarrow> release v (new_object p h) = Inr (u, new_object p k)"
proof (cases "ref_cnt v = NULL \<or> map_find (hp_counters h) (ref_cnt v) = None")
  case True
  then show "release v h = Inr (u, k) \<Longrightarrow> raw_ptr v \<noteq> p \<Longrightarrow> ?thesis"
    by (auto simp: release_def read_counter_def)
next
  case False
  then obtain n where n: "read_counter (ref_cnt v) h = Inr n" "read_counter (ref_cnt v) (new_object p h) = Inr n"
    by (auto simp: read_counter_def new_object_def)
  show "release v h = Inr (u, k) \<Longrightarrow> raw_ptr v \<noteq> p \<Longrightarrow> ?thesis"
    using False n by (cases h; cases "raw_ptr v = NULL"; cases "n = 1"; cases "raw_ptr v \<in> set (hp_objects h)")
      (auto simp: release_def new_object_def write_counter_def delete_object_def delete_counter_def Let_def)
qed

lemma reset_to_owned:
  assumes "owned (add_mset v M) h" "alloc_ok alloc" "p \<noteq> NULL" "p \<notin> set (hp_objects h)"
  shows "\<exists>u k. shared_reset_to alloc p v (new_object p h) = Inr (u, k) \<and> owned (add_mset u M) k"
proof -
  have p: "raw_ptr v \<noteq> p" using assms(1,3,4) by (auto simp: owned_def)
  from release_owned [OF assms(1)] obtain k where k: "release v h = Inr (shared_null, k)" "owned M k" by blast
  have "set (hp_objects k) \<subseteq> set (hp_objects h)" using k(2) assms(1) by (auto simp: owned_def)
  with assms(4) have "p \<notin> set (hp_objects k)" by blast
  from acquire_new [OF k(2) assms(2,3) this] release_beside_new [OF k(1) p] p show ?thesis
    by (auto simp: shared_reset_to_def new_object_def)
qed

text \<open>A cast that keeps the address copies the pointer, and a reset to \<open>NULL\<close> is a reset.\<close>

lemma cast_owned:
  assumes "owned M h" "v \<in># M"
  shows "\<exists>k. static_pointer_cast alloc v h = Inr (v, k) \<and> owned (add_mset v M) k"
proof -
  have "shared_copy alloc v h = static_pointer_cast alloc v h"
  proof (cases "raw_ptr v = NULL")
    case False
    with assms have ref: "ref_cnt v \<noteq> NULL" by (auto simp: owned_def coherent_def)
    with counter_read [OF _ assms(2) ref, of h] assms(1) False show ?thesis
      by (simp add: owned_def shared_copy_def static_pointer_cast_def shared_cast_def count_of_def)
  qed (simp add: shared_copy_def static_pointer_cast_def shared_cast_def)
  with copy_owned [OF assms, of alloc] show ?thesis by auto
qed

lemma dynamic_cast_owned:
  assumes "owned M h" "v \<in># M"
  shows "\<exists>u k. dynamic_pointer_cast alloc (\<lambda>_. is_a) v h = Inr (u, k) \<and> owned (add_mset u M) k"
proof (cases "is_a \<and> raw_ptr v \<noteq> NULL")
  case True
  with cast_owned [OF assms, of alloc] show ?thesis
    by (auto simp: dynamic_pointer_cast_def static_pointer_cast_def Let_def)
next
  case False
  then have "dynamic_pointer_cast alloc (\<lambda>_. is_a) v h = Inr (shared_null, h)"
    by (auto simp: dynamic_pointer_cast_def Let_def)
  with assms(1) show ?thesis by simp
qed

lemma reset_null_owned:
  assumes "owned (add_mset v M) h"
  shows "\<exists>u k. shared_reset_to alloc NULL v h = Inr (u, k) \<and> owned (add_mset u M) k"
proof (cases "raw_ptr v = NULL")
  case True
  with assms show ?thesis by (simp add: shared_reset_to_def)
next
  case False
  from release_owned [OF assms] obtain k where k: "release v h = Inr (shared_null, k)" "owned M k" by blast
  with False have "shared_reset_to alloc NULL v h = Inr (shared_null, k)"
    by (simp add: shared_reset_to_def acquire_def shared_null_def)
  with k(2) show ?thesis by simp
qed

lemma pointer_handler:
  assumes "alloc_ok alloc" "all_owned st" "pointer_guard ev st"
  shows "\<exists>t. pointer_step alloc ev st = Inr t \<and> all_owned t"
proof (cases ev)
  case (Make p)
  with make_owned [of _ "ps_heap st" alloc p] assms show ?thesis
    by (fastforce simp: all_owned_def push_def)
next
  case (Copy i)
  then have "ps_vars st ! i \<in># mset (ps_vars st)" using assms(3) by simp
  from copy_owned [OF assms(2) [unfolded all_owned_def] this, of alloc] Copy show ?thesis
    by (auto simp: all_owned_def push_def)
next
  case (Static_cast i)
  then have "ps_vars st ! i \<in># mset (ps_vars st)" using assms(3) by simp
  from cast_owned [OF assms(2) [unfolded all_owned_def] this, of alloc] Static_cast show ?thesis
    by (auto simp: all_owned_def push_def)
next
  case (Dynamic_cast i is_a)
  then have "ps_vars st ! i \<in># mset (ps_vars st)" using assms(3) by simp
  from dynamic_cast_owned [OF assms(2) [unfolded all_owned_def] this, of alloc is_a] Dynamic_cast show ?thesis
    by (auto simp: all_owned_def push_def)
next
  case (Reset_null i)
  then have "owned (add_mset (ps_vars st ! i) (mset (ps_vars st) - {#ps_vars st ! i#})) (ps_heap st)"
    using assms mset_take_out(1) [of i "ps_vars st"] by (simp add: all_owned_def)
  from reset_null_owned [OF this, of alloc] Reset_null assms(3) mset_take_out(2) [of i "ps_vars st"] show ?thesis
    by (auto simp: all_owned_def store_def)
next
  case (Reset_same i)
  with assms show ?thesis by (simp add: all_owned_def store_def shared_reset_to_def)
next
  case (Assign i j)
  let ?M = "mset (ps_vars st) - {#ps_vars st ! i#}"
  have o: "owned (add_mset (ps_vars st ! i) ?M) (ps_heap st)"
    using assms Assign mset_take_out(1) [of i "ps_vars st"] by (simp add: all_owned_def)
  have "ps_vars st ! j \<in># add_mset (ps_vars st ! i) ?M"
    using assms(3) Assign mset_take_out(1) [of i "ps_vars st"] by simp
  from assign_owned [OF o this, of alloc] Assign assms(3) mset_take_out(2) [of i "ps_vars st"] show ?thesis
    by (auto simp: all_owned_def store_def)
next
  case (Reset i)
  then have "owned (add_mset (ps_vars st ! i) (mset (ps_vars st) - {#ps_vars st ! i#})) (ps_heap st)"
    using assms mset_take_out(1) [of i "ps_vars st"] by (simp add: all_owned_def)
  from release_owned [OF this] Reset assms(3) mset_take_out(2) [of i "ps_vars st"] show ?thesis
    by (auto simp: all_owned_def store_def shared_reset_def)
next
  case (Reset_to i p)
  then have "owned (add_mset (ps_vars st ! i) (mset (ps_vars st) - {#ps_vars st ! i#})) (ps_heap st)"
    using assms mset_take_out(1) [of i "ps_vars st"] by (simp add: all_owned_def)
  from reset_to_owned [OF this assms(1), of p] Reset_to assms(3) mset_take_out(2) [of i "ps_vars st"] show ?thesis
    by (auto simp: all_owned_def store_def)
next
  case (Destroy i)
  then have "owned (add_mset (ps_vars st ! i) (mset (ps_vars st) - {#ps_vars st ! i#})) (ps_heap st)"
    using assms mset_take_out(1) [of i "ps_vars st"] by (simp add: all_owned_def)
  from release_owned [OF this] Destroy assms(3) mset_take_out(3) [of i "ps_vars st"] show ?thesis
    by (auto simp: all_owned_def shared_destroy_def)
next
  case (Swap i j)
  with assms show ?thesis by (simp add: all_owned_def mset_swap_vars)
qed (use assms in \<open>simp add: all_owned_def push_def\<close>)

interpretation pointers: guarded_machine "pointer_step alloc" pointer_guard "\<lambda>st. alloc_ok alloc \<and> all_owned st"
  for alloc
  by unfold_locales (use pointer_handler in blast)

definition no_pointers :: pointers where
  [eval_simps]: "no_pointers = \<lparr>ps_vars = [], ps_heap = \<lparr>hp_objects = [], hp_counters = []\<rparr>\<rparr>"

lemma no_pointers_owned: "all_owned no_pointers"
  using owned_empty by (simp add: all_owned_def no_pointers_def)

text \<open>C39: whatever a program does with shared pointers, an object is deleted exactly when its last pointer
  lets go of it: nothing is deleted or counted twice or too early, no operation touches freed memory, the
  objects alive are those that some pointer holds, and the number of an object's pointers is its count.\<close>

theorem shared_ptr_owns:
  assumes "alloc_ok alloc" "can_happen (pointer_step alloc) pointer_guard no_pointers es"
  shows "\<exists>st. run_events (pointer_step alloc) no_pointers es = Inr st \<and>
    distinct (hp_objects (ps_heap st)) \<and>
    set (hp_objects (ps_heap st)) = raw_ptr ` set (ps_vars st) - {NULL} \<and>
    (\<forall>v\<in>set (ps_vars st). count_of v (ps_heap st) =
       Inr (if raw_ptr v = NULL then 0 else int (length (filter (\<lambda>w. raw_ptr w = raw_ptr v) (ps_vars st)))))"
proof -
  from pointers.runs [where alloc = alloc, OF _ assms(2)] assms(1) no_pointers_owned obtain st where
    st: "run_events (pointer_step alloc) no_pointers es = Inr st" "all_owned st" by blast
  then have o: "counters_agree (mset (ps_vars st)) (ps_heap st)" "coherent (mset (ps_vars st))"
    "distinct (hp_objects (ps_heap st))" "set (hp_objects (ps_heap st)) = raw_ptr ` set (ps_vars st) - {NULL}"
    by (simp_all add: all_owned_def owned_def)
  have "count_of v (ps_heap st) =
      Inr (if raw_ptr v = NULL then 0 else int (length (filter (\<lambda>w. raw_ptr w = raw_ptr v) (ps_vars st))))"
    if v: "v \<in> set (ps_vars st)" for v
  proof (cases "ref_cnt v = NULL")
    case True
    with o(2) v show ?thesis by (simp add: count_of_def coherent_def)
  next
    case False
    have "filter (\<lambda>w. raw_ptr w = raw_ptr v) (ps_vars st) = filter (\<lambda>w. ref_cnt w = ref_cnt v) (ps_vars st)"
      using o(2) v by (intro filter_cong) (auto simp: coherent_def)
    moreover have "raw_ptr v \<noteq> NULL" using False o(2) v by (simp add: coherent_def)
    ultimately show ?thesis
      using False counter_read(1) [OF o(1) _ False] v
      by (simp add: count_of_def holders_def flip: mset_filter)
  qed
  with st(1) o(3,4) show ?thesis by blast
qed

definition example_alloc :: allocator where
  "example_alloc m = Some (Suc (Max (insert 0 (set (map fst m)))))"

lemma example_alloc_ok: "alloc_ok example_alloc"
proof -
  have "map_find m (Suc (Max (insert 0 (set (map fst m))))) = None" for m :: "(address, int) std_map"
  proof -
    have "Suc (Max (insert 0 (set (map fst m)))) \<notin> set (map fst m)"
    proof
      assume "Suc (Max (insert 0 (set (map fst m)))) \<in> set (map fst m)"
      then have "Suc (Max (insert 0 (set (map fst m)))) \<le> Max (insert 0 (set (map fst m)))" by (intro Max_ge) auto
      then show False by simp
    qed
    then show ?thesis by (simp add: map_find_def map_of_eq_None_iff)
  qed
  then show ?thesis by (simp add: alloc_ok_def example_alloc_def)
qed

definition example_pointers :: "pointer_event list" where
  [eval_simps]: "example_pointers = [Make 7, Copy 0, Destroy 0, Make 9, Assign 0 1]"

theorem shared_ptr_owns_witness:
  "\<exists>st. run_events (pointer_step example_alloc) no_pointers example_pointers = Inr st \<and>
     set (hp_objects (ps_heap st)) = raw_ptr ` set (ps_vars st) - {NULL}"
proof -
  have "can_happen (pointer_step example_alloc) pointer_guard no_pointers example_pointers"
    by (simp add: eval_simps map_find_def example_alloc_def)
  from shared_ptr_owns [OF example_alloc_ok this] show ?thesis by blast
qed

end
