(* ===== verification/UniquePtr.thy ===== *)
theory UniquePtr
  imports SharedPtr
begin

text \<open>
  \<open>src/utils/unique_ptr.h\<close>: the owning pointer, whose copy takes the object away from the original.  The
  objects that are alive are a list of addresses.
\<close>

section \<open>The pointer\<close>

type_synonym unique_ptr = address

definition unique_null :: unique_ptr where [eval_simps]: "unique_null = NULL"

definition unique_destroy :: "unique_ptr \<Rightarrow> address list \<Rightarrow> (unique_ptr \<times> address list) outcome" where
  [eval_simps]: "unique_destroy u objs =
     (if u = NULL then Inr (NULL, objs)
      else if u \<in> set objs then Inr (NULL, remove1 u objs)
      else Inl Undefined_behaviour)"

text \<open>The destructor and \<open>reset\<close>.\<close>

definition unique_delete :: "unique_ptr \<Rightarrow> address list \<Rightarrow> address list outcome" where
  [eval_simps]: "unique_delete u objs = map_sum id snd (unique_destroy u objs)"

definition unique_reset :: "unique_ptr \<Rightarrow> address list \<Rightarrow> (unique_ptr \<times> address list) outcome" where
  [eval_simps]: "unique_reset u objs = unique_destroy u objs"

definition unique_reset_to ::
  "address \<Rightarrow> unique_ptr \<Rightarrow> address list \<Rightarrow> (unique_ptr \<times> address list) outcome" where
  [eval_simps]: "unique_reset_to new_ptr u objs =
     (if u = new_ptr then Inr (u, objs)
      else bind_outcome (unique_destroy u objs) (\<lambda>(_, objs1). Inr (new_ptr, objs1)))"

text \<open>The copy, the new value of the original, and the assignment of one pointer to another.\<close>

definition unique_copy :: "unique_ptr \<Rightarrow> unique_ptr \<times> unique_ptr" where
  [eval_simps]: "unique_copy rhs = (rhs, NULL)"

definition unique_assign ::
  "unique_ptr \<Rightarrow> unique_ptr \<Rightarrow> address list \<Rightarrow> (unique_ptr \<times> unique_ptr \<times> address list) outcome" where
  [eval_simps]: "unique_assign lhs rhs objs =
     bind_outcome (unique_reset_to rhs lhs objs) (\<lambda>(u, objs1). Inr (u, NULL, objs1))"

definition unique_bool :: "unique_ptr \<Rightarrow> bool" where
  [eval_simps]: "unique_bool u \<longleftrightarrow> u \<noteq> NULL"

definition unique_deref :: "unique_ptr \<Rightarrow> address list \<Rightarrow> address outcome" where
  [eval_simps]: "unique_deref u objs =
     (if u = NULL then Inl Runtime_error
      else if u \<in> set objs then Inr u else Inl Undefined_behaviour)"

section \<open>Programs over unique pointers\<close>

record unique_pointers =
  us_vars :: "unique_ptr list"
  us_objects :: "address list"

datatype unique_event = U_make address | U_null | U_copy nat | U_assign nat nat | U_reset nat
  | U_reset_null nat | U_reset_same nat | U_reset_to nat address | U_destroy nat

fun unique_step :: "unique_event \<Rightarrow> unique_pointers \<Rightarrow> unique_pointers outcome" where
  "unique_step (U_make p) st = Inr \<lparr>us_vars = us_vars st @ [p], us_objects = p # us_objects st\<rparr>"
| "unique_step U_null st = Inr (st\<lparr>us_vars := us_vars st @ [unique_null]\<rparr>)"
| "unique_step (U_copy i) st =
     (case unique_copy (us_vars st ! i) of (u, rhs) \<Rightarrow> Inr (st\<lparr>us_vars := (us_vars st)[i := rhs] @ [u]\<rparr>))"
| "unique_step (U_assign i j) st =
     (if i = j then Inr st
      else bind_outcome (unique_assign (us_vars st ! i) (us_vars st ! j) (us_objects st)) (\<lambda>(u, rhs, objs).
        Inr \<lparr>us_vars = (us_vars st)[i := u, j := rhs], us_objects = objs\<rparr>))"
| "unique_step (U_reset i) st =
     bind_outcome (unique_reset (us_vars st ! i) (us_objects st)) (\<lambda>(u, objs).
       Inr \<lparr>us_vars = (us_vars st)[i := u], us_objects = objs\<rparr>)"
| "unique_step (U_reset_null i) st =
     bind_outcome (unique_reset_to NULL (us_vars st ! i) (us_objects st)) (\<lambda>(u, objs).
       Inr \<lparr>us_vars = (us_vars st)[i := u], us_objects = objs\<rparr>)"
| "unique_step (U_reset_same i) st =
     bind_outcome (unique_reset_to (us_vars st ! i) (us_vars st ! i) (us_objects st)) (\<lambda>(u, objs).
       Inr \<lparr>us_vars = (us_vars st)[i := u], us_objects = objs\<rparr>)"
| "unique_step (U_reset_to i p) st =
     bind_outcome (unique_reset_to p (us_vars st ! i) (p # us_objects st)) (\<lambda>(u, objs).
       Inr \<lparr>us_vars = (us_vars st)[i := u], us_objects = objs\<rparr>)"
| "unique_step (U_destroy i) st =
     bind_outcome (unique_delete (us_vars st ! i) (us_objects st)) (\<lambda>objs.
       Inr \<lparr>us_vars = take i (us_vars st) @ drop (Suc i) (us_vars st), us_objects = objs\<rparr>)"

fun unique_guard :: "unique_event \<Rightarrow> unique_pointers \<Rightarrow> bool" where
  "unique_guard (U_make p) st \<longleftrightarrow> p \<noteq> NULL \<and> p \<notin> set (us_objects st)"
| "unique_guard U_null st \<longleftrightarrow> True"
| "unique_guard (U_copy i) st \<longleftrightarrow> i < length (us_vars st)"
| "unique_guard (U_assign i j) st \<longleftrightarrow> i < length (us_vars st) \<and> j < length (us_vars st)"
| "unique_guard (U_reset i) st \<longleftrightarrow> i < length (us_vars st)"
| "unique_guard (U_reset_null i) st \<longleftrightarrow> i < length (us_vars st)"
| "unique_guard (U_reset_same i) st \<longleftrightarrow> i < length (us_vars st)"
| "unique_guard (U_reset_to i p) st \<longleftrightarrow>
     i < length (us_vars st) \<and> p \<noteq> NULL \<and> p \<notin> set (us_objects st)"
| "unique_guard (U_destroy i) st \<longleftrightarrow> i < length (us_vars st)"

text \<open>The objects are the pointers that are not \<open>NULL\<close>, each of them once.\<close>

definition solely_owned :: "address multiset \<Rightarrow> address list \<Rightarrow> bool" where
  "solely_owned M objs \<longleftrightarrow> distinct objs \<and> mset objs = filter_mset (\<lambda>p. p \<noteq> NULL) M"

definition each_owned :: "unique_pointers \<Rightarrow> bool" where
  "each_owned st \<longleftrightarrow> solely_owned (mset (us_vars st)) (us_objects st)"

lemma solely_null [simp]: "solely_owned (add_mset NULL M) objs \<longleftrightarrow> solely_owned M objs"
  by (simp add: solely_owned_def)

lemma solely_new:
  "solely_owned M objs \<Longrightarrow> p \<noteq> NULL \<Longrightarrow> p \<notin> set objs \<Longrightarrow> solely_owned (add_mset p M) (p # objs)"
  by (simp add: solely_owned_def)

lemma solely_in:
  assumes "solely_owned (add_mset u M) objs" "u \<noteq> NULL"
  shows "u \<in> set objs"
proof -
  have "u \<in># mset objs" using assms by (simp add: solely_owned_def)
  then show ?thesis by simp
qed

lemma destroy_owned:
  assumes "solely_owned (add_mset u M) objs"
  shows "\<exists>k. unique_destroy u objs = Inr (NULL, k) \<and> solely_owned M k"
proof (cases "u = NULL")
  case False
  with assms have m: "mset objs = add_mset u (filter_mset (\<lambda>p. p \<noteq> NULL) M)" by (simp add: solely_owned_def)
  have "u \<in> set objs" using assms False by (rule solely_in)
  moreover have "distinct objs" using assms by (simp add: solely_owned_def)
  then have "solely_owned M (remove1 u objs)" by (simp add: solely_owned_def m)
  ultimately show ?thesis using False by (simp add: unique_destroy_def)
qed (use assms in \<open>simp add: unique_destroy_def\<close>)

lemma reset_to_solely:
  assumes "solely_owned (add_mset u M) objs" "p \<noteq> NULL" "p \<notin> set objs"
  shows "\<exists>k. unique_reset_to p u (p # objs) = Inr (p, k) \<and> solely_owned (add_mset p M) k"
proof -
  have "solely_owned (add_mset u (add_mset p M)) (p # objs)"
    using solely_new [OF assms] by (simp add: add_mset_commute)
  moreover have "u \<noteq> p" using solely_in [OF assms(1)] assms(2,3) by blast
  ultimately show ?thesis using destroy_owned [of u "add_mset p M" "p # objs"] by (auto simp: unique_reset_to_def)
qed

lemma assign_solely:
  assumes "solely_owned (add_mset lhs (add_mset rhs M)) objs"
  shows "\<exists>k. unique_assign lhs rhs objs = Inr (rhs, NULL, k) \<and> solely_owned (add_mset rhs M) k"
proof (cases "lhs = rhs")
  case True
  have "rhs = NULL"
  proof (rule ccontr)
    assume "rhs \<noteq> NULL"
    with True assms have "mset objs = add_mset rhs (add_mset rhs (filter_mset (\<lambda>p. p \<noteq> NULL) M))" "distinct objs"
      by (simp_all add: solely_owned_def)
    moreover from this(2) have "count (mset objs) rhs \<le> 1" by (simp add: distinct_count_atmost_1)
    ultimately show False by simp
  qed
  with True assms show ?thesis by (simp add: unique_assign_def unique_reset_to_def)
next
  case False
  with destroy_owned [OF assms] show ?thesis by (auto simp: unique_assign_def unique_reset_to_def)
qed

lemma unique_handler:
  assumes "each_owned st" "unique_guard ev st"
  shows "\<exists>t. unique_step ev st = Inr t \<and> each_owned t"
proof -
  let ?M = "\<lambda>i. mset (us_vars st) - {#us_vars st ! i#}"
  have out: "solely_owned (add_mset (us_vars st ! i) (?M i)) (us_objects st)" if "i < length (us_vars st)" for i
    using assms(1) mset_take_out(1) [OF that] by (simp add: each_owned_def)
  show ?thesis
  proof (cases ev)
    case (U_make p)
    with assms show ?thesis by (simp add: each_owned_def solely_new)
  next
    case U_null
    with assms show ?thesis by (simp add: each_owned_def unique_null_def)
  next
    case (U_copy i)
    with assms(2) mset_take_out(2) [of i "us_vars st" NULL] out [of i] show ?thesis
      by (simp add: each_owned_def unique_copy_def add_mset_commute [of _ NULL])
  next
    case (U_assign i j)
    show ?thesis
    proof (cases "i = j")
      case True
      with assms U_assign show ?thesis by simp
    next
      case False
      have i: "i < length (us_vars st)" and j: "j < length (us_vars st)" using assms(2) U_assign by simp_all
      let ?lhs = "us_vars st ! i" and ?rhs = "us_vars st ! j" and ?xs = "(us_vars st)[j := NULL]"
      let ?K = "mset ?xs - {#?xs ! i#}"
      have xs: "?xs ! i = ?lhs" "i < length ?xs" using False i by simp_all
      have "add_mset NULL (?M j) = add_mset ?lhs ?K"
        using mset_take_out(2) [OF j, of NULL] mset_take_out(1) [OF xs(2)] xs(1) by simp
      moreover have "solely_owned (add_mset ?rhs (add_mset NULL (?M j))) (us_objects st)"
        using out [OF j] by (simp add: add_mset_commute)
      ultimately have "solely_owned (add_mset ?lhs (add_mset ?rhs ?K)) (us_objects st)"
        by (simp add: add_mset_commute)
      from assign_solely [OF this] obtain k where k: "unique_assign ?lhs ?rhs (us_objects st) = Inr (?rhs, NULL, k)"
        "solely_owned (add_mset ?rhs ?K) k" by blast
      have "(us_vars st)[i := ?rhs, j := NULL] = ?xs[i := ?rhs]" using False by (simp add: list_update_swap)
      then have "each_owned \<lparr>us_vars = (us_vars st)[i := ?rhs, j := NULL], us_objects = k\<rparr>"
        using k(2) mset_take_out(2) [OF xs(2), of ?rhs] by (simp add: each_owned_def)
      with U_assign False k(1) show ?thesis by simp
    qed
  next
    case (U_reset i)
    with assms(2) destroy_owned [OF out [of i]] mset_take_out(2) [of i "us_vars st"] show ?thesis
      by (auto simp: each_owned_def unique_reset_def)
  next
    case (U_reset_null i)
    with assms(2) destroy_owned [OF out [of i]] mset_take_out(2) [of i "us_vars st"] out [of i] show ?thesis
      by (cases "us_vars st ! i = NULL") (auto simp: each_owned_def unique_reset_to_def)
  next
    case (U_reset_same i)
    with assms show ?thesis by (simp add: each_owned_def unique_reset_to_def)
  next
    case (U_reset_to i p)
    then have g: "i < length (us_vars st)" "p \<noteq> NULL" "p \<notin> set (us_objects st)" using assms(2) by simp_all
    from reset_to_solely [OF out [OF g(1)] g(2,3)] obtain k where
      "unique_reset_to p (us_vars st ! i) (p # us_objects st) = Inr (p, k)" "solely_owned (add_mset p (?M i)) k" by blast
    with U_reset_to mset_take_out(2) [OF g(1), of p] show ?thesis by (simp add: each_owned_def)
  next
    case (U_destroy i)
    with assms(2) destroy_owned [OF out [of i]] mset_take_out(3) [of i "us_vars st"] show ?thesis
      by (auto simp: each_owned_def unique_delete_def)
  qed
qed

interpretation unique_pointers: guarded_machine unique_step unique_guard each_owned
  by unfold_locales (rule unique_handler)

definition no_unique_pointers :: unique_pointers where
  [eval_simps]: "no_unique_pointers = \<lparr>us_vars = [], us_objects = []\<rparr>"

text \<open>C40: whatever a program does with unique pointers, every object that is alive has exactly one owner,
  every pointer that is not \<open>NULL\<close> owns an object that is alive, and nothing is deleted twice.\<close>

theorem unique_ptr_owns:
  assumes "can_happen unique_step unique_guard no_unique_pointers es"
  shows "\<exists>st. run_events unique_step no_unique_pointers es = Inr st \<and>
    (\<forall>p. p \<noteq> NULL \<longrightarrow> count_list (us_vars st) p = (if p \<in> set (us_objects st) then 1 else 0))"
proof -
  have "each_owned no_unique_pointers"
    by (simp add: each_owned_def solely_owned_def no_unique_pointers_def)
  from unique_pointers.runs [OF this assms] obtain st where
    st: "run_events unique_step no_unique_pointers es = Inr st" "each_owned st" by blast
  have "count_list (us_vars st) p = (if p \<in> set (us_objects st) then 1 else 0)" if "p \<noteq> NULL" for p
  proof -
    from st(2) have "distinct (us_objects st)" "mset (us_objects st) = filter_mset (\<lambda>p. p \<noteq> NULL) (mset (us_vars st))"
      by (simp_all add: each_owned_def solely_owned_def)
    then have "count (filter_mset (\<lambda>p. p \<noteq> NULL) (mset (us_vars st))) p = (if p \<in> set (us_objects st) then 1 else 0)"
      by (metis distinct_count_atmost_1)
    with that show ?thesis by (simp add: count_mset)
  qed
  with st(1) show ?thesis by blast
qed

definition example_moves :: "unique_event list" where
  [eval_simps]: "example_moves = [U_make 5, U_copy 0, U_make 6, U_assign 2 1, U_destroy 0]"

theorem unique_ptr_owns_witness:
  "\<exists>st. run_events unique_step no_unique_pointers example_moves = Inr st \<and> count_list (us_vars st) 5 \<le> 1"
proof -
  have "can_happen unique_step unique_guard no_unique_pointers example_moves"
    by (simp add: eval_simps)
  from unique_ptr_owns [OF this] obtain st where "run_events unique_step no_unique_pointers example_moves = Inr st"
    "\<forall>p. p \<noteq> NULL \<longrightarrow> count_list (us_vars st) p = (if p \<in> set (us_objects st) then 1 else 0)" by blast
  then show ?thesis by (intro exI [of _ st]) simp
qed

end
