(* ===== verification/DebugText.thy ===== *)
theory DebugText
  imports Request RqTargetProps
begin

text \<open>
  The parts of \<open>RqTarget\<close> and \<open>Request\<close> that copy, compare and describe them (\<open>src/http/RqTarget.cpp\<close>,
  \<open>Request.cpp\<close>).  The description of a target dereferences its components, and \<open>maybe\<close> throws when
  one is unset; the log of a session prints the description of a request, which does not.
\<close>

section \<open>Targets\<close>

definition RqTarget_assign :: "rq_target \<Rightarrow> rq_target \<Rightarrow> rq_target" where
  [eval_simps]: "RqTarget_assign l r =
     l\<lparr>rt_scheme := rt_scheme r, rt_user_info := rt_user_info r, rt_host := rt_host r, rt_port := rt_port r,
       rt_path := rt_path r, rt_query := rt_query r, rt_fragment := rt_fragment r,
       validity_state := validity_state r\<rparr>"

definition RqTarget_ne :: "rq_target \<Rightarrow> rq_target \<Rightarrow> bool" where
  [eval_simps]: "RqTarget_ne l r \<longleftrightarrow> \<not> RqTarget_eq l r"

definition yes_no :: "bool \<Rightarrow> string" where
  [eval_simps]: "yes_no b = (if b then ''YES'' else ''NO'')"

definition debug_line :: "string \<Rightarrow> string \<Rightarrow> string" where
  [eval_simps]: "debug_line key val = key @ '': '' @ val @ [LF]"

definition debug_defined :: "string \<Rightarrow> string maybe \<Rightarrow> string" where
  [eval_simps]: "debug_defined key m = debug_line (key @ '' defined'') (yes_no (maybe_ok m))"

definition debug_component :: "string \<Rightarrow> string maybe \<Rightarrow> string outcome" where
  [eval_simps]: "debug_component key m =
     bind_outcome (maybe_value m) (\<lambda>v. Inr (debug_defined key m @ debug_line (key @ '' value'') v))"

definition debug_flag :: "string \<Rightarrow> flags \<Rightarrow> rq_target \<Rightarrow> string" where
  [eval_simps]: "debug_flag key f t = debug_line key (yes_no (validity_state t AND f \<noteq> 0))"

definition debug_flags :: "rq_target \<Rightarrow> string" where
  [eval_simps]: "debug_flags t =
     ''FLAGS: '' @ [LF] @
     debug_line ''RQ_TARGET_GOOD'' (yes_no (validity_state t = RQ_TARGET_GOOD)) @
     debug_flag ''RQ_TARGET_TOO_LONG'' RQ_TARGET_TOO_LONG t @
     debug_flag ''RQ_TARGET_BAD_SCHEME'' RQ_TARGET_BAD_SCHEME t @
     debug_flag ''RQ_TARGET_HAS_USER_INFO'' RQ_TARGET_HAS_USER_INFO t @
     debug_flag ''RQ_TARGET_BAD_HOST'' RQ_TARGET_BAD_HOST t @
     debug_flag ''RQ_TARGET_BAD_PORT'' RQ_TARGET_BAD_PORT t @
     debug_flag ''RQ_TARGET_BAD_PATH'' RQ_TARGET_BAD_PATH t @
     debug_flag ''RQ_TARGET_BAD_QUERY'' RQ_TARGET_BAD_QUERY t @
     debug_flag ''RQ_TARGET_HAS_FRAGMENT'' RQ_TARGET_HAS_FRAGMENT t"

text \<open>Only the scheme is printed through its accessor.\<close>

definition RqTarget_GetDebugString :: "rq_target \<Rightarrow> string outcome" where
  [eval_simps]: "RqTarget_GetDebugString t =
     bind_outcome (map_outcomes (\<lambda>(key, m). debug_component key m)
       [(''user_info'', rt_user_info t), (''host'', rt_host t), (''port'', rt_port t),
        (''path'', rt_path t), (''query'', rt_query t), (''fragment'', rt_fragment t)]) (\<lambda>components.
     Inr (''DEBUG INFO FOR RequestTarget:'' @ [LF] @ debug_line ''Good()'' (yes_no (Good t)) @
       debug_defined ''scheme'' (rt_scheme t) @ debug_line ''scheme value'' (get_component (rt_scheme t)) @
       concat components @ debug_flags t @ debug_line ''ToStr()'' (ToStr t)))"

section \<open>Requests\<close>

definition debug_entry :: "string \<Rightarrow> string \<Rightarrow> string" where
  [eval_simps]: "debug_entry key val = [LF, HT] @ key @ '': '' @ val"

definition Request_GetDebugString :: "request \<Rightarrow> string" where
  [eval_simps]: "Request_GetDebugString rq =
     ''---Request---'' @
     debug_entry ''Status'' ((if rq_status rq = HTTP_OK then ''OK '' else ''BAD '') @ NumericToString (rq_status rq)) @
     debug_entry ''Method'' (NumericToString (method_number (rq_method rq))) @
     debug_entry ''Method'' (HttpMethodToStr (rq_method rq)) @
     debug_entry ''Request-Target'' (ToStr (rq_target rq)) @
     debug_entry ''Version'' (HttpVerToStr (rq_version rq)) @
     [LF, HT] @ ''~Headers~'' @
     concat (map (\<lambda>(key, val). debug_entry key val) (rq_headers rq)) @
     debug_entry ''Has body'' (if has_body rq then ''Yes'' else ''No'') @
     debug_entry ''Body storage type''
       (if storage_type (rq_body rq) = BST_IN_TMP_FOLDER then ''In tmp folder'' else ''On server'') @
     debug_entry ''Bodypath'' (bs_path (rq_body rq))"

section \<open>What they do\<close>

lemma RqTarget_assign_copies: "RqTarget_assign l r = r"
  by (simp add: RqTarget_assign_def)

lemma RqTarget_ne_assign: "\<not> RqTarget_ne (RqTarget_assign l r) r"
  by (simp add: RqTarget_ne_def RqTarget_assign_copies RqTarget_eq_def maybe_eq_iff)

text \<open>The comparison leaves out the flags, so targets that differ in them alone are equal.\<close>

lemma RqTarget_eq_ignores_flags: "RqTarget_eq (t\<lparr>validity_state := f\<rparr>) t"
  by (simp add: RqTarget_eq_def maybe_eq_iff)

lemma RqTarget_GetDebugString_returns:
  "(\<exists>s. RqTarget_GetDebugString t = Inr s) \<longleftrightarrow>
     (\<forall>m\<in>{rt_user_info t, rt_host t, rt_port t, rt_path t, rt_query t, rt_fragment t}. maybe_ok m)"
  by (auto simp: RqTarget_GetDebugString_def debug_component_def maybe_value_def)

text \<open>
  So the description of a target that is good is never printed: such a target has no user info and
  no fragment, and \<open>maybe\<close> throws.
\<close>

lemma good_target_has_no_description:
  assumes "RqTarget_of_raw raw = Inr t" "Good t"
  shows "RqTarget_GetDebugString t = Inl Runtime_error"
  using Good_raw_safe [OF assms] by (simp add: RqTarget_GetDebugString_def debug_component_def maybe_value_def)

lemma good_target_has_no_description_example:
  "\<exists>t. RqTarget_of_raw ''/a?b'' = Inr t \<and> RqTarget_GetDebugString t = Inl Runtime_error"
proof -
  have "\<exists>t. RqTarget_of_raw ''/a?b'' = Inr t \<and> Good t"
    by (simp add: eval_simps str_simps remove_dots.simps)
  then show ?thesis using good_target_has_no_description by blast
qed

end
