(* ===== verification/Logging.thy ===== *)
theory Logging
  imports ServerCluster IPv4
begin

text \<open>
  \<open>src/utils/logger.h\<close> and \<open>logger.cpp\<close>: the logger as a state whose output is the list of lines
  written so far, and what the sources print through it: the \<open>Print\<close> functions of the configuration
  and the debug output of the cluster.  The local time of each line is given from outside, and so is
  the directory that the build puts before the names of the files.
\<close>

section \<open>The logger\<close>

text \<open>
  \<open>os_\<close> and \<open>es_\<close> point to the log file when there is one, otherwise to the streams of the process.
\<close>

datatype sink = Log_file | Standard_output | Standard_error

record logger =
  lg_file_open :: bool
  lg_severity_threshold :: severity
  lg_time_calls :: nat
  lg_written :: "(sink \<times> string) list"

definition Logger_new :: "(string \<Rightarrow> bool) \<Rightarrow> string option \<Rightarrow> logger" where
  [eval_simps]: "Logger_new opens log_path =
     \<lparr>lg_file_open = (case log_path of None \<Rightarrow> False | Some p \<Rightarrow> p \<noteq> [] \<and> opens p),
      lg_severity_threshold = DEBUG, lg_time_calls = 0, lg_written = []\<rparr>"

text \<open>The only instance is made with the default argument.\<close>

definition Logger_get :: "(string \<Rightarrow> bool) \<Rightarrow> logger" where
  [eval_simps]: "Logger_get opens = Logger_new opens None"

definition set_severity_threshold :: "severity \<Rightarrow> logger \<Rightarrow> logger" where
  [eval_simps]: "set_severity_threshold sev l = l\<lparr>lg_severity_threshold := sev\<rparr>"

definition sink_of :: "logger \<Rightarrow> log_stream \<Rightarrow> sink option" where
  [eval_simps]: "sink_of l s =
     (case s of Null_stream \<Rightarrow> None
      | Out_stream \<Rightarrow> Some (if lg_file_open l then Log_file else Standard_output)
      | Err_stream \<Rightarrow> Some (if lg_file_open l then Log_file else Standard_error))"

text \<open>The format is \<open>%Y%m%d %H:%M:%S\<close>.\<close>

definition dump_time :: "broken_time \<Rightarrow> string" where
  [eval_simps]: "dump_time t =
     NumericToString (1900 + tm_year t) @ two_digits (tm_mon t + 1) @ two_digits (tm_mday t) @ '' '' @
     two_digits (tm_hour t) @ '':'' @ two_digits (tm_min t) @ '':'' @ two_digits (tm_sec t)"

fun severity_letter :: "severity \<Rightarrow> char" where
  "severity_letter DEBUG = CHR ''D''"
| "severity_letter INFO = CHR ''I''"
| "severity_letter WARNING = CHR ''W''"
| "severity_letter ERROR = CHR ''E''"
| "severity_letter FATAL = CHR ''F''"

text \<open>
  A statement \<open>LOG(sev) << message;\<close> in a line of a file: the text is written to the stream of the
  severity, and the end of the statement ends the line and throws at \<open>FATAL\<close>.
\<close>

definition log_line :: "broken_time \<Rightarrow> severity \<Rightarrow> string \<Rightarrow> nat \<Rightarrow> string \<Rightarrow> string" where
  [eval_simps]: "log_line t sev fname line message =
     severity_letter sev # dump_time t @ '' '' @ fname @ '':'' @ NumericToString (int line) @ ''] '' @
     message @ [LF]"

definition LOG ::
  "(nat \<Rightarrow> broken_time) \<Rightarrow> severity \<Rightarrow> string \<Rightarrow> nat \<Rightarrow> string \<Rightarrow> logger \<Rightarrow> unit outcome \<times> logger" where
  [eval_simps]: "LOG localtime sev fname line message l =
     (LogWrapper_end sev,
      l\<lparr>lg_time_calls := lg_time_calls l + 1,
        lg_written := lg_written l @
          (case sink_of l (Logger_log (lg_severity_threshold l) sev) of
             None \<Rightarrow> []
           | Some sink \<Rightarrow>
               [(sink, log_line (localtime (lg_time_calls l)) sev fname line message)])\<rparr>)"

text \<open>A sequence of \<open>LOG(DEBUG)\<close> statements, which ends at an exception.\<close>

datatype log_entry = Debug (entry_file: string) (entry_line: nat) (entry_text: string)

fun LOG_DEBUG_all ::
  "(nat \<Rightarrow> broken_time) \<Rightarrow> string \<Rightarrow> log_entry list \<Rightarrow> logger \<Rightarrow> unit outcome \<times> logger" where
  "LOG_DEBUG_all localtime root [] l = (Inr (), l)"
| "LOG_DEBUG_all localtime root (Debug fname line message # es) l =
     (case LOG localtime DEBUG (root @ fname) line message l of
        (Inl e, l1) \<Rightarrow> (Inl e, l1)
      | (Inr _, l1) \<Rightarrow> LOG_DEBUG_all localtime root es l1)"

section \<open>The configuration\<close>

text \<open>Booleans and enumerations are printed as numbers.\<close>

definition flag_text :: "bool \<Rightarrow> string" where
  [eval_simps]: "flag_text b = (if b then ''1'' else ''0'')"

fun mx_number :: "multiplex_type \<Rightarrow> int" where
  "mx_number MT_SELECT = 0"
| "mx_number MT_POLL = 1"
| "mx_number MT_EPOLL = 2"

definition LocationConfig_Print :: "location_config \<Rightarrow> log_entry list" where
  [eval_simps]: "LocationConfig_Print c =
     (let entry = Debug ''config/LocationConfig.cpp'' in
      [entry 103 [LF],
       entry 104 ''--Location configuration: --'',
       entry 105 (''Route: '' @ fst (lc_route c) @ '' '' @ flag_text (snd (lc_route c))),
       entry 106 ''Allowed methods: ''] @
      map (\<lambda>m. entry 108 (''  '' @ NumericToString (method_number m))) (lc_allowed_methods c) @
      [entry 110 (''Redirect: '' @ NumericToString (fst (lc_redirect c)) @ '' '' @ snd (lc_redirect c)),
       entry 111 (''CGI: '' @ (if lc_is_cgi c then ''enabled'' else ''disabled'')),
       entry 112 ''CGI extensions: ''] @
      map (\<lambda>x. entry 114 (''  '' @ x)) (lc_cgi_extensions c) @
      [entry 116 (''Alias directory: '' @ lc_alias_dir c),
       entry 117 ''Default file: ''] @
      map (\<lambda>x. entry 119 (''  '' @ x)) (lc_default_files c) @
      [entry 121 (''Directory listing: '' @ flag_text (lc_dir_listing c)),
       entry 122 (''Client max body size: '' @ NumericToString (uint (lc_client_max_body_size c)))])"

definition ServerConfig_Print :: "server_config \<Rightarrow> log_entry list" where
  [eval_simps]: "ServerConfig_Print c =
     (let entry = Debug ''config/ServerConfig.cpp'' in
      [entry 52 [LF],
       entry 53 ''--Server configuration: --'',
       entry 54 (''Access log path: '' @ sc_access_log_path c),
       entry 55 (''Access log level: '' @ NumericToString (severity_number (sc_access_log_level c))),
       entry 56 (''Error log path: '' @ sc_error_log_path c),
       entry 57 ''Listeners: ''] @
      map (\<lambda>(ip, port). entry 59 (''  '' @ IPv4ToString ip @ '':'' @ NumericToString (uint port)))
        (sc_listeners c) @
      [entry 62 ''Server names:''] @
      map (\<lambda>n. entry 64 (''  '' @ n)) (sc_server_names c) @
      concat (map LocationConfig_Print (sc_locations c)))"

definition HttpConfig_Print :: "http_config \<Rightarrow> log_entry list" where
  [eval_simps]: "HttpConfig_Print c =
     (let entry = Debug ''config/HttpConfig.cpp'' in
      [entry 42 [LF],
       entry 43 ''--HTTP configuration: --'',
       entry 44 (''Keepalive timeout: '' @ NumericToString (uint (hc_keepalive_timeout c))),
       entry 45 ''Error pages:''] @
      map (\<lambda>(code, page). entry 48 (''  '' @ NumericToString code @ '' -> '' @ page)) (hc_error_pages c) @
      concat (map ServerConfig_Print (hc_server_configs c)))"

definition Config_Print :: "config \<Rightarrow> log_entry list" where
  [eval_simps]: "Config_Print c =
     (let entry = Debug ''config/Config.cpp'' in
      [entry 35 ''--Configuration: --'',
       entry 36 (''Multiplex type: '' @ NumericToString (mx_number (cfg_mx_type c))),
       entry 37 (''Error log path: '' @ cfg_error_log_path c),
       entry 38 (''Error log level: '' @ NumericToString (severity_number (cfg_error_log_level c)))] @
      HttpConfig_Print (cfg_http_config c))"

definition PrintDebugInfo :: "server_cluster \<Rightarrow> log_entry list" where
  [eval_simps]: "PrintDebugInfo c =
     concat (map (\<lambda>srv.
       [Debug ''ServerCluster.cpp'' 104 (''Hi, i am Server '' @ server_name srv @
          ''. My config is: '' @ Server_GetDebugString srv),
        Debug ''ServerCluster.cpp'' 106 []]) (cl_servers c))"

section \<open>What is written, and where\<close>

lemma Logger_log_null: "Logger_log t sev = Null_stream \<longleftrightarrow> severity_number sev < severity_number t"
  by (simp add: Logger_log_def)

text \<open>
  A statement throws exactly at \<open>FATAL\<close>, with its line already written; it writes one line when its
  severity reaches the threshold and nothing otherwise, and never more than one.
\<close>

theorem LOG_spec:
  assumes "LOG localtime sev fname line message l = (r, l1)"
  shows "r = (if sev = FATAL then Inl Runtime_error else Inr ())"
    and "severity_number sev < severity_number (lg_severity_threshold l) \<Longrightarrow> lg_written l1 = lg_written l"
    and "severity_number (lg_severity_threshold l) \<le> severity_number sev \<Longrightarrow>
      lg_written l1 = lg_written l @
        [(if lg_file_open l then Log_file
          else if sev = DEBUG \<or> sev = INFO then Standard_output else Standard_error,
          log_line (localtime (lg_time_calls l)) sev fname line message)]"
    and "lg_file_open l1 = lg_file_open l" "lg_severity_threshold l1 = lg_severity_threshold l"
  using assms by (cases sev; auto simp: LOG_def LogWrapper_end_def Logger_log_def sink_of_def)+

text \<open>The lines of a sequence, one for each statement, in the order of the statements.\<close>

fun debug_lines :: "(nat \<Rightarrow> broken_time) \<Rightarrow> string \<Rightarrow> nat \<Rightarrow> log_entry list \<Rightarrow> string list" where
  "debug_lines localtime root n [] = []"
| "debug_lines localtime root n (Debug fname line message # es) =
     log_line (localtime n) DEBUG (root @ fname) line message # debug_lines localtime root (n + 1) es"

lemma length_debug_lines [simp]: "length (debug_lines localtime root n es) = length es"
  by (induction localtime root n es rule: debug_lines.induct) simp_all

lemma LOG_DEBUG_all_spec:
  "LOG_DEBUG_all localtime root es l = (Inr (),
     l\<lparr>lg_time_calls := lg_time_calls l + length es,
       lg_written := lg_written l @
         (if lg_severity_threshold l = DEBUG
          then map (Pair (if lg_file_open l then Log_file else Standard_output))
            (debug_lines localtime root (lg_time_calls l) es)
          else [])\<rparr>)"
proof (induction es arbitrary: l)
  case (Cons e es)
  obtain fname line message where e: "e = Debug fname line message" by (cases e)
  show ?case
    by (cases "lg_severity_threshold l")
      (simp_all add: e Cons.IH LOG_def LogWrapper_end_def Logger_log_def sink_of_def)
qed simp

text \<open>
  The logger of the program never has a file: whatever is logged and whatever threshold is set, its
  lines go to the streams of the process, so the path of \<open>error_log\<close> in a configuration has no effect.
\<close>

datatype log_call = Log_call severity string nat string | Set_call severity

fun log_step :: "(nat \<Rightarrow> broken_time) \<Rightarrow> log_call \<Rightarrow> logger \<Rightarrow> logger" where
  "log_step localtime (Log_call sev fname line message) l = snd (LOG localtime sev fname line message l)"
| "log_step localtime (Set_call sev) l = set_severity_threshold sev l"

lemma log_steps_sinks:
  assumes "\<not> lg_file_open l" "Log_file \<notin> fst ` set (lg_written l)"
  shows "\<not> lg_file_open (fold (log_step localtime) calls l) \<and>
    Log_file \<notin> fst ` set (lg_written (fold (log_step localtime) calls l))"
  using assms
proof (induction calls arbitrary: l)
  case (Cons c calls)
  show ?case
  proof (cases c)
    case (Log_call sev fname line message)
    obtain r l1 where l1: "LOG localtime sev fname line message l = (r, l1)" by (metis surj_pair)
    have "\<not> lg_file_open l1" "Log_file \<notin> fst ` set (lg_written l1)"
      using LOG_spec [OF l1] Cons.prems by (cases sev; cases "lg_severity_threshold l"; simp)+
    with Cons.IH show ?thesis by (simp add: Log_call l1)
  next
    case (Set_call sev)
    have "\<not> lg_file_open (set_severity_threshold sev l)"
      "Log_file \<notin> fst ` set (lg_written (set_severity_threshold sev l))"
      using Cons.prems by (simp_all add: set_severity_threshold_def)
    with Cons.IH show ?thesis by (simp add: Set_call)
  qed
qed simp

lemma program_has_no_log_file:
  "Log_file \<notin> fst ` set (lg_written (fold (log_step localtime) calls (Logger_get opens)))"
  by (rule conjunct2 [OF log_steps_sinks]) (simp_all add: Logger_get_def Logger_new_def)

section \<open>The buffer of the time stamp\<close>

definition LOGGER_TIME_FORMAT_MAX_LEN :: nat where
  [eval_simps]: "LOGGER_TIME_FORMAT_MAX_LEN = 25"

text \<open>What \<open>localtime\<close> fills in; a leap second makes 60 seconds, and \<open>tm_year\<close> is an \<open>int\<close>.\<close>

definition proper_time :: "broken_time \<Rightarrow> bool" where
  [eval_simps]: "proper_time t \<longleftrightarrow>
     tm_mon t \<in> {0..11} \<and> tm_mday t \<in> {1..31} \<and> tm_hour t \<in> {0..23} \<and> tm_min t \<in> {0..59} \<and>
     tm_sec t \<in> {0..60} \<and> tm_year t \<in> {- (2 ^ 31)..<2 ^ 31}"

lemma length_NumericToString:
  assumes "\<bar>n\<bar> < 10 ^ k" "0 < k"
  shows "length (NumericToString n) \<le> (if n < 0 then k + 1 else k)"
proof -
  have "nat \<bar>n\<bar> < 10 ^ k" using assms(1) by (simp add: nat_less_iff)
  from length_print_base [OF this assms(2)] show ?thesis by (cases "n < 0") (simp_all add: NumericToString_def)
qed

lemma two_digits_width: "0 \<le> n \<Longrightarrow> n < 100 \<Longrightarrow> length (two_digits n) = 2"
  using length_NumericToString [of n 2] by (simp add: two_digits_def Let_def)

theorem dump_time_fits:
  assumes "proper_time t"
  shows "length (dump_time t) + 1 \<le> LOGGER_TIME_FORMAT_MAX_LEN"
proof -
  have "\<bar>1900 + tm_year t\<bar> < 10 ^ 10" using assms by (simp add: proper_time_def) linarith
  from length_NumericToString [OF this] have "length (NumericToString (1900 + tm_year t)) \<le> 11"
    by (simp split: if_splits)
  then show ?thesis
    using assms by (simp add: dump_time_def LOGGER_TIME_FORMAT_MAX_LEN_def proper_time_def two_digits_width)
qed

end
