(* ===== verification/Reactor.thy ===== *)
theory Reactor
  imports ServerCluster CgiProcess MultiplexerProps
begin

text \<open>
  The cluster, its sessions and its scripts together with the event manager that calls them: which
  callbacks are registered, to whom they belong, and when they are deleted.  A callback holds a
  reference to the object that registered it, so calling one whose object is gone is undefined; the
  objects have serial numbers, because descriptors are used again.
\<close>

section \<open>State\<close>

datatype callback =
    MasterSocketCallback
  | OnReadyToRecvFromClientCb nat
  | OnReadyToSendToClientCb nat
  | ReadChildOutputCallback nat

text \<open>The processor that a session owns, with the descriptor of its end of the socket pair.\<close>

record running_script =
  ru_fd :: int
  ru_serial :: nat
  ru_proc :: cgi_processor

text \<open>\<open>rx_serial\<close> is the number of the session of a descriptor, \<open>rx_scripts\<close> holds the processors by client.\<close>

record reactor =
  rx_cluster :: server_cluster
  rx_em :: "callback event_manager"
  rx_serial :: "int \<Rightarrow> nat"
  rx_scripts :: "(int, running_script) std_map"
  rx_next :: nat

definition reactor_start :: "callback event_manager \<Rightarrow> server_cluster \<Rightarrow> reactor" where
  [eval_simps]: "reactor_start em c =
     \<lparr>rx_cluster = c, rx_em = em, rx_serial = (\<lambda>_. 0), rx_scripts = [], rx_next = 0\<rparr>"

definition client_of :: "reactor \<Rightarrow> int \<Rightarrow> client_session option" where
  [eval_simps]: "client_of w = map_find (cl_clients (rx_cluster w))"

definition script_of :: "reactor \<Rightarrow> int \<Rightarrow> running_script option" where
  [eval_simps]: "script_of w = map_find (rx_scripts w)"

definition reader_of :: "callback event_manager \<Rightarrow> int \<Rightarrow> callback option" where
  [eval_simps]: "reader_of em = map_find (rd_sockets (em_multiplexer em))"

definition writer_of :: "callback event_manager \<Rightarrow> int \<Rightarrow> callback option" where
  [eval_simps]: "writer_of em = map_find (wr_sockets (em_multiplexer em))"

text \<open>\<open>epoll_ctl\<close> answers a single registration with \<open>ok\<close>.\<close>

definition ctl_answers :: "bool \<Rightarrow> epoll_kernel" where
  [eval_simps]: "ctl_answers ok = (\<lambda>_ _ _ _. ok)"

section \<open>Callbacks\<close>

text \<open>\<open>MasterSocketCallback::Call\<close> and the constructor of the session, which registers itself for reading.\<close>

definition accept_client :: "int \<Rightarrow> int \<Rightarrow> int option \<Rightarrow> bool \<Rightarrow> reactor \<Rightarrow> reactor outcome" where
  [eval_simps]: "accept_client fd now accept_fd ctl_ok w =
     (case accept_fd of
        None \<Rightarrow> bind_outcome (cluster_step (Connection now False fd None) (rx_cluster w)) (\<lambda>c.
          Inr (w\<lparr>rx_cluster := c\<rparr>))
      | Some client_fd \<Rightarrow>
          bind_outcome (TryRegisterCallback (ctl_answers ctl_ok) client_fd CT_READ
            (OnReadyToRecvFromClientCb (rx_next w)) (rx_em w)) (\<lambda>(registered, em).
          bind_outcome (cluster_step (Connection now registered fd accept_fd) (rx_cluster w)) (\<lambda>c.
            Inr (w\<lparr>rx_cluster := c, rx_em := em, rx_serial := (rx_serial w)(client_fd := rx_next w),
              rx_next := Suc (rx_next w)\<rparr>))))"

text \<open>
  \<open>OnReadyToRecvFromClientCb::Call\<close>.  What the event manager would answer to a registration is what the
  session is told, and the registration that it made is kept: that of its write callback, or that of the
  script that it started, whose end of the socket pair is \<open>child_fd\<close>.
\<close>

definition client_readable ::
  "int \<Rightarrow> nat \<Rightarrow> session_env \<Rightarrow> recv_package \<Rightarrow> int \<Rightarrow> bool \<Rightarrow> reactor \<Rightarrow> reactor outcome" where
  [eval_simps]: "client_readable fd n e pack child_fd ctl_ok w =
     (case client_of w fd of
        None \<Rightarrow> Inl Undefined_behaviour
      | Some s \<Rightarrow>
          if rx_serial w fd \<noteq> n then Inl Undefined_behaviour
          else
            bind_outcome (TryRegisterCallback (ctl_answers ctl_ok) child_fd CT_READ
              (ReadChildOutputCallback (rx_next w)) (rx_em w)) (\<lambda>(script_ok, em_script).
            bind_outcome (TryRegisterCallback (ctl_answers ctl_ok) fd CT_WRITE
              (OnReadyToSendToClientCb n) (rx_em w)) (\<lambda>(write_ok, em_write).
            bind_outcome (cluster_step (Client_event fd (Readable
              (e\<lparr>se_write_ok := write_ok, se_proc := (se_proc e)\<lparr>pe_callback_ok := script_ok\<rparr>\<rparr>) pack)) (rx_cluster w)) (\<lambda>c.
              let v = w\<lparr>rx_cluster := c\<rparr> in
              Inr (case client_of v fd of None \<Rightarrow> v
                | Some t \<Rightarrow>
                    if cs_script s = None \<and> cs_script t \<noteq> None then
                      v\<lparr>rx_em := em_script, rx_scripts := map_assign fd
                        \<lparr>ru_fd = child_fd, ru_serial = rx_next w, ru_proc = CGIProcessor_started\<rparr> (rx_scripts w),
                        rx_next := Suc (rx_next w)\<rparr>
                    else if cs_writer s = None \<and> cs_writer t \<noteq> None then v\<lparr>rx_em := em_write\<rparr>
                    else v)))))"

text \<open>The destructor of a processor: a running script is given up.\<close>

definition drop_script :: "int \<Rightarrow> callback event_manager \<times> (int, running_script) std_map
    \<Rightarrow> callback event_manager \<times> (int, running_script) std_map" where
  [eval_simps]: "drop_script fd = (\<lambda>(em, scripts).
     (case map_find scripts fd of None \<Rightarrow> em
        | Some r \<Rightarrow> if cp_child (ru_proc r) then DeleteCallback (ru_fd r) CT_READWRITE em else em,
      map_erase fd scripts))"

text \<open>\<open>OnReadyToSendToClientCb::Call\<close>: after the last byte \<open>ResponseSentCleanup\<close> deletes the callback and the processor.\<close>

definition client_writable :: "int \<Rightarrow> nat \<Rightarrow> session_env \<Rightarrow> int \<Rightarrow> int \<Rightarrow> reactor \<Rightarrow> reactor outcome" where
  [eval_simps]: "client_writable fd n e answer1 answer2 w =
     (case client_of w fd of
        None \<Rightarrow> Inl Undefined_behaviour
      | Some s \<Rightarrow>
          if rx_serial w fd \<noteq> n \<or> cs_writer s = None then Inl Undefined_behaviour
          else
            bind_outcome (cluster_step (Client_event fd (Writable e answer1 answer2)) (rx_cluster w)) (\<lambda>c.
              let v = w\<lparr>rx_cluster := c\<rparr> in
              Inr (case client_of v fd of None \<Rightarrow> v
                | Some t \<Rightarrow>
                    if cs_writer t = None then
                      (case drop_script fd (DeleteCallback fd CT_WRITE (rx_em w), rx_scripts w) of
                         (em, scripts) \<Rightarrow> v\<lparr>rx_em := em, rx_scripts := scripts\<rparr>)
                    else v)))"

text \<open>
  The callbacks of a processor: \<open>ReadChildOutputCallback::Call\<close> and \<open>ChildProcessDoneCb::Call\<close>.  All but
  the arrival of data and a successful exit delete the read callback; a response goes to the session.
\<close>

definition deletes_reader :: "cgi_event \<Rightarrow> bool" where
  [eval_simps]: "deletes_reader ev \<longleftrightarrow>
     (case ev of Recv_data _ \<Rightarrow> False | Child_done status \<Rightarrow> status \<noteq> 0 | _ \<Rightarrow> True)"

definition script_event ::
  "int \<Rightarrow> running_script \<Rightarrow> session_env \<Rightarrow> cgi_event \<Rightarrow> bool \<Rightarrow> reactor \<Rightarrow> reactor outcome" where
  [eval_simps]: "script_event fd r e ev ctl_ok w =
     (case client_of w fd of
        None \<Rightarrow> Inl Undefined_behaviour
      | Some s \<Rightarrow>
          bind_outcome (cgi_step (se_proc e) (cs_dest s) ev (ru_proc r)) (\<lambda>p.
            let em = if deletes_reader ev then DeleteCallback (ru_fd r) CT_READWRITE (rx_em w) else rx_em w;
                v = w\<lparr>rx_em := em, rx_scripts := map_assign fd (r\<lparr>ru_proc := p\<rparr>) (rx_scripts w)\<rparr>
            in case drop (length (cp_sent (ru_proc r))) (cp_sent p) of
              [] \<Rightarrow> Inr v
            | rs # _ \<Rightarrow>
                bind_outcome (TryRegisterCallback (ctl_answers ctl_ok) fd CT_WRITE
                  (OnReadyToSendToClientCb (rx_serial w fd)) em) (\<lambda>(write_ok, em1).
                bind_outcome (cluster_step (Client_event fd (Script_done (e\<lparr>se_write_ok := write_ok\<rparr>) rs)) (rx_cluster w)) (\<lambda>c.
                  Inr (v\<lparr>rx_cluster := c, rx_em := em1\<rparr>)))))"

definition script_readable :: "nat \<Rightarrow> session_env \<Rightarrow> cgi_event \<Rightarrow> bool \<Rightarrow> reactor \<Rightarrow> reactor outcome" where
  [eval_simps]: "script_readable n e ev ctl_ok w =
     (case find (\<lambda>(_, r). ru_serial r = n) (rx_scripts w) of
        None \<Rightarrow> Inl Undefined_behaviour
      | Some (fd, r) \<Rightarrow> script_event fd r e ev ctl_ok w)"

section \<open>A turn of the loop\<close>

text \<open>What the kernel and the clients answer when a callback is called.\<close>

datatype input =
    Accepted int "int option" bool
  | Received session_env recv_package int bool
  | Sent session_env int int
  | Output session_env cgi_event bool

definition run_callback :: "callback \<Rightarrow> int \<Rightarrow> input \<Rightarrow> reactor \<Rightarrow> reactor outcome" where
  [eval_simps]: "run_callback cb fd i w =
     (case (cb, i) of
        (MasterSocketCallback, Accepted now accept_fd ctl_ok) \<Rightarrow> accept_client fd now accept_fd ctl_ok w
      | (OnReadyToRecvFromClientCb n, Received e pack child_fd ctl_ok) \<Rightarrow> client_readable fd n e pack child_fd ctl_ok w
      | (OnReadyToSendToClientCb n, Sent e answer1 answer2) \<Rightarrow> client_writable fd n e answer1 answer2 w
      | (ReadChildOutputCallback n, Output e ev ctl_ok) \<Rightarrow> script_readable n e ev ctl_ok w
      | _ \<Rightarrow> Inr w)"

text \<open>An event: a descriptor is ready, for writing or for reading.\<close>

type_synonym ready = "int \<times> bool \<times> input"

definition registered_for :: "bool \<Rightarrow> reactor \<Rightarrow> (int, callback) std_map" where
  [eval_simps]: "registered_for writing w =
     (if writing then wr_sockets (em_multiplexer (rx_em w)) else rd_sockets (em_multiplexer (rx_em w)))"

fun deliver_ready :: "ready \<Rightarrow> reactor \<Rightarrow> reactor outcome" where
  "deliver_ready (fd, writing, i) w = call_found (\<lambda>cb fd. run_callback cb fd i) (registered_for writing w) fd w"

text \<open>The end of the script of a client, its status and the answer to the registration that may follow.\<close>

type_synonym child_exit = "int \<times> session_env \<times> int \<times> bool"

fun report_exit :: "child_exit \<Rightarrow> reactor \<Rightarrow> reactor outcome" where
  "report_exit (fd, e, status, ctl_ok) w =
     (case script_of w fd of None \<Rightarrow> Inr w
      | Some r \<Rightarrow> script_event fd r e (Child_done status) ctl_ok w)"

text \<open>\<open>CheckClients_\<close>: the destructor of a session deletes its callbacks, then its processor goes.\<close>

definition drop_session :: "int \<Rightarrow> callback event_manager \<times> (int, running_script) std_map
    \<Rightarrow> callback event_manager \<times> (int, running_script) std_map" where
  [eval_simps]: "drop_session fd = (\<lambda>(em, scripts). drop_script fd (DeleteCallback fd CT_READWRITE em, scripts))"

definition closed_clients :: "reactor \<Rightarrow> int list" where
  [eval_simps]: "closed_clients w = map fst (filter (\<lambda>(_, s). cs_closed s) (cl_clients (rx_cluster w)))"

definition check_reactor :: "int \<Rightarrow> reactor \<Rightarrow> reactor" where
  [eval_simps]: "check_reactor now w =
     (case fold drop_session (closed_clients w) (rx_em w, rx_scripts w) of
        (em, scripts) \<Rightarrow> w\<lparr>rx_cluster := CheckClients now (rx_cluster w), rx_em := em, rx_scripts := scripts\<rparr>)"

record reactor_turn =
  tn_kernel :: epoll_kernel
  tn_ready :: "ready list"
  tn_exits :: "child_exit list"
  tn_now :: int

definition flush :: "epoll_kernel \<Rightarrow> reactor \<Rightarrow> reactor" where
  [eval_simps]: "flush k w = w\<lparr>rx_em := delete_pending k (rx_em w)\<rparr>"

text \<open>
  \<open>EventManager::CheckOnce\<close>, \<open>ChildProcessesManager::CheckOnce\<close> and \<open>CheckClients_\<close>, when no allocation fails
  (\<open>Run_turn\<close> has what follows when one does).
\<close>

definition reactor_step :: "reactor_turn \<Rightarrow> reactor \<Rightarrow> reactor outcome" where
  [eval_simps]: "reactor_step t w =
     bind_outcome (run_events deliver_ready (flush (tn_kernel t) w) (tn_ready t)) (\<lambda>v.
     bind_outcome (run_events report_exit v (tn_exits t)) (\<lambda>u.
       Inr (check_reactor (tn_now t) u)))"

section \<open>What the kernel promises\<close>

definition fd_open :: "reactor \<Rightarrow> int \<Rightarrow> bool" where
  [eval_simps]: "fd_open w fd \<longleftrightarrow> map_find (cl_sockets (rx_cluster w)) fd \<noteq> None \<or> client_of w fd \<noteq> None \<or>
     (\<exists>(_, r)\<in>set (rx_scripts w). cp_child (ru_proc r) \<and> ru_fd r = fd)"

text \<open>
  The answer fits the callback; a new descriptor is not in use; and what a client sends is not one of the
  reads that a session does not survive.
\<close>

definition input_fits :: "callback \<Rightarrow> int \<Rightarrow> input \<Rightarrow> reactor \<Rightarrow> bool" where
  [eval_simps]: "input_fits cb fd i w \<longleftrightarrow>
     (case (cb, i) of
        (MasterSocketCallback, Accepted now accept_fd ctl_ok) \<Rightarrow>
          (case accept_fd of None \<Rightarrow> True | Some client_fd \<Rightarrow> \<not> fd_open w client_fd)
      | (OnReadyToRecvFromClientCb n, Received e pack child_fd ctl_ok) \<Rightarrow>
          \<not> fd_open w child_fd \<and> cluster_guard (Client_event fd (Readable e pack)) (rx_cluster w)
      | (OnReadyToSendToClientCb n, Sent e answer1 answer2) \<Rightarrow> True
      | (ReadChildOutputCallback n, Output e ev ctl_ok) \<Rightarrow> (case ev of Child_done _ \<Rightarrow> False | _ \<Rightarrow> True)
      | _ \<Rightarrow> False)"

fun ready_guard :: "ready \<Rightarrow> reactor \<Rightarrow> bool" where
  "ready_guard (fd, writing, i) w \<longleftrightarrow>
     (case map_find (registered_for writing w) fd of None \<Rightarrow> True | Some cb \<Rightarrow> input_fits cb fd i w)"

text \<open>An exit is reported while the child is in the list of the process manager.\<close>

fun exit_guard :: "child_exit \<Rightarrow> reactor \<Rightarrow> bool" where
  "exit_guard (fd, e, status, ctl_ok) w \<longleftrightarrow>
     (case script_of w fd of None \<Rightarrow> False | Some r \<Rightarrow> cp_listed (ru_proc r))"

text \<open>In a turn every descriptor is ready at most once for reading and once for writing.\<close>

definition turn_guard :: "reactor_turn \<Rightarrow> reactor \<Rightarrow> bool" where
  "turn_guard t w \<longleftrightarrow>
     distinct (map (\<lambda>(fd, writing, _). (fd, writing)) (tn_ready t)) \<and>
     can_happen deliver_ready ready_guard (flush (tn_kernel t) w) (tn_ready t) \<and>
     (case run_events deliver_ready (flush (tn_kernel t) w) (tn_ready t) of
        Inl _ \<Rightarrow> True | Inr v \<Rightarrow> can_happen report_exit exit_guard v (tn_exits t))"

text \<open>The promise without the clients: they send what they like.\<close>

definition input_promise :: "callback \<Rightarrow> int \<Rightarrow> input \<Rightarrow> reactor \<Rightarrow> bool" where
  [eval_simps]: "input_promise cb fd i w \<longleftrightarrow>
     (case (cb, i) of
        (OnReadyToRecvFromClientCb n, Received e pack child_fd ctl_ok) \<Rightarrow>
          \<not> fd_open w child_fd \<and> cluster_promise (Client_event fd (Readable e pack)) (rx_cluster w)
      | _ \<Rightarrow> input_fits cb fd i w)"

fun ready_promise :: "ready \<Rightarrow> reactor \<Rightarrow> bool" where
  "ready_promise (fd, writing, i) w \<longleftrightarrow>
     (case map_find (registered_for writing w) fd of None \<Rightarrow> True | Some cb \<Rightarrow> input_promise cb fd i w)"

definition turn_promise :: "reactor_turn \<Rightarrow> reactor \<Rightarrow> bool" where
  "turn_promise t w \<longleftrightarrow>
     distinct (map (\<lambda>(fd, writing, _). (fd, writing)) (tn_ready t)) \<and>
     can_happen deliver_ready ready_promise (flush (tn_kernel t) w) (tn_ready t) \<and>
     (case run_events deliver_ready (flush (tn_kernel t) w) (tn_ready t) of
        Inl _ \<Rightarrow> True | Inr v \<Rightarrow> can_happen report_exit exit_guard v (tn_exits t))"

text \<open>A turn in which a client sends something that its session does not survive.\<close>

definition turn_fails :: "reactor_turn \<Rightarrow> reactor \<Rightarrow> bool" where
  "turn_fails t w \<longleftrightarrow>
     (\<exists>pre fd writing e pack child_fd ctl_ok post v s.
        tn_ready t = pre @ (fd, writing, Received e pack child_fd ctl_ok) # post \<and>
        run_events deliver_ready (flush (tn_kernel t) w) pre = Inr v \<and>
        client_of v fd = Some s \<and> read_fails e pack s)"

lemma input_unguarded:
  assumes "input_promise cb fd i w" "\<not> input_fits cb fd i w"
  shows "\<exists>e pack child_fd ctl_ok s. i = Received e pack child_fd ctl_ok \<and> client_of w fd = Some s \<and> read_fails e pack s"
proof -
  from assms obtain n e pack child_fd ctl_ok where i: "cb = OnReadyToRecvFromClientCb n" "i = Received e pack child_fd ctl_ok"
    by (auto simp: input_promise_def simp del: cluster_promise.simps split: callback.splits input.splits)
  with assms have "cluster_promise (Client_event fd (Readable e pack)) (rx_cluster w)"
    "\<not> cluster_guard (Client_event fd (Readable e pack)) (rx_cluster w)"
    by (simp_all add: input_promise_def input_fits_def del: cluster_promise.simps cluster_guard.simps)
  from cluster_unguarded [OF this] i show ?thesis by (auto simp: client_of_def)
qed

lemma turn_promise_or:
  assumes "turn_promise t w"
  shows "turn_guard t w \<or> turn_fails t w"
proof -
  let ?w = "flush (tn_kernel t) w"
  from assms have "can_happen deliver_ready ready_promise ?w (tn_ready t)" by (simp add: turn_promise_def)
  from can_happen_or [OF this, of ready_guard] show ?thesis
  proof (elim disjE exE conjE)
    fix pre ev post v assume v: "tn_ready t = pre @ ev # post" "run_events deliver_ready ?w pre = Inr v"
      "ready_promise ev v" "\<not> ready_guard ev v"
    obtain fd writing i where ev: "ev = (fd, writing, i)" by (cases ev)
    with v(3,4) obtain cb where "input_promise cb fd i v" "\<not> input_fits cb fd i v"
      by (auto split: option.splits)
    from input_unguarded [OF this] v(1,2) ev show ?thesis unfolding turn_fails_def by blast
  qed (use assms in \<open>simp add: turn_promise_def turn_guard_def\<close>)
qed

end
