(* ===== verification/ReactorInv.thy ===== *)
theory ReactorInv
  imports Reactor
begin

text \<open>
  The invariant of the loop: what is registered belongs to an object that is there, and every object that
  waits for a descriptor is registered for it.  Inside a turn the invariant names the descriptors that have
  been ready already.
\<close>

section \<open>The event manager as two maps and a list\<close>

definition em_sorted :: "callback event_manager \<Rightarrow> bool" where
  "em_sorted em \<longleftrightarrow> map_sorted (rd_sockets (em_multiplexer em)) \<and> map_sorted (wr_sockets (em_multiplexer em))"

definition to_delete :: "callback event_manager \<Rightarrow> int \<Rightarrow> callback_type \<Rightarrow> bool" where
  "to_delete em fd t \<longleftrightarrow> (\<exists>u. (fd, u) \<in> set (fds_to_delete em) \<and> has_flag u t)"

lemma type_flags [simp]:
  "has_flag CT_READ CT_READ" "\<not> has_flag CT_READ CT_WRITE" "has_flag CT_WRITE CT_WRITE"
  "\<not> has_flag CT_WRITE CT_READ" "has_flag CT_READWRITE CT_READ" "has_flag CT_READWRITE CT_WRITE"
  by (simp_all add: event_bits)

lemma TryRegisterFdImpl_maps:
  "TryRegisterFdImpl k fd t mx = (ok, mx1) \<Longrightarrow> rd_sockets mx1 = rd_sockets mx \<and> wr_sockets mx1 = wr_sockets mx"
  by (auto simp: TryRegisterFdImpl_def Epoll_TryRegisterFdImpl_def epoll_ctl_def Let_def split: if_splits)

lemma UnregisterFdImpl_maps [simp]:
  "rd_sockets (UnregisterFdImpl k fd t mx) = rd_sockets mx" "wr_sockets (UnregisterFdImpl k fd t mx) = wr_sockets mx"
  by (simp_all add: UnregisterFdImpl_def Epoll_UnregisterFdImpl_def epoll_ctl_def Let_def)

lemma register_reader:
  "\<exists>ok em1. TryRegisterCallback k fd CT_READ cb em = Inr (ok, em1) \<and> (ok \<longrightarrow> reader_of em fd = None) \<and>
    reader_of em1 = (if ok then (reader_of em)(fd \<mapsto> cb) else reader_of em) \<and> writer_of em1 = writer_of em \<and>
    fds_to_delete em1 = fds_to_delete em \<and> (em_sorted em \<longrightarrow> em_sorted em1)"
proof -
  obtain ok mx1 where impl: "TryRegisterFdImpl k fd CT_READ (em_multiplexer em) = (ok, mx1)" by fastforce
  from TryRegisterFdImpl_maps [OF this] show ?thesis
    using impl events_of_type
    by (cases ok) (auto simp: TryRegisterCallback_def TryRegisterFd_def is_registered_def reader_of_def writer_of_def
        map_find_assign em_sorted_def map_sorted_assign)
qed

lemma register_writer:
  "\<exists>ok em1. TryRegisterCallback k fd CT_WRITE cb em = Inr (ok, em1) \<and> (ok \<longrightarrow> writer_of em fd = None) \<and>
    writer_of em1 = (if ok then (writer_of em)(fd \<mapsto> cb) else writer_of em) \<and> reader_of em1 = reader_of em \<and>
    fds_to_delete em1 = fds_to_delete em \<and> (em_sorted em \<longrightarrow> em_sorted em1)"
proof -
  obtain ok mx1 where impl: "TryRegisterFdImpl k fd CT_WRITE (em_multiplexer em) = (ok, mx1)" by fastforce
  from TryRegisterFdImpl_maps [OF this] show ?thesis
    using impl events_of_type
    by (cases ok) (auto simp: TryRegisterCallback_def TryRegisterFd_def is_registered_def reader_of_def writer_of_def
        map_find_assign em_sorted_def map_sorted_assign)
qed

lemma DeleteCallback_views [simp]:
  "reader_of (DeleteCallback fd t em) = reader_of em" "writer_of (DeleteCallback fd t em) = writer_of em"
  "fds_to_delete (DeleteCallback fd t em) = fds_to_delete em @ [(fd, t)]"
  "em_sorted (DeleteCallback fd t em) = em_sorted em"
  by (simp_all add: DeleteCallback_def reader_of_def writer_of_def em_sorted_def)

lemma to_delete_DeleteCallback [simp]:
  "to_delete (DeleteCallback fd t em) j u \<longleftrightarrow> to_delete em j u \<or> j = fd \<and> has_flag t u"
  by (auto simp: to_delete_def)

lemma UnregisterFd_maps:
  assumes "map_sorted (rd_sockets mx)" "map_sorted (wr_sockets mx)"
  shows "map_find (rd_sockets (UnregisterFd k fd t mx)) j =
      (if j = fd \<and> has_flag t CT_READ then None else map_find (rd_sockets mx) j)"
    "map_find (wr_sockets (UnregisterFd k fd t mx)) j =
      (if j = fd \<and> has_flag t CT_WRITE then None else map_find (wr_sockets mx) j)"
    "map_sorted (rd_sockets (UnregisterFd k fd t mx))" "map_sorted (wr_sockets (UnregisterFd k fd t mx))"
  using assms by (auto simp: UnregisterFd_def Let_def is_registered_def map_find_erase map_sorted_erase)

lemma unregister_all:
  assumes "map_sorted (rd_sockets mx)" "map_sorted (wr_sockets mx)"
  shows "map_find (rd_sockets (fold (\<lambda>(fd, t). UnregisterFd k fd t) ds mx)) j =
      (if \<exists>u. (j, u) \<in> set ds \<and> has_flag u CT_READ then None else map_find (rd_sockets mx) j) \<and>
    map_find (wr_sockets (fold (\<lambda>(fd, t). UnregisterFd k fd t) ds mx)) j =
      (if \<exists>u. (j, u) \<in> set ds \<and> has_flag u CT_WRITE then None else map_find (wr_sockets mx) j) \<and>
    map_sorted (rd_sockets (fold (\<lambda>(fd, t). UnregisterFd k fd t) ds mx)) \<and>
    map_sorted (wr_sockets (fold (\<lambda>(fd, t). UnregisterFd k fd t) ds mx))"
  using assms
proof (induction ds arbitrary: mx)
  case (Cons d ds)
  obtain fd t where d: "d = (fd, t)" by (cases d)
  note u = UnregisterFd_maps [OF Cons.prems, of k fd t]
  from Cons.IH [OF u(3,4)] show ?case by (auto simp: d u(1,2))
qed simp

lemma delete_pending_views:
  assumes "em_sorted em"
  shows "reader_of (delete_pending k em) fd = (if to_delete em fd CT_READ then None else reader_of em fd)"
    "writer_of (delete_pending k em) fd = (if to_delete em fd CT_WRITE then None else writer_of em fd)"
    "fds_to_delete (delete_pending k em) = []" "em_sorted (delete_pending k em)"
  using unregister_all [of "em_multiplexer em" k "fds_to_delete em" fd] assms
  by (auto simp: delete_pending_def reader_of_def writer_of_def to_delete_def em_sorted_def)

section \<open>What sessions and processors do\<close>

lemma FileProcessor_answers:
  assumes "types_distinct (pe_fs e)" "rd_loc d = Some loc"
  shows "FileProcessor e d rq \<noteq> Some (Inr (Await params))"
proof -
  have "DirectoryProcessor e d rq \<noteq> Inr (Await params)"
    by (auto simp: DirectoryProcessor_def RedirectProcessor_def DelegateToErrProc_def Let_def bind_outcome_Inr_iff split: if_splits option.splits)
  then have "ProcessGet e d rq \<noteq> Some (Inr (Await params))"
    using ProcessGet_eq [OF assms, of rq]
    by (auto simp: serve_file_def DelegateToErrProc_def Let_def split: if_splits option.splits)
  then show ?thesis
    by (auto simp: FileProcessor_def ProcessPost_def ProcessDelete_def DelegateToErrProc_def Let_def
        split: http_method.splits if_splits)
qed

lemma ProcessRequest_awaits:
  assumes "ProcessRequest e rq d = Some (Inr (Await params))" "types_distinct (pe_fs e)"
  shows "pe_callback_ok e"
proof -
  obtain loc where loc: "rd_loc d = Some loc" "GetResponseProcessor e rq d = Some (Inr (Await params))"
    using assms(1) by (auto simp: ProcessRequest_def GetResponseProcessor_def split: if_splits option.splits)
  with FileProcessor_answers [OF assms(2), of d loc rq params] have "CGIProcessor e d rq = Inr (Await params)"
    by (auto simp: GetResponseProcessor_def RedirectProcessor_def DelegateToErrProc_def split: if_splits)
  then show ?thesis
    by (auto simp: CGIProcessor_def start_child_def DelegateToErrProc_def Let_def bind_outcome_Inr_iff
        split: option.splits if_splits)
qed

text \<open>A read can end in a response or in a script, and then the registration it needed was made.\<close>

lemma readable_effect:
  assumes "session_step (Readable e pack) s = Inr t" "not_stuck s" "cs_busy s \<or> rp_status pack \<noteq> RS_OK \<or> system_ok e"
  shows "cs_busy s \<Longrightarrow> t = s"
    "cs_writer t = cs_writer s \<or> cs_writer s = None \<and> se_write_ok e"
    "cs_script t = cs_script s \<or> cs_script s = None \<and> pe_callback_ok (se_proc e)"
    "cs_script t = None \<or> cs_writer t = None"
proof -
  have idle: "\<not> cs_busy s \<Longrightarrow> cs_writer s = None \<and> cs_script s = None" "cs_writer s = None \<or> cs_script s = None"
    using assms(2) by (simp_all add: not_stuck_def)
  have answer: "(cs_writer (take_answer e a u) = cs_writer u \<or> se_write_ok e) \<and>
      (cs_script (take_answer e a u) = cs_script u \<or> (\<exists>params. a = Await params)) \<and>
      (cs_script u = None \<and> cs_writer u = None \<longrightarrow> cs_script (take_answer e a u) = None \<or> cs_writer (take_answer e a u) = None)"
    for a u
    by (cases a) (simp_all add: take_answer_def PrepareResponse_def CloseConnection_def Let_def)
  show "cs_busy s \<Longrightarrow> t = s" using assms(1) by (simp add: OnReadyToRecv_def)
  have "(cs_writer t = cs_writer s \<or> cs_writer s = None \<and> se_write_ok e) \<and>
    (cs_script t = cs_script s \<or> cs_script s = None \<and> pe_callback_ok (se_proc e)) \<and>
    (cs_script t = None \<or> cs_writer t = None)"
  proof (cases "cs_busy s \<or> rp_status pack \<noteq> RS_OK")
    case True
    with assms(1) idle show ?thesis by (auto simp: OnReadyToRecv_def CloseConnection_def split: if_splits)
  next
    case False
    then have td: "types_distinct (pe_fs (se_proc e))" using assms(3) by (simp add: system_ok_def)
    from False assms(1) have "ProcessNewData e (rp_data pack) s = Some (Inr t)"
      by (auto simp: OnReadyToRecv_def split: option.splits)
    then obtain b d where bd: "session_Build e (cs_master_fd s) (cs_builder s, cs_dest s) (rp_data pack) = Some (Inr (b, d))"
      by (auto simp: ProcessNewData_def split: option.splits sum.splits)
    let ?t = "s\<lparr>cs_last_activity := pe_now (se_proc e), cs_builder := b, cs_dest := d\<rparr>"
    from \<open>ProcessNewData e (rp_data pack) s = Some (Inr t)\<close> bd have
      "t = ?t \<or> (\<exists>a. ProcessRequest (se_proc e) (rb_rq b) d = Some (Inr a) \<and> t = take_answer e a (?t\<lparr>cs_busy := True\<rparr>))"
      by (auto simp: ProcessNewData_def Let_def map_outcome_Inr_iff split: if_splits)
    then show ?thesis
    proof
      assume "\<exists>a. ProcessRequest (se_proc e) (rb_rq b) d = Some (Inr a) \<and> t = take_answer e a (?t\<lparr>cs_busy := True\<rparr>)"
      then obtain a where a: "ProcessRequest (se_proc e) (rb_rq b) d = Some (Inr a)" "t = take_answer e a (?t\<lparr>cs_busy := True\<rparr>)"
        by blast
      have "a = Await params \<Longrightarrow> pe_callback_ok (se_proc e)" for params
        using ProcessRequest_awaits [of "se_proc e" "rb_rq b" d params] a(1) td by simp
      then show ?thesis using idle False answer [of a "?t\<lparr>cs_busy := True\<rparr>"] a(2) by auto
    qed (use idle False in simp)
  qed
  then show "cs_writer t = cs_writer s \<or> cs_writer s = None \<and> se_write_ok e"
    "cs_script t = cs_script s \<or> cs_script s = None \<and> pe_callback_ok (se_proc e)"
    "cs_script t = None \<or> cs_writer t = None" by simp_all
qed

lemma writable_effect:
  "cs_script (OnReadyToSend e a1 a2 s) \<in> {None, cs_script s}"
  "cs_writer s = None \<Longrightarrow> OnReadyToSend e a1 a2 s = s"
  by (auto simp: OnReadyToSend_def ResponseSentCleanup_def CloseConnection_def Let_def
      split: option.splits prod.splits send_result.splits)

lemma Script_done_effect:
  "cs_script (ProceedWithResponse e r s) = None"
  "cs_writer (ProceedWithResponse e r s) = cs_writer s \<or> se_write_ok e"
  by (simp_all add: ProceedWithResponse_def PrepareResponse_def CloseConnection_def Let_def)

lemma cgi_reader:
  assumes "cgi_step e d ev p = Inr q" "cgi_guard ev p"
  shows "cp_registered q \<longleftrightarrow> cp_registered p \<and> \<not> deletes_reader ev"
proof -
  have sends: "cp_registered b = cp_registered a" if "delegate_error e d rc a = Inr b" for a b rc
    using that by (auto simp: delegate_error_def call_response_cb_def bind_outcome_Inr_iff split: if_splits)
  have proceeds: "cp_registered b = cp_registered a" if "ProceedWithRsIfRdy e d a = Inr b" for a b
    using that sends by (auto simp: ProceedWithRsIfRdy_def call_response_cb_def Let_def split: if_splits option.splits dest!: sends)
  show ?thesis
    using assms
    by (cases ev) (auto simp: cgi_step_def ReadChildOutput_def ChildProcessDone_def DeleteCallback_of_child_def
        deletes_reader_def cgi_guard_def bind_outcome_Inr_iff split: if_splits dest!: sends proceeds)
qed

lemma cgi_event_effect:
  assumes "cgi_inv p" "cgi_guard ev p"
  shows "\<exists>q. cgi_step e d ev p = Inr q \<and> cgi_inv q \<and> cp_child p \<and> cp_sent p = [] \<and>
    (cp_registered q \<longleftrightarrow> cp_registered p \<and> \<not> deletes_reader ev) \<and> (cp_child q \<longleftrightarrow> cp_sent q = [])"
proof -
  obtain q where q: "cgi_step e d ev p = Inr q" "cgi_inv q" using cgi_step_inv [OF assms] by blast
  have "cp_child p \<and> cp_sent p = []"
    using assms by (cases ev) (auto simp: cgi_inv_def cgi_guard_def split: if_splits)
  with q cgi_reader [OF q(1) assms(2)] show ?thesis by (auto simp: cgi_inv_def split: if_splits)
qed


section \<open>The invariant\<close>

text \<open>
  Over what the state looks like: \<open>L\<close> the descriptors of listeners, \<open>C\<close> the sessions, \<open>S\<close> the processors,
  \<open>R\<close> and \<open>W\<close> the callbacks registered for reading and writing, \<open>ser\<close> the serial numbers and \<open>del\<close> what is
  to be deleted.  A processor has a child exactly while its session waits for a script.
\<close>

definition scripts_ok :: "(int \<Rightarrow> client_session option) \<Rightarrow> (int \<Rightarrow> running_script option) \<Rightarrow> nat \<Rightarrow> bool" where
  "scripts_ok C S nx \<longleftrightarrow>
     (\<forall>fd s. C fd = Some s \<longrightarrow> cs_script s \<noteq> None \<longrightarrow> (\<exists>r. S fd = Some r \<and> cp_child (ru_proc r))) \<and>
     (\<forall>fd r. S fd = Some r \<longrightarrow> ru_serial r < nx \<and> cgi_inv (ru_proc r) \<and>
        (\<exists>s. C fd = Some s \<and> (cp_child (ru_proc r) \<longrightarrow> cs_script s \<noteq> None))) \<and>
     (\<forall>f g r q. S f = Some r \<longrightarrow> S g = Some q \<longrightarrow> ru_serial r = ru_serial q \<longrightarrow> f = g)"

text \<open>No descriptor has two uses.\<close>

definition fds_ok :: "(int \<Rightarrow> bool) \<Rightarrow> (int \<Rightarrow> client_session option) \<Rightarrow> (int \<Rightarrow> running_script option) \<Rightarrow> bool" where
  "fds_ok L C S \<longleftrightarrow>
     (\<forall>fd. L fd \<longrightarrow> C fd = None) \<and>
     (\<forall>f r. S f = Some r \<longrightarrow> cp_child (ru_proc r) \<longrightarrow> \<not> L (ru_fd r) \<and> C (ru_fd r) = None) \<and>
     (\<forall>f g r q. S f = Some r \<longrightarrow> S g = Some q \<longrightarrow> cp_child (ru_proc r) \<longrightarrow> cp_child (ru_proc q) \<longrightarrow>
        ru_fd r = ru_fd q \<longrightarrow> f = g)"

text \<open>Every object that waits for a descriptor is registered for it, and will be in the next turn.\<close>

definition watched ::
  "(int \<Rightarrow> bool) \<Rightarrow> (int \<Rightarrow> client_session option) \<Rightarrow> (int \<Rightarrow> running_script option) \<Rightarrow> (int \<Rightarrow> nat)
     \<Rightarrow> (int \<Rightarrow> callback option) \<Rightarrow> (int \<Rightarrow> callback option) \<Rightarrow> (int \<Rightarrow> callback_type \<Rightarrow> bool) \<Rightarrow> bool" where
  "watched L C S ser R W del \<longleftrightarrow>
     (\<forall>fd. L fd \<longrightarrow> R fd = Some MasterSocketCallback \<and> \<not> del fd CT_READ) \<and>
     (\<forall>fd s. C fd = Some s \<longrightarrow> R fd = Some (OnReadyToRecvFromClientCb (ser fd)) \<and> \<not> del fd CT_READ \<or>
        cs_closed s \<and> \<not> cs_busy s) \<and>
     (\<forall>fd s. C fd = Some s \<longrightarrow> cs_writer s \<noteq> None \<longrightarrow>
        W fd = Some (OnReadyToSendToClientCb (ser fd)) \<and> \<not> del fd CT_WRITE) \<and>
     (\<forall>fd r. S fd = Some r \<longrightarrow> cp_registered (ru_proc r) \<longrightarrow>
        R (ru_fd r) = Some (ReadChildOutputCallback (ru_serial r)) \<and> \<not> del (ru_fd r) CT_READ)"

text \<open>The object of a callback is there and still wants to be called.\<close>

definition reader_live ::
  "(int \<Rightarrow> bool) \<Rightarrow> (int \<Rightarrow> client_session option) \<Rightarrow> (int \<Rightarrow> running_script option) \<Rightarrow> (int \<Rightarrow> nat)
     \<Rightarrow> int \<Rightarrow> callback \<Rightarrow> bool" where
  "reader_live L C S ser fd cb \<longleftrightarrow>
     (case cb of
        MasterSocketCallback \<Rightarrow> L fd
      | OnReadyToRecvFromClientCb n \<Rightarrow> C fd \<noteq> None \<and> ser fd = n
      | OnReadyToSendToClientCb n \<Rightarrow> False
      | ReadChildOutputCallback n \<Rightarrow>
          (\<exists>f r. S f = Some r \<and> ru_serial r = n \<and> ru_fd r = fd \<and> cp_registered (ru_proc r)))"

definition writer_live :: "(int \<Rightarrow> client_session option) \<Rightarrow> (int \<Rightarrow> nat) \<Rightarrow> int \<Rightarrow> callback \<Rightarrow> bool" where
  "writer_live C ser fd cb \<longleftrightarrow>
     cb = OnReadyToSendToClientCb (ser fd) \<and> (\<exists>s. C fd = Some s \<and> cs_writer s \<noteq> None)"

definition listener :: "reactor \<Rightarrow> int \<Rightarrow> bool" where
  "listener w fd \<longleftrightarrow> map_find (cl_sockets (rx_cluster w)) fd \<noteq> None"

abbreviation wanted_reader :: "reactor \<Rightarrow> int \<Rightarrow> callback \<Rightarrow> bool" where
  "wanted_reader w \<equiv> reader_live (listener w) (client_of w) (script_of w) (rx_serial w)"

abbreviation wanted_writer :: "reactor \<Rightarrow> int \<Rightarrow> callback \<Rightarrow> bool" where
  "wanted_writer w \<equiv> writer_live (client_of w) (rx_serial w)"

abbreviation all_watched :: "reactor \<Rightarrow> bool" where
  "all_watched w \<equiv> watched (listener w) (client_of w) (script_of w) (rx_serial w)
     (reader_of (rx_em w)) (writer_of (rx_em w)) (to_delete (rx_em w))"

definition reactor_base :: "reactor \<Rightarrow> bool" where
  "reactor_base w \<longleftrightarrow> cluster_inv (rx_cluster w) \<and> em_sorted (rx_em w) \<and> map_sorted (rx_scripts w) \<and>
     scripts_ok (client_of w) (script_of w) (rx_next w) \<and> fds_ok (listener w) (client_of w) (script_of w) \<and>
     all_watched w"

text \<open>Between two turns: what is registered belongs to an object that is there, or is to be deleted.\<close>

definition reactor_inv :: "reactor \<Rightarrow> bool" where
  "reactor_inv w \<longleftrightarrow> reactor_base w \<and>
     (\<forall>fd cb. reader_of (rx_em w) fd = Some cb \<longrightarrow> wanted_reader w fd cb \<or> to_delete (rx_em w) fd CT_READ) \<and>
     (\<forall>fd cb. writer_of (rx_em w) fd = Some cb \<longrightarrow> wanted_writer w fd cb \<or> to_delete (rx_em w) fd CT_WRITE)"

text \<open>
  While events are delivered: \<open>D\<close> holds the descriptors that were ready so far.  What is to be deleted is
  registered still, so that its descriptor cannot be registered again before it is.
\<close>

definition ready_inv :: "(int \<times> bool) set \<Rightarrow> reactor \<Rightarrow> bool" where
  "ready_inv D w \<longleftrightarrow> reactor_base w \<and>
     (\<forall>fd cb. reader_of (rx_em w) fd = Some cb \<longrightarrow>
        wanted_reader w fd cb \<or> (fd, False) \<in> D \<and> to_delete (rx_em w) fd CT_READ) \<and>
     (\<forall>fd cb. writer_of (rx_em w) fd = Some cb \<longrightarrow>
        wanted_writer w fd cb \<or> (fd, True) \<in> D \<and> to_delete (rx_em w) fd CT_WRITE \<and> client_of w fd \<noteq> None) \<and>
     (\<forall>(fd, u)\<in>set (fds_to_delete (rx_em w)).
        u = CT_WRITE \<and> writer_of (rx_em w) fd \<noteq> None \<or>
        u = CT_READWRITE \<and> (\<exists>n. reader_of (rx_em w) fd = Some (ReadChildOutputCallback n)))"

text \<open>While exits are reported: nothing is to be deleted for a client that has no write callback.\<close>

definition exits_inv :: "reactor \<Rightarrow> bool" where
  "exits_inv w \<longleftrightarrow> reactor_inv w \<and>
     (\<forall>(fd, u)\<in>set (fds_to_delete (rx_em w)). client_of w fd \<noteq> None \<longrightarrow>
        u = CT_WRITE \<and> writer_of (rx_em w) fd \<noteq> None \<or>
        (\<exists>n. reader_of (rx_em w) fd = Some (ReadChildOutputCallback n)))"

lemma ready_inv_exits: "ready_inv D w \<Longrightarrow> exits_inv w"
  unfolding ready_inv_def exits_inv_def reactor_inv_def by blast

subsection \<open>The turn begins\<close>

lemma flush_views [simp]:
  "listener (flush k w) = listener w" "client_of (flush k w) = client_of w" "script_of (flush k w) = script_of w"
  "rx_serial (flush k w) = rx_serial w" "rx_next (flush k w) = rx_next w" "rx_cluster (flush k w) = rx_cluster w"
  "rx_scripts (flush k w) = rx_scripts w" "rx_em (flush k w) = delete_pending k (rx_em w)"
  by (simp_all add: flush_def listener_def client_of_def script_of_def fun_eq_iff)

lemma nothing_to_delete: "fds_to_delete em = [] \<Longrightarrow> \<not> to_delete em fd t"
  by (simp add: to_delete_def)

lemma flush_inv:
  assumes "reactor_inv w"
  shows "ready_inv {} (flush k w)"
proof -
  have sorted: "em_sorted (rx_em w)" using assms by (simp add: reactor_inv_def reactor_base_def)
  note v = delete_pending_views [OF sorted, of k]
  have "all_watched w" using assms by (simp add: reactor_inv_def reactor_base_def)
  then have "all_watched (flush k w)"
    unfolding watched_def flush_views v(1,2) using nothing_to_delete [OF v(3)] by auto
  then show ?thesis
    using assms v(4) by (auto simp: ready_inv_def reactor_inv_def reactor_base_def v(1-3) split: if_splits)
qed

subsection \<open>One session goes on\<close>

lemma view_simps [simp]:
  "listener (w\<lparr>rx_em := em\<rparr>) = listener w" "client_of (w\<lparr>rx_em := em\<rparr>) = client_of w" "script_of (w\<lparr>rx_em := em\<rparr>) = script_of w"
  "listener (w\<lparr>rx_scripts := m\<rparr>) = listener w" "client_of (w\<lparr>rx_scripts := m\<rparr>) = client_of w" "script_of (w\<lparr>rx_scripts := m\<rparr>) = map_find m"
  "listener (w\<lparr>rx_next := i\<rparr>) = listener w" "client_of (w\<lparr>rx_next := i\<rparr>) = client_of w" "script_of (w\<lparr>rx_next := i\<rparr>) = script_of w"
  "listener (w\<lparr>rx_serial := f\<rparr>) = listener w" "client_of (w\<lparr>rx_serial := f\<rparr>) = client_of w" "script_of (w\<lparr>rx_serial := f\<rparr>) = script_of w"
  "script_of (w\<lparr>rx_cluster := c\<rparr>) = script_of w"
  by (simp_all add: listener_def client_of_def script_of_def fun_eq_iff)

lemma client_step:
  assumes "cluster_inv (rx_cluster w)" "client_of w fd = Some s" "cluster_guard (Client_event fd ev) (rx_cluster w)"
  shows "\<exists>t c. session_step ev s = Inr t \<and> cluster_step (Client_event fd ev) (rx_cluster w) = Inr c \<and> cluster_inv c \<and>
    listener (w\<lparr>rx_cluster := c\<rparr>) = listener w \<and> client_of (w\<lparr>rx_cluster := c\<rparr>) = (client_of w)(fd \<mapsto> t) \<and>
    not_stuck s \<and> not_stuck t"
proof -
  let ?c = "rx_cluster w"
  have s: "map_find (cl_clients ?c) fd = Some s" using assms(2) by (simp add: client_of_def)
  obtain c where c: "cluster_step (Client_event fd ev) ?c = Inr c" "cluster_inv c"
    using cluster_handler [OF assms(1,3)] by blast
  then obtain t where t: "session_step ev s = Inr t" "c = ?c\<lparr>cl_clients := map_assign fd t (cl_clients ?c)\<rparr>"
    using s by (auto simp: bind_outcome_Inr_iff)
  have "not_stuck u" if "cluster_inv d" "map_find (cl_clients d) fd = Some u" for d u
    using that map_find_set [of "cl_clients d" fd u] by (auto simp: cluster_inv_def session_inv_def)
  from this [OF assms(1) s] this [OF c(2), of t] have "not_stuck s" "not_stuck t" by (simp_all add: t(2) map_find_assign)
  with c t show ?thesis by (auto simp: listener_def client_of_def fun_eq_iff map_find_assign)
qed

lemma watched_client:
  assumes "watched L C S ser R W del" "C fd = Some s"
    and "R fd = Some (OnReadyToRecvFromClientCb (ser fd)) \<and> \<not> del fd CT_READ"
    and "cs_writer t \<noteq> None \<Longrightarrow> cs_writer s = None \<Longrightarrow> ok \<and> \<not> del fd CT_WRITE"
    and "ok \<Longrightarrow> W fd = None"
  shows "watched L (C(fd \<mapsto> t)) S ser R (if ok then W(fd \<mapsto> OnReadyToSendToClientCb (ser fd)) else W) del"
proof -
  let ?W = "if ok then W(fd \<mapsto> OnReadyToSendToClientCb (ser fd)) else W"
  have "?W f = Some (OnReadyToSendToClientCb (ser f)) \<and> \<not> del f CT_WRITE"
    if "(C(fd \<mapsto> t)) f = Some u" "cs_writer u \<noteq> None" for f u
    using that assms unfolding watched_def by (cases "f = fd"; cases "cs_writer s = None") fastforce+
  with assms(1,3) show ?thesis unfolding watched_def by auto
qed

lemma scripts_client:
  assumes "scripts_ok C S nx" "C fd = Some s" "cs_script t = cs_script s"
  shows "scripts_ok (C(fd \<mapsto> t)) S nx"
  using assms unfolding scripts_ok_def by (auto split: if_splits) (metis option.distinct(1) option.inject)

lemma fds_client: "fds_ok L C S \<Longrightarrow> C fd = Some s \<Longrightarrow> fds_ok L (C(fd \<mapsto> t)) S"
  unfolding fds_ok_def by (auto split: if_splits)

text \<open>While a session is attended to, only its write callback can be waiting for its deletion.\<close>

lemma attended_not_deleted:
  assumes "\<forall>(f, u)\<in>set (fds_to_delete em). C f \<noteq> None \<longrightarrow> u = CT_WRITE \<and> writer_of em f \<noteq> None \<or>
      (\<exists>n. reader_of em f = Some (ReadChildOutputCallback n))"
    and "C fd \<noteq> None" "reader_of em fd = Some (OnReadyToRecvFromClientCb n)" "writer_of em fd = None"
  shows "\<not> to_delete em fd CT_WRITE"
  using assms by (fastforce simp: to_delete_def)

end
