(* ===== verification/ReactorProps.thy ===== *)
theory ReactorProps
  imports ReactorInv
begin

text \<open>
  Every callback keeps the invariant of the loop: accepting a client, a session that reads or writes, and
  a script that is started, read or ended.
\<close>

section \<open>Sessions\<close>

text \<open>
  A session goes on and registers its write callback if it has to (\<open>ok\<close>): this is what a read, a script
  and a partial write do to the state.
\<close>

lemma ready_client:
  assumes inv: "ready_inv D w" and s: "client_of w fd = Some s" and c: "cluster_inv (rx_cluster v)"
    and views: "listener v = listener w" "client_of v = (client_of w)(fd \<mapsto> t)" "script_of v = script_of w"
      "rx_serial v = rx_serial w" "rx_next v = rx_next w" "rx_scripts v = rx_scripts w"
    and em: "reader_of (rx_em v) = reader_of (rx_em w)" "fds_to_delete (rx_em v) = fds_to_delete (rx_em w)"
      "em_sorted (rx_em v)" "ok \<Longrightarrow> writer_of (rx_em w) fd = None"
      "writer_of (rx_em v) = (if ok then (writer_of (rx_em w))(fd \<mapsto> OnReadyToSendToClientCb (rx_serial w fd))
         else writer_of (rx_em w))"
    and read: "reader_of (rx_em w) fd = Some (OnReadyToRecvFromClientCb (rx_serial w fd))"
      "\<not> to_delete (rx_em w) fd CT_READ"
    and t: "cs_script t = cs_script s" "cs_writer t \<noteq> None \<longleftrightarrow> cs_writer s \<noteq> None \<or> ok"
  shows "ready_inv D v"
proof -
  have b: "reactor_base w" using inv by (simp add: ready_inv_def)
  have del: "to_delete (rx_em v) = to_delete (rx_em w)" by (simp add: to_delete_def em(2) fun_eq_iff)
  have free: "\<not> to_delete (rx_em w) fd CT_WRITE" if ok
    by (rule attended_not_deleted [of _ "client_of w" fd])
      (use inv s read(1) em(4) [OF that] in \<open>auto simp: ready_inv_def\<close>)
  have "all_watched v"
    unfolding views em(1,5) del using b s read t free em(4)
    by (intro watched_client [of _ _ _ _ _ _ _ fd s]) (auto simp: reactor_base_def)
  then have base: "reactor_base v"
    using b s t(1) scripts_client [of "client_of w" _ _ fd s t] fds_client [of _ "client_of w" _ fd s t] c em(3)
    by (simp add: reactor_base_def views)
  have R: "reader_live (listener w) ((client_of w)(fd \<mapsto> t)) (script_of w) (rx_serial w) f cb \<longleftrightarrow> wanted_reader w f cb"
    for f cb using s by (cases cb) (auto simp: reader_live_def)
  have W: "writer_live ((client_of w)(fd \<mapsto> t)) (rx_serial w) f cb \<longleftrightarrow>
      wanted_writer w f cb \<or> ok \<and> f = fd \<and> cb = OnReadyToSendToClientCb (rx_serial w fd)" for f cb
    using s t(2) by (auto simp: writer_live_def)
  show ?thesis
    using inv base unfolding ready_inv_def views R W del em(1,2,5)
    by (auto split: if_splits)
qed

section \<open>Scripts\<close>

lemma registered_child: "cgi_inv p \<Longrightarrow> cp_registered p \<Longrightarrow> cp_child p"
  by (auto simp: cgi_inv_def split: if_splits)

lemma updated_script:
  assumes "(S(fd \<mapsto> r\<lparr>ru_proc := q\<rparr>)) f = Some a" "S fd = Some r"
  shows "\<exists>x. S f = Some x \<and> ru_serial x = ru_serial a \<and> ru_fd x = ru_fd a \<and> (f = fd \<and> x = r \<and> ru_proc a = q \<or> f \<noteq> fd \<and> x = a)"
  using assms by (auto split: if_splits)

lemma scripts_okD:
  assumes "scripts_ok C S nx"
  shows "C fd = Some s \<Longrightarrow> cs_script s \<noteq> None \<Longrightarrow> \<exists>r. S fd = Some r \<and> cp_child (ru_proc r)"
    "S fd = Some r \<Longrightarrow> ru_serial r < nx \<and> cgi_inv (ru_proc r)"
    "S fd = Some r \<Longrightarrow> \<exists>s. C fd = Some s \<and> (cp_child (ru_proc r) \<longrightarrow> cs_script s \<noteq> None)"
    "S f = Some r \<Longrightarrow> S g = Some q \<Longrightarrow> ru_serial r = ru_serial q \<Longrightarrow> f = g"
  using assms unfolding scripts_ok_def by blast+

lemma fds_okD:
  assumes "fds_ok L C S"
  shows "L fd \<Longrightarrow> C fd = None"
    "S f = Some r \<Longrightarrow> cp_child (ru_proc r) \<Longrightarrow> \<not> L (ru_fd r) \<and> C (ru_fd r) = None"
    "S f = Some r \<Longrightarrow> S g = Some q \<Longrightarrow> cp_child (ru_proc r) \<Longrightarrow> cp_child (ru_proc q) \<Longrightarrow> ru_fd r = ru_fd q \<Longrightarrow> f = g"
  using assms unfolding fds_ok_def by blast+

lemma scripts_update:
  assumes "scripts_ok C S nx" "S fd = Some r" "C fd = Some s" "cgi_inv q" "cp_child q \<longleftrightarrow> cs_script t \<noteq> None"
  shows "scripts_ok (C(fd \<mapsto> t)) (S(fd \<mapsto> r\<lparr>ru_proc := q\<rparr>)) nx"
  unfolding scripts_ok_def
proof (intro conjI allI impI)
  fix f a g b
  assume a: "(S(fd \<mapsto> r\<lparr>ru_proc := q\<rparr>)) f = Some a" and b: "(S(fd \<mapsto> r\<lparr>ru_proc := q\<rparr>)) g = Some b"
    and "ru_serial a = ru_serial b"
  then obtain x y where "S f = Some x" "S g = Some y" "ru_serial x = ru_serial y"
    using updated_script [OF a assms(2)] updated_script [OF b assms(2)] by auto
  then show "f = g" by (rule scripts_okD(4) [OF assms(1)])
next
  fix f u assume "(C(fd \<mapsto> t)) f = Some u" "cs_script u \<noteq> None"
  then show "\<exists>a. (S(fd \<mapsto> r\<lparr>ru_proc := q\<rparr>)) f = Some a \<and> cp_child (ru_proc a)"
    using assms(5) scripts_okD(1) [OF assms(1), of f u] by (cases "f = fd") auto
next
  fix f a assume a: "(S(fd \<mapsto> r\<lparr>ru_proc := q\<rparr>)) f = Some a"
  show "ru_serial a < nx" "cgi_inv (ru_proc a)"
    using a scripts_okD(2) [OF assms(1)] assms(2,4) by (cases "f = fd"; auto)+
  show "\<exists>u. (C(fd \<mapsto> t)) f = Some u \<and> (cp_child (ru_proc a) \<longrightarrow> cs_script u \<noteq> None)"
    using a scripts_okD(3) [OF assms(1), of f] assms(5) by (cases "f = fd") auto
qed

lemma fds_update:
  assumes "fds_ok L C S" "S fd = Some r" "C fd = Some s" "cp_child (ru_proc r)"
  shows "fds_ok L (C(fd \<mapsto> t)) (S(fd \<mapsto> r\<lparr>ru_proc := q\<rparr>))"
  unfolding fds_ok_def
proof (intro conjI allI impI)
  fix f a g b
  assume a: "(S(fd \<mapsto> r\<lparr>ru_proc := q\<rparr>)) f = Some a" and b: "(S(fd \<mapsto> r\<lparr>ru_proc := q\<rparr>)) g = Some b"
    and "cp_child (ru_proc a)" "cp_child (ru_proc b)" "ru_fd a = ru_fd b"
  then obtain x y where "S f = Some x" "S g = Some y" "cp_child (ru_proc x)" "cp_child (ru_proc y)" "ru_fd x = ru_fd y"
    using updated_script [OF a assms(2)] updated_script [OF b assms(2)] assms(4) by auto
  then show "f = g" by (rule fds_okD(3) [OF assms(1)])
next
  fix f a assume a: "(S(fd \<mapsto> r\<lparr>ru_proc := q\<rparr>)) f = Some a" "cp_child (ru_proc a)"
  then obtain x where "S f = Some x" "cp_child (ru_proc x)" "ru_fd x = ru_fd a"
    using updated_script [OF a(1) assms(2)] assms(4) by auto
  with fds_okD(2) [OF assms(1)] have "\<not> L (ru_fd a) \<and> C (ru_fd a) = None" by metis
  with assms(3) show "\<not> L (ru_fd a)" "(C(fd \<mapsto> t)) (ru_fd a) = None" by auto
qed (use fds_okD(1) [OF assms(1)] assms(3) in auto)

lemma watched_update:
  assumes "watched L C S ser R W del" "S fd = Some r" "fds_ok L C S" "scripts_ok C S nx" "cp_child (ru_proc r)"
    and "cp_registered q \<Longrightarrow> cp_registered (ru_proc r) \<and> \<not> dels"
    and "\<And>f u. u \<in> {CT_READ, CT_WRITE} \<Longrightarrow> del1 f u \<longleftrightarrow> del f u \<or> dels \<and> f = ru_fd r"
  shows "watched L C (S(fd \<mapsto> r\<lparr>ru_proc := q\<rparr>)) ser R W del1"
proof -
  have child: "cp_child (ru_proc a)" if "S f = Some a" "cp_registered (ru_proc a)" for f a
    using that assms(4) registered_child unfolding scripts_ok_def by blast
  have "R (ru_fd a) = Some (ReadChildOutputCallback (ru_serial a)) \<and> \<not> del1 (ru_fd a) CT_READ"
    if a: "(S(fd \<mapsto> r\<lparr>ru_proc := q\<rparr>)) f = Some a" "cp_registered (ru_proc a)" for f a
  proof (cases "f = fd")
    case True
    with assms(1,2,6,7) a show ?thesis unfolding watched_def by auto
  next
    case False
    with a have "S f = Some a" by simp
    with False child [OF this a(2)] assms(2,3,5) have "ru_fd a \<noteq> ru_fd r" unfolding fds_ok_def by blast
    with assms(1,7) a(2) \<open>S f = Some a\<close> show ?thesis unfolding watched_def by blast
  qed
  moreover have "\<not> L (ru_fd r)" "C (ru_fd r) = None" using assms(2,3,5) by (auto simp: fds_ok_def)
  ultimately show ?thesis using assms(1,7) unfolding watched_def by (auto split: if_splits)
qed

lemma session_facts:
  assumes "reactor_base w" "client_of w fd = Some s"
  shows "not_stuck s" "cs_busy s \<Longrightarrow> reader_of (rx_em w) fd = Some (OnReadyToRecvFromClientCb (rx_serial w fd)) \<and>
    \<not> to_delete (rx_em w) fd CT_READ"
proof -
  have "cluster_inv (rx_cluster w)" and w: "all_watched w" using assms(1) by (simp_all add: reactor_base_def)
  with map_find_set [of "cl_clients (rx_cluster w)" fd s] assms(2) show "not_stuck s"
    by (auto simp: cluster_inv_def session_inv_def client_of_def)
  show "cs_busy s \<Longrightarrow> reader_of (rx_em w) fd = Some (OnReadyToRecvFromClientCb (rx_serial w fd)) \<and>
      \<not> to_delete (rx_em w) fd CT_READ"
    using w assms(2) unfolding watched_def by blast
qed

lemma Proceed_writer: "cs_writer s = None \<Longrightarrow> cs_writer (ProceedWithResponse e r s) \<noteq> None \<longleftrightarrow> se_write_ok e"
  by (simp add: ProceedWithResponse_def PrepareResponse_def CloseConnection_def Let_def)

text \<open>
  A processor is called while its session waits for it: it goes on, and when it is done the session gets
  the response and registers its write callback.
\<close>

definition script_goes_on :: "int \<Rightarrow> running_script \<Rightarrow> cgi_event \<Rightarrow> reactor \<Rightarrow> reactor \<Rightarrow> bool" where
  "script_goes_on fd r ev w v \<longleftrightarrow>
     (\<exists>s t q ok. client_of w fd = Some s \<and> client_of v = (client_of w)(fd \<mapsto> t) \<and>
        script_of v = (script_of w)(fd \<mapsto> r\<lparr>ru_proc := q\<rparr>) \<and> listener v = listener w \<and> rx_serial v = rx_serial w \<and>
        reader_of (rx_em v) = reader_of (rx_em w) \<and>
        writer_of (rx_em v) = (if ok then (writer_of (rx_em w))(fd \<mapsto> OnReadyToSendToClientCb (rx_serial w fd))
          else writer_of (rx_em w)) \<and> (ok \<longrightarrow> writer_of (rx_em w) fd = None) \<and>
        cs_writer s = None \<and> (cs_writer t \<noteq> None \<longleftrightarrow> ok) \<and>
        (cp_registered q \<longleftrightarrow> cp_registered (ru_proc r) \<and> \<not> deletes_reader ev) \<and>
        fds_to_delete (rx_em v) = fds_to_delete (rx_em w) @ (if deletes_reader ev then [(ru_fd r, CT_READWRITE)] else []))"

lemma script_event_runs:
  assumes b: "reactor_base w" and r: "script_of w fd = Some r" and g: "cgi_guard ev (ru_proc r)"
    and pending: "\<forall>(f, u)\<in>set (fds_to_delete (rx_em w)). client_of w f \<noteq> None \<longrightarrow>
      u = CT_WRITE \<and> writer_of (rx_em w) f \<noteq> None \<or> (\<exists>n. reader_of (rx_em w) f = Some (ReadChildOutputCallback n))"
  shows "\<exists>v. script_event fd r e ev ctl_ok w = Inr v \<and> reactor_base v \<and> script_goes_on fd r ev w v"
proof -
  let ?p = "ru_proc r"
  define em0 where "em0 = (if deletes_reader ev then DeleteCallback (ru_fd r) CT_READWRITE (rx_em w) else rx_em w)"
  have sc: "scripts_ok (client_of w) (script_of w) (rx_next w)" and fk: "fds_ok (listener w) (client_of w) (script_of w)"
    and wa: "all_watched w" and cl: "cluster_inv (rx_cluster w)" and so: "em_sorted (rx_em w)" "map_sorted (rx_scripts w)"
    using b by (simp_all add: reactor_base_def)
  from scripts_okD(2) [OF sc r] have pinv: "cgi_inv ?p" by simp
  from scripts_okD(3) [OF sc r] obtain s where s: "client_of w fd = Some s" "cp_child ?p \<longrightarrow> cs_script s \<noteq> None" by blast
  from cgi_event_effect [OF pinv g, of "se_proc e" "cs_dest s"] obtain q where
    q: "cgi_step (se_proc e) (cs_dest s) ev ?p = Inr q" "cgi_inv q" "cp_child ?p" "cp_sent ?p = []"
      "cp_registered q \<longleftrightarrow> cp_registered ?p \<and> \<not> deletes_reader ev" "cp_child q \<longleftrightarrow> cp_sent q = []" by blast
  have script: "cs_script s \<noteq> None" using s(2) q(3) by simp
  with session_facts [OF b s(1)] have idle: "cs_writer s = None" "cs_busy s" by (auto simp: not_stuck_def)
  note read = session_facts(2) [OF b s(1) idle(2)]
  have other: "ru_fd r \<noteq> fd" using fds_okD(2) [OF fk r q(3)] s(1) by auto
  have em: "reader_of em0 = reader_of (rx_em w)" "writer_of em0 = writer_of (rx_em w)" "em_sorted em0 = em_sorted (rx_em w)"
    "fds_to_delete em0 = fds_to_delete (rx_em w) @ (if deletes_reader ev then [(ru_fd r, CT_READWRITE)] else [])"
    by (simp_all add: em0_def)
  have del: "to_delete em0 f u \<longleftrightarrow> to_delete (rx_em w) f u \<or> deletes_reader ev \<and> f = ru_fd r" if "u \<in> {CT_READ, CT_WRITE}" for f u
    using that by (auto simp: em0_def)
  let ?S = "(script_of w)(fd \<mapsto> r\<lparr>ru_proc := q\<rparr>)"
  have wa1: "watched (listener w) (client_of w) ?S (rx_serial w) (reader_of (rx_em w)) (writer_of (rx_em w)) (to_delete em0)"
    by (rule watched_update [OF wa r fk sc q(3), of q "deletes_reader ev"]) (use q(5) del in auto)
  have upd: "scripts_ok ((client_of w)(fd \<mapsto> t)) ?S (rx_next w)" "fds_ok (listener w) ((client_of w)(fd \<mapsto> t)) ?S"
    if "cp_child q \<longleftrightarrow> cs_script t \<noteq> None" for t
    using scripts_update [OF sc r s(1) q(2) that] fds_update [OF fk r s(1) q(3)] by simp_all
  let ?v = "w\<lparr>rx_em := em0, rx_scripts := map_assign fd (r\<lparr>ru_proc := q\<rparr>) (rx_scripts w)\<rparr>"
  have S: "script_of ?v = ?S" "map_sorted (rx_scripts ?v)"
    using so(2) by (simp_all add: map_find_assign map_sorted_assign script_of_def)
  show ?thesis
  proof (cases "cp_sent q")
    case Nil
    then have run: "script_event fd r e ev ctl_ok w = Inr ?v"
      using s(1) q(1,4) by (simp add: script_event_def em0_def [symmetric])
    have same: "(client_of w)(fd \<mapsto> s) = client_of w" using s(1) by auto
    have "reactor_base ?v"
      using upd [of s] script q(6) Nil wa1 cl so S by (simp add: reactor_base_def same em(1-3))
    moreover have "script_goes_on fd r ev w ?v"
      unfolding script_goes_on_def
      by (rule exI [of _ s], rule exI [of _ s], rule exI [of _ q], rule exI [of _ False])
        (use s(1) same idle q(5) S em in simp)
    ultimately show ?thesis using run by blast
  next
    case (Cons rs rest)
    obtain ok em1 where reg: "TryRegisterCallback (ctl_answers ctl_ok) fd CT_WRITE (OnReadyToSendToClientCb (rx_serial w fd)) em0
        = Inr (ok, em1)" "ok \<longrightarrow> writer_of (rx_em w) fd = None"
      "writer_of em1 = (if ok then (writer_of (rx_em w))(fd \<mapsto> OnReadyToSendToClientCb (rx_serial w fd)) else writer_of (rx_em w))"
      "reader_of em1 = reader_of (rx_em w)" "fds_to_delete em1 = fds_to_delete em0" "em_sorted em1"
      using register_writer [of "ctl_answers ctl_ok" fd "OnReadyToSendToClientCb (rx_serial w fd)" em0] so(1) em by auto
    let ?ev = "Script_done (e\<lparr>se_write_ok := ok\<rparr>) rs" and ?t = "ProceedWithResponse (e\<lparr>se_write_ok := ok\<rparr>) rs s"
    have "cluster_guard (Client_event fd ?ev) (rx_cluster w)" using s(1) script by (simp add: client_of_def)
    from client_step [OF cl s(1) this] obtain c where
      c: "cluster_step (Client_event fd ?ev) (rx_cluster w) = Inr c" "cluster_inv c"
        "listener (w\<lparr>rx_cluster := c\<rparr>) = listener w" "client_of (w\<lparr>rx_cluster := c\<rparr>) = (client_of w)(fd \<mapsto> ?t)" by auto
    define u where "u = ?v\<lparr>rx_cluster := c, rx_em := em1\<rparr>"
    have run: "script_event fd r e ev ctl_ok w = Inr u"
      using s(1) q(1,4) Cons reg(1) c(1) by (simp add: script_event_def em0_def [symmetric] u_def)
    have views: "listener u = listener w" "client_of u = (client_of w)(fd \<mapsto> ?t)" "script_of u = ?S"
    proof -
      have "listener u = listener (w\<lparr>rx_cluster := c\<rparr>)" by (simp add: u_def listener_def fun_eq_iff)
      then show "listener u = listener w" using c(3) by simp
    qed (use c(4) S(1) in \<open>simp_all add: u_def client_of_def script_of_def\<close>)
    have t: "cs_script ?t = None" "cs_writer ?t \<noteq> None \<longleftrightarrow> ok"
      using Proceed_writer [OF idle(1)] by (simp_all add: Script_done_effect)
    have del1: "to_delete em1 = to_delete em0" by (simp add: to_delete_def reg(5) fun_eq_iff)
    have "\<not> to_delete (rx_em w) fd CT_WRITE" if ok
      using attended_not_deleted [OF pending] s(1) read reg(2) that by auto
    then have free: "\<not> to_delete em0 fd CT_WRITE" if ok
      using that del [of CT_WRITE fd] other by simp
    have fields: "rx_em u = em1" "rx_serial u = rx_serial w" "rx_cluster u = c" "rx_next u = rx_next w"
      "rx_scripts u = rx_scripts ?v" by (simp_all add: u_def)
    have "all_watched u"
      unfolding views fields reg(3,4) del1
      by (rule watched_client [OF wa1 s(1)]) (use read del [of CT_READ fd] other t(2) reg(2) free in auto)
    then have "reactor_base u"
      using upd [of ?t] t(1) q(6) Cons c(2) reg(6) S(2) so(2) by (simp add: reactor_base_def views fields)
    moreover have "script_goes_on fd r ev w u"
      unfolding script_goes_on_def
      by (rule exI [of _ s], rule exI [of _ ?t], rule exI [of _ q], rule exI [of _ ok])
        (use s(1) views reg(2-5) em(4) idle(1) t(2) q(5) fields in simp)
    ultimately show ?thesis using run by blast
  qed
qed

lemma goes_on_live:
  assumes "script_goes_on fd r ev w v" "script_of w fd = Some r"
  shows "wanted_reader w f cb \<Longrightarrow> wanted_reader v f cb \<or> deletes_reader ev \<and> f = ru_fd r"
    "wanted_writer w f cb \<Longrightarrow> wanted_writer v f cb"
    "writer_of (rx_em v) f = Some cb \<Longrightarrow> writer_of (rx_em w) f = Some cb \<or> wanted_writer v f cb"
    "writer_of (rx_em w) f \<noteq> None \<Longrightarrow> writer_of (rx_em v) f \<noteq> None"
    "client_of v f \<noteq> None \<longleftrightarrow> client_of w f \<noteq> None"
    "to_delete (rx_em w) f u \<Longrightarrow> to_delete (rx_em v) f u"
    "deletes_reader ev \<Longrightarrow> to_delete (rx_em v) (ru_fd r) CT_READ"
proof -
  obtain s t q ok where v: "client_of w fd = Some s" "client_of v = (client_of w)(fd \<mapsto> t)"
    "script_of v = (script_of w)(fd \<mapsto> r\<lparr>ru_proc := q\<rparr>)" "listener v = listener w" "rx_serial v = rx_serial w"
    "writer_of (rx_em v) = (if ok then (writer_of (rx_em w))(fd \<mapsto> OnReadyToSendToClientCb (rx_serial w fd))
      else writer_of (rx_em w))" "cs_writer s = None" "cs_writer t \<noteq> None \<longleftrightarrow> ok"
    "cp_registered q \<longleftrightarrow> cp_registered (ru_proc r) \<and> \<not> deletes_reader ev"
    "fds_to_delete (rx_em v) = fds_to_delete (rx_em w) @ (if deletes_reader ev then [(ru_fd r, CT_READWRITE)] else [])"
    using assms(1) unfolding script_goes_on_def by blast
  have kept: "\<exists>a. script_of v g = Some a \<and> ru_serial a = ru_serial x \<and> ru_fd a = ru_fd x \<and> cp_registered (ru_proc a)"
    if "script_of w g = Some x" "cp_registered (ru_proc x)" "\<not> (deletes_reader ev \<and> ru_fd x = ru_fd r)" for g x
    using that assms(2) v(3,9) by (cases "g = fd") auto
  show "wanted_reader w f cb \<Longrightarrow> wanted_reader v f cb \<or> deletes_reader ev \<and> f = ru_fd r"
  proof (cases cb)
    case (ReadChildOutputCallback n)
    assume "wanted_reader w f cb"
    then obtain g x where "script_of w g = Some x" "cp_registered (ru_proc x)" "ru_serial x = n" "ru_fd x = f"
      using ReadChildOutputCallback by (auto simp: reader_live_def)
    with kept [of g x] ReadChildOutputCallback show ?thesis by (auto simp: reader_live_def)
  qed (use v(1,2,4,5) in \<open>auto simp: reader_live_def\<close>)
  show "wanted_writer w f cb \<Longrightarrow> wanted_writer v f cb" using v(1,2,5,7) by (auto simp: writer_live_def)
  show "writer_of (rx_em v) f = Some cb \<Longrightarrow> writer_of (rx_em w) f = Some cb \<or> wanted_writer v f cb"
    using v(2,5,6,8) by (auto simp: writer_live_def split: if_splits)
  show "writer_of (rx_em w) f \<noteq> None \<Longrightarrow> writer_of (rx_em v) f \<noteq> None" using v(6) by auto
  show "client_of v f \<noteq> None \<longleftrightarrow> client_of w f \<noteq> None" using v(1,2) by auto
  show "to_delete (rx_em w) f u \<Longrightarrow> to_delete (rx_em v) f u" using v(10) by (auto simp: to_delete_def)
  show "deletes_reader ev \<Longrightarrow> to_delete (rx_em v) (ru_fd r) CT_READ" using v(10) by (auto simp: to_delete_def)
qed

lemma exits_goes_on:
  assumes "exits_inv w" "reactor_base v" "script_goes_on fd r ev w v" "script_of w fd = Some r" "cp_child (ru_proc r)"
  shows "exits_inv v"
proof -
  note live = goes_on_live [OF assms(3,4)]
  have R: "reader_of (rx_em v) = reader_of (rx_em w)" and
    P: "fds_to_delete (rx_em v) = fds_to_delete (rx_em w) @ (if deletes_reader ev then [(ru_fd r, CT_READWRITE)] else [])"
    using assms(3) by (auto simp: script_goes_on_def)
  have inv: "reactor_inv w" using assms(1) by (simp add: exits_inv_def)
  have "client_of w (ru_fd r) = None"
    using inv assms(4,5) fds_okD(2) [of "listener w" "client_of w" "script_of w" fd r]
    by (simp add: reactor_inv_def reactor_base_def)
  then have "client_of v (ru_fd r) = None" using live(5) by blast
  moreover have "\<forall>(f, u)\<in>set (fds_to_delete (rx_em w)). client_of v f \<noteq> None \<longrightarrow>
      u = CT_WRITE \<and> writer_of (rx_em v) f \<noteq> None \<or> (\<exists>n. reader_of (rx_em v) f = Some (ReadChildOutputCallback n))"
    using assms(1) live(4,5) unfolding exits_inv_def R by fastforce
  ultimately have pend: "\<forall>(f, u)\<in>set (fds_to_delete (rx_em v)). client_of v f \<noteq> None \<longrightarrow>
      u = CT_WRITE \<and> writer_of (rx_em v) f \<noteq> None \<or> (\<exists>n. reader_of (rx_em v) f = Some (ReadChildOutputCallback n))"
    unfolding P by (auto split: if_splits)
  have "wanted_reader v f cb \<or> to_delete (rx_em v) f CT_READ" if "reader_of (rx_em v) f = Some cb" for f cb
    using inv that live(1,6,7) unfolding reactor_inv_def R by blast
  moreover have "wanted_writer v f cb \<or> to_delete (rx_em v) f CT_WRITE" if "writer_of (rx_em v) f = Some cb" for f cb
    using inv live(2,6) live(3) [OF that] unfolding reactor_inv_def by blast
  ultimately show ?thesis using assms(2) pend by (simp add: exits_inv_def reactor_inv_def)
qed

lemma ready_goes_on:
  assumes "ready_inv D w" "reactor_base v" "script_goes_on fd r ev w v" "script_of w fd = Some r" "cp_registered (ru_proc r)"
  shows "ready_inv (insert (ru_fd r, False) D) v"
proof -
  note live = goes_on_live [OF assms(3,4)]
  have R: "reader_of (rx_em v) = reader_of (rx_em w)" and
    P: "fds_to_delete (rx_em v) = fds_to_delete (rx_em w) @ (if deletes_reader ev then [(ru_fd r, CT_READWRITE)] else [])"
    using assms(3) by (auto simp: script_goes_on_def)
  have "all_watched w" using assms(1) by (simp add: ready_inv_def reactor_base_def)
  then have "reader_of (rx_em v) (ru_fd r) = Some (ReadChildOutputCallback (ru_serial r))"
    using assms(4,5) unfolding watched_def R by blast
  moreover have "\<forall>(f, u)\<in>set (fds_to_delete (rx_em w)). u = CT_WRITE \<and> writer_of (rx_em v) f \<noteq> None \<or>
      u = CT_READWRITE \<and> (\<exists>n. reader_of (rx_em v) f = Some (ReadChildOutputCallback n))"
    using assms(1) live(4) unfolding ready_inv_def R by fastforce
  ultimately have pend: "\<forall>(f, u)\<in>set (fds_to_delete (rx_em v)). u = CT_WRITE \<and> writer_of (rx_em v) f \<noteq> None \<or>
      u = CT_READWRITE \<and> (\<exists>n. reader_of (rx_em v) f = Some (ReadChildOutputCallback n))"
    unfolding P by (auto split: if_splits)
  have "wanted_reader v f cb \<or> (f, False) \<in> insert (ru_fd r, False) D \<and> to_delete (rx_em v) f CT_READ"
    if "reader_of (rx_em v) f = Some cb" for f cb
    using assms(1) that live(1,6,7) unfolding ready_inv_def R by blast
  moreover have "wanted_writer v f cb \<or>
      (f, True) \<in> insert (ru_fd r, False) D \<and> to_delete (rx_em v) f CT_WRITE \<and> client_of v f \<noteq> None"
    if "writer_of (rx_em v) f = Some cb" for f cb
    using assms(1) live(2,5,6) live(3) [OF that] unfolding ready_inv_def by blast
  ultimately show ?thesis using assms(2) pend unfolding ready_inv_def by blast
qed

section \<open>The callbacks\<close>

lemma ready_invD:
  assumes "ready_inv D w"
  shows "reactor_base w"
    "reader_of (rx_em w) fd = Some cb \<Longrightarrow> wanted_reader w fd cb \<or> (fd, False) \<in> D \<and> to_delete (rx_em w) fd CT_READ"
    "writer_of (rx_em w) fd = Some cb \<Longrightarrow>
      wanted_writer w fd cb \<or> (fd, True) \<in> D \<and> to_delete (rx_em w) fd CT_WRITE \<and> client_of w fd \<noteq> None"
    "(fd, u) \<in> set (fds_to_delete (rx_em w)) \<Longrightarrow> u = CT_WRITE \<and> writer_of (rx_em w) fd \<noteq> None \<or>
      u = CT_READWRITE \<and> (\<exists>n. reader_of (rx_em w) fd = Some (ReadChildOutputCallback n))"
  using assms unfolding ready_inv_def by blast+

lemma ready_inv_mono: "ready_inv D w \<Longrightarrow> D \<subseteq> E \<Longrightarrow> ready_inv E w"
  unfolding ready_inv_def by blast

lemma find_serial:
  assumes "map_sorted (rx_scripts w)" "scripts_ok (client_of w) (script_of w) nx" "script_of w fd = Some r" "ru_serial r = n"
  shows "find (\<lambda>(_, r). ru_serial r = n) (rx_scripts w) = Some (fd, r)"
proof -
  have entry: "(g, q) \<in> set (rx_scripts w) \<longleftrightarrow> script_of w g = Some q" for g q
    using map_find_in_set [OF assms(1)] by (simp add: script_of_def)
  then have "(fd, r) \<in> set (rx_scripts w)" using assms(3) by simp
  then obtain g q where f: "find (\<lambda>(_, r). ru_serial r = n) (rx_scripts w) = Some (g, q)"
    using assms(4) by (cases "find (\<lambda>(_, r). ru_serial r = n) (rx_scripts w)") (auto simp: find_None_iff)
  then have "(g, q) \<in> set (rx_scripts w)" "ru_serial q = n" by (auto simp: find_Some_iff in_set_conv_nth)
  with entry scripts_okD(4) [OF assms(2), of g q fd r] assms(3,4) have "g = fd" by simp
  with f entry \<open>(g, q) \<in> set (rx_scripts w)\<close> assms(3) show ?thesis by simp
qed

lemma output_runs:
  assumes inv: "ready_inv D w" and wanted: "wanted_reader w fd (ReadChildOutputCallback n)"
    and ev: "\<forall>status. ev \<noteq> Child_done status"
  shows "\<exists>v. script_readable n e ev ctl_ok w = Inr v \<and> ready_inv (insert (fd, False) D) v"
proof -
  have b: "reactor_base w" using inv by (simp add: ready_inv_def)
  obtain g r where r: "script_of w g = Some r" "ru_serial r = n" "ru_fd r = fd" "cp_registered (ru_proc r)"
    using wanted by (auto simp: reader_live_def)
  have "cgi_guard ev (ru_proc r)" using ev r(4) by (cases ev) (simp_all add: cgi_guard_def)
  moreover have "\<forall>(f, u)\<in>set (fds_to_delete (rx_em w)). client_of w f \<noteq> None \<longrightarrow>
      u = CT_WRITE \<and> writer_of (rx_em w) f \<noteq> None \<or> (\<exists>n. reader_of (rx_em w) f = Some (ReadChildOutputCallback n))"
    using ready_inv_exits [OF inv] by (simp add: exits_inv_def)
  ultimately obtain v where v: "script_event g r e ev ctl_ok w = Inr v" "reactor_base v" "script_goes_on g r ev w v"
    using script_event_runs [OF b r(1), of ev e ctl_ok] by blast
  have "script_readable n e ev ctl_ok w = Inr v"
    using find_serial [of w "rx_next w" g r n] b r v(1) by (simp add: script_readable_def reactor_base_def)
  with ready_goes_on [OF inv v(2,3) r(1,4)] r(3) show ?thesis by auto
qed

lemma exit_runs:
  assumes inv: "exits_inv w" and g: "exit_guard (fd, e, status, ctl_ok) w"
  shows "\<exists>v. report_exit (fd, e, status, ctl_ok) w = Inr v \<and> exits_inv v"
proof -
  obtain r where r: "script_of w fd = Some r" "cp_listed (ru_proc r)" using g by (auto split: option.splits)
  have b: "reactor_base w" using inv by (simp add: exits_inv_def reactor_inv_def)
  then have "cgi_inv (ru_proc r)" using scripts_okD(2) [of "client_of w" "script_of w" "rx_next w" fd r] r(1)
    by (simp add: reactor_base_def)
  then have child: "cp_child (ru_proc r)" using r(2) by (auto simp: cgi_inv_def split: if_splits)
  have "cgi_guard (Child_done status) (ru_proc r)" using r(2) by (simp add: cgi_guard_def)
  with script_event_runs [OF b r(1), of "Child_done status" e ctl_ok] inv obtain v where
    "script_event fd r e (Child_done status) ctl_ok w = Inr v" "reactor_base v" "script_goes_on fd r (Child_done status) w v"
    unfolding exits_inv_def by blast
  with exits_goes_on [OF inv this(2,3) r(1) child] r(1) show ?thesis by simp
qed

text \<open>The last byte of a response: the write callback is to be deleted, and the processor is gone.\<close>

lemma response_done:
  assumes inv: "ready_inv D w" and s: "client_of w fd = Some s" "cs_script s = None" "cs_writer s \<noteq> None" "cs_busy s"
    and c: "cluster_inv (rx_cluster v)"
    and views: "listener v = listener w" "client_of v = (client_of w)(fd \<mapsto> t)" "script_of v = (script_of w)(fd := None)"
      "rx_serial v = rx_serial w" "rx_next v = rx_next w" "map_sorted (rx_scripts v)"
      "rx_em v = DeleteCallback fd CT_WRITE (rx_em w)"
    and t: "cs_writer t = None" "cs_script t = None"
  shows "ready_inv (insert (fd, True) D) v"
proof -
  have b: "reactor_base w" using inv by (simp add: ready_inv_def)
  then have sc: "scripts_ok (client_of w) (script_of w) (rx_next w)" and fk: "fds_ok (listener w) (client_of w) (script_of w)"
    and wa: "all_watched w" and so: "em_sorted (rx_em w)" by (simp_all add: reactor_base_def)
  note read = session_facts(2) [OF b s(1,4)]
  have "scripts_ok ((client_of w)(fd \<mapsto> t)) ((script_of w)(fd := None)) (rx_next w)"
    using scripts_okD [OF sc] t(2) unfolding scripts_ok_def by (auto split: if_splits)
  moreover have "fds_ok (listener w) ((client_of w)(fd \<mapsto> t)) ((script_of w)(fd := None))"
    using fds_okD [OF fk] s(1) unfolding fds_ok_def by (auto split: if_splits)
  moreover have "all_watched v"
    using wa read t(1) unfolding watched_def views by auto
  ultimately have base: "reactor_base v" using c so by (simp add: reactor_base_def views)
  have W: "writer_of (rx_em w) fd = Some (OnReadyToSendToClientCb (rx_serial w fd))"
    using wa s(1,3) unfolding watched_def by blast
  have gone: "\<not> cp_registered (ru_proc r)" if "script_of w fd = Some r" for r
    using scripts_okD(2,3) [OF sc that] s(1,2) registered_child by auto
  have live: "wanted_reader v f cb" if "wanted_reader w f cb" for f cb
    using that gone s(1) by (cases cb) (fastforce simp: reader_live_def views)+
  have keep: "wanted_writer v f cb" if "wanted_writer w f cb" "f \<noteq> fd" for f cb
    using that by (simp add: writer_live_def views)
  have em: "reader_of (rx_em v) = reader_of (rx_em w)" "writer_of (rx_em v) = writer_of (rx_em w)"
    "fds_to_delete (rx_em v) = fds_to_delete (rx_em w) @ [(fd, CT_WRITE)]"
    "to_delete (rx_em w) f u \<Longrightarrow> to_delete (rx_em v) f u" "to_delete (rx_em v) fd CT_WRITE" for f u
    by (simp_all add: views)
  have "wanted_reader v f cb \<or> (f, False) \<in> insert (fd, True) D \<and> to_delete (rx_em v) f CT_READ"
    if "reader_of (rx_em v) f = Some cb" for f cb
    using inv that live em(4) unfolding ready_inv_def em by blast
  moreover have "wanted_writer v f cb \<or> (f, True) \<in> insert (fd, True) D \<and> to_delete (rx_em v) f CT_WRITE \<and> client_of v f \<noteq> None"
    if "writer_of (rx_em v) f = Some cb" for f cb
  proof (cases "f = fd")
    case True
    with em(5) show ?thesis by (simp add: views)
  next
    case False
    then have "client_of v f = client_of w f" by (simp add: views)
    with False ready_invD(3) [OF inv, of f cb] that keep [of f cb] em(4) show ?thesis by (auto simp: em(2))
  qed
  moreover have "\<forall>(f, u)\<in>set (fds_to_delete (rx_em v)). u = CT_WRITE \<and> writer_of (rx_em v) f \<noteq> None \<or>
      u = CT_READWRITE \<and> (\<exists>n. reader_of (rx_em v) f = Some (ReadChildOutputCallback n))"
    using ready_invD(4) [OF inv] W unfolding em by auto
  ultimately show ?thesis using base unfolding ready_inv_def by blast
qed

lemma client_writable_runs:
  assumes inv: "ready_inv D w" and wanted: "wanted_writer w fd (OnReadyToSendToClientCb n)"
  shows "\<exists>v. client_writable fd n e a1 a2 w = Inr v \<and> ready_inv (insert (fd, True) D) v"
proof -
  have b: "reactor_base w" using inv by (simp add: ready_inv_def)
  obtain s where s: "client_of w fd = Some s" "cs_writer s \<noteq> None" and n: "rx_serial w fd = n"
    using wanted by (auto simp: writer_live_def)
  with session_facts(1) [OF b s(1)] have busy: "cs_busy s" "cs_script s = None" by (auto simp: not_stuck_def)
  note read = session_facts(2) [OF b s(1) busy(1)]
  let ?ev = "Writable e a1 a2" and ?t = "OnReadyToSend e a1 a2 s"
  have t: "cs_script ?t = None" using writable_effect(1) [of e a1 a2 s] busy(2) by auto
  have "cluster_inv (rx_cluster w)" using b by (simp add: reactor_base_def)
  from client_step [OF this s(1), of ?ev] s(1) obtain c where
    c: "cluster_step (Client_event fd ?ev) (rx_cluster w) = Inr c" "cluster_inv c"
      "listener (w\<lparr>rx_cluster := c\<rparr>) = listener w" "client_of (w\<lparr>rx_cluster := c\<rparr>) = (client_of w)(fd \<mapsto> ?t)"
    by (auto simp: client_of_def)
  show ?thesis
  proof (cases "cs_writer ?t")
    case (Some x)
    define v where "v = w\<lparr>rx_cluster := c\<rparr>"
    have "client_writable fd n e a1 a2 w = Inr v"
      using s n c Some by (simp add: client_writable_def v_def)
    moreover have "ready_inv D v"
      by (rule ready_client [OF inv s(1), of v ?t False])
        (use c read t busy(2) Some s(2) b in \<open>auto simp: v_def reactor_base_def\<close>)
    ultimately show ?thesis using ready_inv_mono by blast
  next
    case None
    have sorted: "map_sorted (rx_scripts w)" and sc: "scripts_ok (client_of w) (script_of w) (rx_next w)"
      using b by (simp_all add: reactor_base_def)
    have "\<not> cp_child (ru_proc r)" if "map_find (rx_scripts w) fd = Some r" for r
      using scripts_okD(3) [OF sc, of fd r] that s(1) busy(2) by (auto simp: script_of_def)
    then have drop: "drop_script fd (em, rx_scripts w) = (em, map_erase fd (rx_scripts w))" for em
      by (simp add: drop_script_def split: option.split)
    define v where "v = w\<lparr>rx_cluster := c, rx_em := DeleteCallback fd CT_WRITE (rx_em w), rx_scripts := map_erase fd (rx_scripts w)\<rparr>"
    have "client_writable fd n e a1 a2 w = Inr v"
      using s n c None by (simp add: client_writable_def drop v_def)
    moreover have "listener v = listener (w\<lparr>rx_cluster := c\<rparr>)" "client_of v = client_of (w\<lparr>rx_cluster := c\<rparr>)"
      "script_of v = (script_of w)(fd := None)"
      using sorted by (simp_all add: v_def listener_def client_of_def script_of_def map_find_erase fun_eq_iff)
    then have "ready_inv (insert (fd, True) D) v"
      by (intro response_done [OF inv s(1) busy(2) s(2) busy(1), of v ?t])
        (use c t None sorted in \<open>simp_all add: v_def map_sorted_erase\<close>)
    ultimately show ?thesis by blast
  qed
qed

text \<open>A script is started: its processor is registered on a descriptor that was not in use.\<close>

lemma not_open:
  assumes "\<not> fd_open w fd" "map_sorted (rx_scripts w)"
  shows "\<not> listener w fd" "client_of w fd = None" "script_of w f = Some r \<Longrightarrow> cp_child (ru_proc r) \<Longrightarrow> ru_fd r \<noteq> fd"
  using assms map_find_set [of "rx_scripts w" f r] by (auto simp: fd_open_def listener_def script_of_def)

lemma fresh_not_deleted:
  assumes "ready_inv D w" "client_of w fd = None" "reader_of (rx_em w) fd = None"
  shows "\<not> to_delete (rx_em w) fd t" "writer_of (rx_em w) fd = None"
proof -
  show w: "writer_of (rx_em w) fd = None"
    using ready_invD(3) [OF assms(1), of fd] assms(2) by (cases "writer_of (rx_em w) fd") (auto simp: writer_live_def)
  show "\<not> to_delete (rx_em w) fd t"
    using ready_invD(4) [OF assms(1), of fd] w assms(3) by (auto simp: to_delete_def)
qed

lemma started_inv: "cgi_inv CGIProcessor_started" "cp_child CGIProcessor_started" "cp_registered CGIProcessor_started"
  by (rule cgi_started_inv) (simp_all add: CGIProcessor_started_def)

lemma scripts_insert:
  assumes sc: "scripts_ok C S nx" and "C fd = Some s" "cs_script t \<noteq> None" "ru_serial r = nx" "cgi_inv (ru_proc r)" "cp_child (ru_proc r)"
  shows "scripts_ok (C(fd \<mapsto> t)) (S(fd \<mapsto> r)) (Suc nx)"
  unfolding scripts_ok_def
proof (intro conjI allI impI)
  fix f a g b
  assume "(S(fd \<mapsto> r)) f = Some a" "(S(fd \<mapsto> r)) g = Some b" "ru_serial a = ru_serial b"
  then show "f = g"
    using scripts_okD(2) [OF sc, of f a] scripts_okD(2) [OF sc, of g b] scripts_okD(4) [OF sc, of f a g b] assms(4)
    by (cases "f = fd"; cases "g = fd") auto
next
  fix f u assume "(C(fd \<mapsto> t)) f = Some u" "cs_script u \<noteq> None"
  then show "\<exists>a. (S(fd \<mapsto> r)) f = Some a \<and> cp_child (ru_proc a)"
    using assms(6) scripts_okD(1) [OF sc, of f u] by (cases "f = fd") auto
next
  fix f a assume a: "(S(fd \<mapsto> r)) f = Some a"
  show "ru_serial a < Suc nx" "cgi_inv (ru_proc a)"
    using a scripts_okD(2) [OF sc, of f a] assms(4,5) by (cases "f = fd"; auto)+
  show "\<exists>u. (C(fd \<mapsto> t)) f = Some u \<and> (cp_child (ru_proc a) \<longrightarrow> cs_script u \<noteq> None)"
    using a scripts_okD(3) [OF sc, of f a] assms(3) by (cases "f = fd") auto
qed

lemma fds_insert:
  assumes fk: "fds_ok L C S" and "C fd = Some s" "\<not> L (ru_fd r)" "C (ru_fd r) = None"
    and new: "\<And>f a. S f = Some a \<Longrightarrow> cp_child (ru_proc a) \<Longrightarrow> ru_fd a \<noteq> ru_fd r"
  shows "fds_ok L (C(fd \<mapsto> t)) (S(fd \<mapsto> r))"
  unfolding fds_ok_def
proof (intro conjI allI impI)
  fix f a g b
  assume "(S(fd \<mapsto> r)) f = Some a" "(S(fd \<mapsto> r)) g = Some b" "cp_child (ru_proc a)" "cp_child (ru_proc b)" "ru_fd a = ru_fd b"
  then show "f = g"
    using new [of f a] new [of g b] fds_okD(3) [OF fk, of f a g b] by (cases "f = fd"; cases "g = fd") auto
next
  fix f a assume "(S(fd \<mapsto> r)) f = Some a" "cp_child (ru_proc a)"
  with fds_okD(2) [OF fk, of f a] assms(2-4) show "\<not> L (ru_fd a)" "(C(fd \<mapsto> t)) (ru_fd a) = None"
    by (cases "f = fd"; auto)+
qed (use fds_okD(1) [OF fk] assms(2) in auto)

lemma script_started:
  assumes inv: "ready_inv D w" and s: "client_of w fd = Some s" "cs_script s = None" "cs_writer s = None"
    and c: "cluster_inv (rx_cluster v)" and child: "\<not> fd_open w child" "reader_of (rx_em w) child = None"
    and views: "listener v = listener w" "client_of v = (client_of w)(fd \<mapsto> t)"
      "script_of v = (script_of w)(fd \<mapsto> \<lparr>ru_fd = child, ru_serial = rx_next w, ru_proc = CGIProcessor_started\<rparr>)"
      "rx_serial v = rx_serial w" "rx_next v = Suc (rx_next w)" "map_sorted (rx_scripts v)"
      "reader_of (rx_em v) = (reader_of (rx_em w))(child \<mapsto> ReadChildOutputCallback (rx_next w))"
      "writer_of (rx_em v) = writer_of (rx_em w)" "fds_to_delete (rx_em v) = fds_to_delete (rx_em w)" "em_sorted (rx_em v)"
    and read: "reader_of (rx_em w) fd = Some (OnReadyToRecvFromClientCb (rx_serial w fd))" "\<not> to_delete (rx_em w) fd CT_READ"
    and t: "cs_script t \<noteq> None" "cs_writer t = None"
  shows "ready_inv D v"
proof -
  let ?r = "\<lparr>ru_fd = child, ru_serial = rx_next w, ru_proc = CGIProcessor_started\<rparr>"
  have b: "reactor_base w" using inv by (simp add: ready_inv_def)
  then have sc: "scripts_ok (client_of w) (script_of w) (rx_next w)" and fk: "fds_ok (listener w) (client_of w) (script_of w)"
    and wa: "all_watched w" and so: "map_sorted (rx_scripts w)" by (simp_all add: reactor_base_def)
  note free = not_open [OF child(1) so]
  have del: "to_delete (rx_em v) = to_delete (rx_em w)" by (simp add: to_delete_def views(9) fun_eq_iff)
  note quiet = fresh_not_deleted(1) [OF inv free(2) child(2)]
  have "scripts_ok ((client_of w)(fd \<mapsto> t)) ((script_of w)(fd \<mapsto> ?r)) (Suc (rx_next w))"
    using scripts_insert [OF sc s(1) t(1)] started_inv by simp
  moreover have "fds_ok (listener w) ((client_of w)(fd \<mapsto> t)) ((script_of w)(fd \<mapsto> ?r))"
    by (rule fds_insert [OF fk s(1)]) (use free in auto)
  moreover have "all_watched v"
  proof -
    have "ru_fd x \<noteq> child" if "script_of w f = Some x" "cp_registered (ru_proc x)" for f x
      using free(3) [OF that(1)] scripts_okD(2) [OF sc that(1)] registered_child that(2) by blast
    moreover have "f \<noteq> child" if "listener w f \<or> client_of w f \<noteq> None" for f using free(1,2) that by auto
    moreover have "fd \<noteq> child" using s(1) free(2) by auto
    ultimately show ?thesis
      using wa read t(2) quiet unfolding watched_def views del by (auto split: if_splits)
  qed
  ultimately have base: "reactor_base v" using c views(10,6) by (simp add: reactor_base_def views)
  have live: "wanted_reader v f cb" if "wanted_reader w f cb" for f cb
  proof (cases cb)
    case (ReadChildOutputCallback n)
    with that obtain g x where x: "script_of w g = Some x" "ru_serial x = n" "ru_fd x = f" "cp_registered (ru_proc x)"
      by (auto simp: reader_live_def)
    then have "cp_child (ru_proc x)" using scripts_okD(2) [OF sc x(1)] registered_child by blast
    then have "g \<noteq> fd" using scripts_okD(3) [OF sc x(1)] s(1,2) by auto
    with x ReadChildOutputCallback show ?thesis by (auto simp: reader_live_def views)
  qed (use that s(1) in \<open>auto simp: reader_live_def views\<close>)
  have new: "wanted_reader v child (ReadChildOutputCallback (rx_next w))"
    using started_inv(3) by (auto simp: reader_live_def views)
  have "wanted_reader v f cb \<or> (f, False) \<in> D \<and> to_delete (rx_em v) f CT_READ" if "reader_of (rx_em v) f = Some cb" for f cb
    using that new live ready_invD(2) [OF inv, of f cb] by (cases "f = child") (auto simp: views(7) del)
  moreover have "wanted_writer v f cb \<or> (f, True) \<in> D \<and> to_delete (rx_em v) f CT_WRITE \<and> client_of v f \<noteq> None"
    if "writer_of (rx_em v) f = Some cb" for f cb
    using that ready_invD(3) [OF inv, of f cb] s(1,3) by (auto simp: views(2,4,8) del writer_live_def)
  moreover have "u = CT_WRITE \<and> writer_of (rx_em v) f \<noteq> None \<or>
      u = CT_READWRITE \<and> (\<exists>n. reader_of (rx_em v) f = Some (ReadChildOutputCallback n))"
    if "(f, u) \<in> set (fds_to_delete (rx_em v))" for f u
    using that ready_invD(4) [OF inv, of f u] by (auto simp: views(7-9))
  ultimately show ?thesis using base unfolding ready_inv_def by blast
qed

lemma session_guard_answers:
  "session_guard m (Readable (e\<lparr>se_write_ok := a, se_proc := (se_proc e)\<lparr>pe_callback_ok := b\<rparr>\<rparr>) pack) s \<longleftrightarrow>
     session_guard m (Readable e pack) s"
proof -
  let ?e = "e\<lparr>se_write_ok := a, se_proc := (se_proc e)\<lparr>pe_callback_ok := b\<rparr>\<rparr>"
  have "session_step_build ?e = session_step_build e"
    by (intro ext) (simp add: session_step_build_def split: option.split)
  then have "session_body ?e = session_body e" by (intro ext) (simp only: session_body_def)
  then have "session_Build ?e = session_Build e" by (intro ext) (simp only: session_Build_def)
  then show ?thesis by (simp add: system_ok_def read_ok_def)
qed

lemma readable_runs:
  assumes inv: "ready_inv D w" and R: "reader_of (rx_em w) fd = Some (OnReadyToRecvFromClientCb n)"
    and wanted: "wanted_reader w fd (OnReadyToRecvFromClientCb n)"
    and fits: "\<not> fd_open w child" "cluster_guard (Client_event fd (Readable e pack)) (rx_cluster w)"
  shows "\<exists>v. client_readable fd n e pack child ctl_ok w = Inr v \<and> ready_inv D v"
proof -
  have b: "reactor_base w" using inv by (simp add: ready_inv_def)
  obtain s where s: "client_of w fd = Some s" and n: "rx_serial w fd = n" using wanted by (auto simp: reader_live_def)
  note stuck = session_facts(1) [OF b s]
  have quiet: "\<not> to_delete (rx_em w) fd CT_READ" using R by (auto simp: to_delete_def dest!: ready_invD(4) [OF inv])
  obtain script_ok em_script where reg1: "TryRegisterCallback (ctl_answers ctl_ok) child CT_READ
      (ReadChildOutputCallback (rx_next w)) (rx_em w) = Inr (script_ok, em_script)"
    "script_ok \<longrightarrow> reader_of (rx_em w) child = None" "writer_of em_script = writer_of (rx_em w)"
    "reader_of em_script = (if script_ok then (reader_of (rx_em w))(child \<mapsto> ReadChildOutputCallback (rx_next w)) else reader_of (rx_em w))"
    "fds_to_delete em_script = fds_to_delete (rx_em w)" "em_sorted em_script"
    using register_reader [of "ctl_answers ctl_ok" child "ReadChildOutputCallback (rx_next w)" "rx_em w"] b
    by (auto simp: reactor_base_def)
  obtain write_ok em_write where reg2: "TryRegisterCallback (ctl_answers ctl_ok) fd CT_WRITE
      (OnReadyToSendToClientCb n) (rx_em w) = Inr (write_ok, em_write)"
    "write_ok \<longrightarrow> writer_of (rx_em w) fd = None" "reader_of em_write = reader_of (rx_em w)"
    "writer_of em_write = (if write_ok then (writer_of (rx_em w))(fd \<mapsto> OnReadyToSendToClientCb n) else writer_of (rx_em w))"
    "fds_to_delete em_write = fds_to_delete (rx_em w)" "em_sorted em_write"
    using register_writer [of "ctl_answers ctl_ok" fd "OnReadyToSendToClientCb n" "rx_em w"] b
    by (auto simp: reactor_base_def)
  let ?e = "e\<lparr>se_write_ok := write_ok, se_proc := (se_proc e)\<lparr>pe_callback_ok := script_ok\<rparr>\<rparr>"
  have cl: "cluster_inv (rx_cluster w)" using b by (simp add: reactor_base_def)
  have guard: "cluster_guard (Client_event fd (Readable ?e pack)) (rx_cluster w)"
    using fits(2) by (auto simp: session_guard_answers simp del: session_guard.simps split: option.splits)
  from client_step [OF cl s guard] obtain t c where
    c: "session_step (Readable ?e pack) s = Inr t" "cluster_step (Client_event fd (Readable ?e pack)) (rx_cluster w) = Inr c"
      "cluster_inv c" "listener (w\<lparr>rx_cluster := c\<rparr>) = listener w" "client_of (w\<lparr>rx_cluster := c\<rparr>) = (client_of w)(fd \<mapsto> t)"
    by blast
  have sys: "cs_busy s \<or> rp_status pack \<noteq> RS_OK \<or> system_ok ?e" using guard s by (auto simp: client_of_def)
  note eff = readable_effect [OF c(1) stuck sys]
  have idle: "cs_busy s \<or> cs_writer s = None \<and> cs_script s = None" using stuck by (auto simp: not_stuck_def)
  define v where "v = w\<lparr>rx_cluster := c\<rparr>"
  have run: "client_readable fd n e pack child ctl_ok w = Inr
      (if cs_script s = None \<and> cs_script t \<noteq> None then
         v\<lparr>rx_em := em_script, rx_scripts := map_assign fd
           \<lparr>ru_fd = child, ru_serial = rx_next w, ru_proc = CGIProcessor_started\<rparr> (rx_scripts w), rx_next := Suc (rx_next w)\<rparr>
       else if cs_writer s = None \<and> cs_writer t \<noteq> None then v\<lparr>rx_em := em_write\<rparr> else v)"
    using s n reg1(1) reg2(1) c(2,5) by (simp add: client_readable_def v_def Let_def)
  have v: "rx_em v = rx_em w" "rx_cluster v = c" "rx_serial v = rx_serial w" "rx_next v = rx_next w" "rx_scripts v = rx_scripts w"
    "script_of v = script_of w" "listener v = listener w" "client_of v = (client_of w)(fd \<mapsto> t)"
    using c(4,5) by (simp_all add: v_def)
  show ?thesis
  proof (cases "cs_script s = None \<and> cs_script t \<noteq> None")
    case True
    then have ok: script_ok and t: "cs_writer t = None" and "\<not> cs_busy s" using eff by auto
    with idle have sw: "cs_writer s = None" by simp
    let ?u = "v\<lparr>rx_em := em_script, rx_scripts := map_assign fd
        \<lparr>ru_fd = child, ru_serial = rx_next w, ru_proc = CGIProcessor_started\<rparr> (rx_scripts w), rx_next := Suc (rx_next w)\<rparr>"
    have "ready_inv D ?u"
      by (rule script_started [OF inv s _ sw _ fits(1), where t = t])
        (use True t ok reg1 c(3) b R n quiet in \<open>simp_all add: v map_find_assign map_sorted_assign script_of_def reactor_base_def\<close>)
    then show ?thesis using run True by simp
  next
    case False
    then have script: "cs_script t = cs_script s" using eff(3) by auto
    show ?thesis
    proof (cases "cs_writer s = None \<and> cs_writer t \<noteq> None")
      case True
      then have ok: write_ok using eff(2) by auto
      have "ready_inv D (v\<lparr>rx_em := em_write\<rparr>)"
        by (rule ready_client [OF inv s, where t = t and ok = True])
          (use True ok reg2 c(3) R n quiet script in \<open>simp_all add: v\<close>)
      then show ?thesis unfolding run using True False by auto
    next
      case none: False
      then have "cs_writer t \<noteq> None \<longleftrightarrow> cs_writer s \<noteq> None" using eff(2) by auto
      then have "ready_inv D v"
        by (intro ready_client [OF inv s, where t = t and ok = False])
          (use c(3) R n quiet script b in \<open>simp_all add: v reactor_base_def\<close>)
      then show ?thesis unfolding run using none False by auto
    qed
  qed
qed

lemma scripts_new_client:
  assumes sc: "scripts_ok C S nx" and "S k = None" "cs_script t = None"
  shows "scripts_ok (C(k \<mapsto> t)) S (Suc nx)"
  unfolding scripts_ok_def
proof (intro conjI allI impI)
  fix f u assume "(C(k \<mapsto> t)) f = Some u" "cs_script u \<noteq> None"
  then show "\<exists>a. S f = Some a \<and> cp_child (ru_proc a)"
    using assms(3) scripts_okD(1) [OF sc, of f u] by (cases "f = k") auto
next
  fix f a assume a: "S f = Some a"
  show "ru_serial a < Suc nx" "cgi_inv (ru_proc a)" using scripts_okD(2) [OF sc a] by auto
  show "\<exists>u. (C(k \<mapsto> t)) f = Some u \<and> (cp_child (ru_proc a) \<longrightarrow> cs_script u \<noteq> None)"
    using scripts_okD(3) [OF sc a] a assms(2) by (cases "f = k") auto
qed (use scripts_okD(4) [OF sc] in blast)

lemma client_accepted:
  assumes inv: "ready_inv D w" and k: "\<not> fd_open w k" and c: "cluster_inv (rx_cluster v)"
    and views: "listener v = listener w" "client_of v = (client_of w)(k \<mapsto> t)" "script_of v = script_of w"
      "rx_serial v = (rx_serial w)(k := rx_next w)" "rx_next v = Suc (rx_next w)" "rx_scripts v = rx_scripts w"
      "reader_of (rx_em v) = (if ok then (reader_of (rx_em w))(k \<mapsto> OnReadyToRecvFromClientCb (rx_next w)) else reader_of (rx_em w))"
      "writer_of (rx_em v) = writer_of (rx_em w)" "fds_to_delete (rx_em v) = fds_to_delete (rx_em w)" "em_sorted (rx_em v)"
      "ok \<Longrightarrow> reader_of (rx_em w) k = None"
    and t: "cs_script t = None" "cs_writer t = None" "\<not> cs_busy t" "cs_closed t \<longleftrightarrow> \<not> ok"
  shows "ready_inv D v"
proof -
  have b: "reactor_base w" using inv by (simp add: ready_inv_def)
  then have sc: "scripts_ok (client_of w) (script_of w) (rx_next w)" and fk: "fds_ok (listener w) (client_of w) (script_of w)"
    and wa: "all_watched w" and so: "map_sorted (rx_scripts w)" by (simp_all add: reactor_base_def)
  note free = not_open [OF k so]
  have del: "to_delete (rx_em v) = to_delete (rx_em w)" by (simp add: to_delete_def views(9) fun_eq_iff)
  have quiet: "\<not> to_delete (rx_em w) k u" if ok for u using fresh_not_deleted(1) [OF inv free(2) views(11)] that by blast
  have none: "script_of w k = None" using scripts_okD(3) [OF sc, of k] free(2) by (cases "script_of w k") auto
  have "scripts_ok ((client_of w)(k \<mapsto> t)) (script_of w) (Suc (rx_next w))"
    by (rule scripts_new_client [OF sc none t(1)])
  moreover have "fds_ok (listener w) ((client_of w)(k \<mapsto> t)) (script_of w)"
    using fk free unfolding fds_ok_def by auto
  moreover have "all_watched v"
  proof -
    have "ru_fd x \<noteq> k" if "script_of w f = Some x" "cp_registered (ru_proc x)" for f x
      using free(3) [OF that(1)] scripts_okD(2) [OF sc that(1)] registered_child that(2) by blast
    moreover have "f \<noteq> k" if "listener w f" for f using free(1) that by auto
    ultimately show ?thesis
      using wa t(2-4) quiet unfolding watched_def views del by (auto split: if_splits)
  qed
  ultimately have base: "reactor_base v" using c views(10) so by (simp add: reactor_base_def views)
  have live: "wanted_reader v f cb" if "wanted_reader w f cb" for f cb
    using that free(2) by (cases cb) (auto simp: reader_live_def views)
  have new: "wanted_reader v k (OnReadyToRecvFromClientCb (rx_next w))" by (simp add: reader_live_def views)
  have "wanted_reader v f cb \<or> (f, False) \<in> D \<and> to_delete (rx_em v) f CT_READ" if "reader_of (rx_em v) f = Some cb" for f cb
    using that new live ready_invD(2) [OF inv, of f cb] by (cases "f = k \<and> ok") (auto simp: views(7) del split: if_splits)
  moreover have "wanted_writer v f cb \<or> (f, True) \<in> D \<and> to_delete (rx_em v) f CT_WRITE \<and> client_of v f \<noteq> None"
    if "writer_of (rx_em v) f = Some cb" for f cb
    using that ready_invD(3) [OF inv, of f cb] free(2) by (auto simp: views(2,4,8) del writer_live_def)
  moreover have "u = CT_WRITE \<and> writer_of (rx_em v) f \<noteq> None \<or>
      u = CT_READWRITE \<and> (\<exists>n. reader_of (rx_em v) f = Some (ReadChildOutputCallback n))"
    if "(f, u) \<in> set (fds_to_delete (rx_em v))" for f u
    using that ready_invD(4) [OF inv, of f u] views(11) by (auto simp: views(7-9))
  ultimately show ?thesis using base unfolding ready_inv_def by blast
qed

lemma accept_runs:
  assumes inv: "ready_inv D w" and wanted: "wanted_reader w fd MasterSocketCallback"
    and fits: "\<And>k. accept_fd = Some k \<Longrightarrow> \<not> fd_open w k"
  shows "\<exists>v. accept_client fd now accept_fd ctl_ok w = Inr v \<and> ready_inv D v"
proof -
  have b: "reactor_base w" using inv by (simp add: ready_inv_def)
  then have cl: "cluster_inv (rx_cluster w)" and so: "em_sorted (rx_em w)" by (simp_all add: reactor_base_def)
  have "listener w fd" using wanted by (simp add: reader_live_def)
  then obtain a where a: "map_find (cl_sockets (rx_cluster w)) fd = Some a" by (auto simp: listener_def)
  show ?thesis
  proof (cases accept_fd)
    case None
    with a inv show ?thesis by (simp add: accept_client_def MasterSocketCallback_Call_def)
  next
    case (Some k)
    obtain ok em1 where reg: "TryRegisterCallback (ctl_answers ctl_ok) k CT_READ
        (OnReadyToRecvFromClientCb (rx_next w)) (rx_em w) = Inr (ok, em1)" "ok \<longrightarrow> reader_of (rx_em w) k = None"
      "reader_of em1 = (if ok then (reader_of (rx_em w))(k \<mapsto> OnReadyToRecvFromClientCb (rx_next w)) else reader_of (rx_em w))"
      "writer_of em1 = writer_of (rx_em w)" "fds_to_delete em1 = fds_to_delete (rx_em w)" "em_sorted em1"
      using register_reader [of "ctl_answers ctl_ok" k "OnReadyToRecvFromClientCb (rx_next w)" "rx_em w"] so by auto
    obtain c where c: "cluster_step (Connection now ok fd (Some k)) (rx_cluster w) = Inr c" "cluster_inv c"
      using cluster_handler [OF cl, of "Connection now ok fd (Some k)"] by auto
    then obtain srv where d: "c = rx_cluster w\<lparr>cl_clients := map_assign k (ClientSession_new now ok fd srv) (cl_clients (rx_cluster w))\<rparr>"
      using a by (auto simp: MasterSocketCallback_Call_def split: list.splits)
    let ?t = "ClientSession_new now ok fd srv"
    define v where "v = w\<lparr>rx_cluster := c, rx_em := em1, rx_serial := (rx_serial w)(k := rx_next w), rx_next := Suc (rx_next w)\<rparr>"
    have run: "accept_client fd now accept_fd ctl_ok w = Inr v"
      using Some reg(1) c(1) by (simp add: accept_client_def v_def)
    have "listener v = listener w" "client_of v = (client_of w)(k \<mapsto> ?t)" "script_of v = script_of w"
      by (simp_all add: v_def d listener_def client_of_def script_of_def map_find_assign fun_eq_iff)
    then have "ready_inv D v"
      by (intro client_accepted [OF inv fits [OF Some], where t = ?t and ok = ok])
        (use c(2) reg in \<open>simp_all add: v_def ClientSession_new_def\<close>)
    with run show ?thesis by blast
  qed
qed

end
