(* ===== verification/ReactorTurn.thy ===== *)
theory ReactorTurn
  imports ReactorProps
begin

text \<open>
  A turn of the loop keeps the invariant: what is to be deleted is deleted, the callbacks of the descriptors
  that are ready are called, the ends of scripts are reported, and closed sessions are dropped.
\<close>

section \<open>A turn\<close>

lemma ready_runs:
  assumes inv: "ready_inv D w" and g: "ready_guard (fd, writing, i) w" and new: "(fd, writing) \<notin> D"
  shows "\<exists>v. deliver_ready (fd, writing, i) w = Inr v \<and> ready_inv (insert (fd, writing) D) v"
proof (cases "map_find (registered_for writing w) fd")
  case None
  then show ?thesis
    using ready_inv_mono [OF inv, of "insert (fd, writing) D"] by (simp add: call_found_def subset_insertI)
next
  case (Some cb)
  then have fits: "input_fits cb fd i w" and run: "deliver_ready (fd, writing, i) w = run_callback cb fd i w"
    using g by (simp_all add: call_found_def)
  have more: "ready_inv D v \<Longrightarrow> ready_inv (insert (fd, writing) D) v" for v using ready_inv_mono by blast
  show ?thesis
  proof (cases writing)
    case True
    with Some have "writer_of (rx_em w) fd = Some cb" by (simp add: registered_for_def writer_of_def)
    from ready_invD(3) [OF inv this] new True have wanted: "wanted_writer w fd cb" by simp
    then obtain e a1 a2 where "cb = OnReadyToSendToClientCb (rx_serial w fd)" "i = Sent e a1 a2"
      using fits by (auto simp: writer_live_def input_fits_def split: input.splits)
    with client_writable_runs [OF inv] wanted True run show ?thesis by (simp add: run_callback_def)
  next
    case False
    with Some have R: "reader_of (rx_em w) fd = Some cb" by (simp add: registered_for_def reader_of_def)
    from ready_invD(2) [OF inv this] new False have wanted: "wanted_reader w fd cb" by simp
    show ?thesis
    proof (cases cb)
      case MasterSocketCallback
      then obtain now accept_fd ctl_ok where i: "i = Accepted now accept_fd ctl_ok"
        using fits by (auto simp: input_fits_def split: input.splits)
      with fits MasterSocketCallback have "accept_fd = Some k \<Longrightarrow> \<not> fd_open w k" for k by (simp add: input_fits_def)
      with accept_runs [OF inv, of fd accept_fd now ctl_ok] wanted MasterSocketCallback
      obtain v where "accept_client fd now accept_fd ctl_ok w = Inr v" "ready_inv D v" by blast
      with more [of v] run MasterSocketCallback i show ?thesis by (simp add: run_callback_def)
    next
      case (OnReadyToRecvFromClientCb n)
      then obtain e pack child ctl_ok where i: "i = Received e pack child ctl_ok"
        using fits by (auto simp: input_fits_def split: input.splits)
      with fits OnReadyToRecvFromClientCb have free: "\<not> fd_open w child"
        and guard: "cluster_guard (Client_event fd (Readable e pack)) (rx_cluster w)"
        unfolding input_fits_def by (simp_all del: cluster_guard.simps)
      obtain v where "client_readable fd n e pack child ctl_ok w = Inr v" "ready_inv D v"
        using readable_runs [OF inv R [unfolded OnReadyToRecvFromClientCb] wanted [unfolded OnReadyToRecvFromClientCb] free guard]
        by blast
      with more [of v] run OnReadyToRecvFromClientCb i show ?thesis by (simp add: run_callback_def)
    next
      case (OnReadyToSendToClientCb n)
      with wanted show ?thesis by (simp add: reader_live_def)
    next
      case (ReadChildOutputCallback n)
      then obtain e ev ctl_ok where i: "i = Output e ev ctl_ok"
        using fits by (auto simp: input_fits_def split: input.splits)
      with fits ReadChildOutputCallback have "\<forall>status. ev \<noteq> Child_done status" by (auto simp: input_fits_def)
      with output_runs [OF inv] wanted ReadChildOutputCallback i run False show ?thesis by (simp add: run_callback_def)
    qed
  qed
qed

definition ready_key :: "ready \<Rightarrow> int \<times> bool" where
  "ready_key = (\<lambda>(fd, writing, _). (fd, writing))"

lemma all_ready_run:
  assumes "ready_inv D w" "can_happen deliver_ready ready_guard w evs" "distinct (map ready_key evs)"
    and "D \<inter> ready_key ` set evs = {}"
  shows "\<exists>v E. run_events deliver_ready w evs = Inr v \<and> ready_inv E v"
  using assms
proof (induction evs arbitrary: D w)
  case (Cons ev evs)
  obtain fd writing i where ev: "ev = (fd, writing, i)" by (cases ev)
  have key: "ready_key ev = (fd, writing)" by (simp add: ev ready_key_def)
  obtain v where v: "deliver_ready ev w = Inr v" "ready_inv (insert (fd, writing) D) v"
    using ready_runs [OF Cons.prems(1), of fd writing i] Cons.prems(2,4) key by (auto simp: ev)
  have "insert (fd, writing) D \<inter> ready_key ` set evs = {}" using Cons.prems(3,4) key by auto
  with Cons.IH [OF v(2)] Cons.prems(2,3) v(1) show ?case by simp
qed auto

lemma all_exits_run:
  assumes "exits_inv w" "can_happen report_exit exit_guard w evs"
  shows "\<exists>v. run_events report_exit w evs = Inr v \<and> exits_inv v"
  using assms
proof (induction evs arbitrary: w)
  case (Cons ev evs)
  obtain fd e status ctl_ok where ev: "ev = (fd, e, status, ctl_ok)" by (cases ev)
  obtain v where "report_exit ev w = Inr v" "exits_inv v"
    using exit_runs [OF Cons.prems(1), of fd e status ctl_ok] Cons.prems(2) by (auto simp: ev)
  with Cons show ?case by simp
qed simp

lemma watchedD:
  assumes "watched L C S ser R W del"
  shows "L fd \<Longrightarrow> R fd = Some MasterSocketCallback \<and> \<not> del fd CT_READ"
    "C fd = Some s \<Longrightarrow> R fd = Some (OnReadyToRecvFromClientCb (ser fd)) \<and> \<not> del fd CT_READ \<or> cs_closed s \<and> \<not> cs_busy s"
    "C fd = Some s \<Longrightarrow> cs_writer s \<noteq> None \<Longrightarrow> W fd = Some (OnReadyToSendToClientCb (ser fd)) \<and> \<not> del fd CT_WRITE"
    "S fd = Some r \<Longrightarrow> cp_registered (ru_proc r) \<Longrightarrow>
      R (ru_fd r) = Some (ReadChildOutputCallback (ru_serial r)) \<and> \<not> del (ru_fd r) CT_READ"
  using assms unfolding watched_def by blast+

lemma drop_session_views:
  assumes "drop_session d (em, scripts) = (em1, scripts1)"
  shows "reader_of em1 = reader_of em" "writer_of em1 = writer_of em" "em_sorted em1 = em_sorted em" "scripts1 = map_erase d scripts"
    "t \<in> {CT_READ, CT_WRITE} \<Longrightarrow> to_delete em1 f t \<longleftrightarrow> to_delete em f t \<or> f = d \<or>
      (\<exists>r. map_find scripts d = Some r \<and> cp_child (ru_proc r) \<and> f = ru_fd r)"
  using assms by (auto simp: drop_session_def drop_script_def split: option.splits if_splits)

lemma drop_all_views:
  assumes "fold drop_session ds (em, scripts) = (em1, scripts1)" "map_sorted scripts"
  shows "reader_of em1 = reader_of em \<and> writer_of em1 = writer_of em \<and> em_sorted em1 = em_sorted em \<and> map_sorted scripts1 \<and>
    map_find scripts1 = (\<lambda>f. if f \<in> set ds then None else map_find scripts f)"
  using assms
proof (induction ds arbitrary: em scripts)
  case (Cons d ds)
  obtain em0 scripts0 where d: "drop_session d (em, scripts) = (em0, scripts0)" by fastforce
  from Cons.IH [of em0 scripts0] Cons.prems drop_session_views [OF d] show ?case
    by (auto simp: d map_sorted_erase map_find_erase fun_eq_iff)
qed (auto simp: fun_eq_iff)

lemma drop_all_deletes:
  assumes "fold drop_session ds (em, scripts) = (em1, scripts1)" "map_sorted scripts" and t: "t \<in> {CT_READ, CT_WRITE}"
  shows "to_delete em1 f t \<longleftrightarrow> to_delete em f t \<or> f \<in> set ds \<or>
    (\<exists>d\<in>set ds. \<exists>r. map_find scripts d = Some r \<and> cp_child (ru_proc r) \<and> f = ru_fd r)"
  using assms(1,2)
proof (induction ds arbitrary: em scripts)
  case (Cons d ds)
  obtain em0 scripts0 where d: "drop_session d (em, scripts) = (em0, scripts0)" by fastforce
  note v = drop_session_views [OF d]
  have "map_sorted scripts0" using Cons.prems(2) v(4) by (simp add: map_sorted_erase)
  with Cons.IH [of em0 scripts0] Cons.prems(1) d have IH: "to_delete em1 f t \<longleftrightarrow> to_delete em0 f t \<or> f \<in> set ds \<or>
      (\<exists>d\<in>set ds. \<exists>r. map_find scripts0 d = Some r \<and> cp_child (ru_proc r) \<and> f = ru_fd r)" by simp
  have "(\<exists>x\<in>set ds. \<exists>r. map_find scripts0 x = Some r \<and> cp_child (ru_proc r) \<and> f = ru_fd r) \<longleftrightarrow>
    (\<exists>x\<in>set ds - {d}. \<exists>r. map_find scripts x = Some r \<and> cp_child (ru_proc r) \<and> f = ru_fd r)"
    using Cons.prems(2) v(4) by (auto simp: map_find_erase)
  then show ?case unfolding IH using v(5) [OF t, of f] by auto
qed auto

text \<open>
  The look at the clients, over what the state looks like: \<open>gone\<close> are the sessions that are dropped, \<open>C1\<close> those
  that stay, with the same callbacks, and \<open>freed\<close> the descriptors whose callbacks are to be deleted.
\<close>

definition stay :: "int set \<Rightarrow> (int \<Rightarrow> client_session option) \<Rightarrow> (int \<Rightarrow> client_session option) \<Rightarrow> bool" where
  "stay gone C C1 \<longleftrightarrow>
     (\<forall>f u. C1 f = Some u \<longrightarrow> (\<exists>s. C f = Some s \<and> f \<notin> gone \<and> cs_script u = cs_script s \<and> cs_writer u = cs_writer s \<and>
        cs_busy u = cs_busy s \<and> (cs_closed s \<longrightarrow> cs_closed u))) \<and>
     (\<forall>f s. C f = Some s \<longrightarrow> f \<notin> gone \<longrightarrow> (\<exists>u. C1 f = Some u \<and> cs_script u = cs_script s \<and> cs_writer u = cs_writer s)) \<and>
     (\<forall>f\<in>gone. C f \<noteq> None)"

definition left :: "int set \<Rightarrow> (int \<Rightarrow> running_script option) \<Rightarrow> int \<Rightarrow> running_script option" where
  "left gone S f = (if f \<in> gone then None else S f)"

definition freed :: "int set \<Rightarrow> (int \<Rightarrow> running_script option) \<Rightarrow> int \<Rightarrow> bool" where
  "freed gone S f \<longleftrightarrow> f \<in> gone \<or> (\<exists>d\<in>gone. \<exists>r. S d = Some r \<and> cp_child (ru_proc r) \<and> f = ru_fd r)"

lemma left_Some: "left gone S f = Some r \<longleftrightarrow> f \<notin> gone \<and> S f = Some r"
  by (simp add: left_def)

lemma stayD:
  assumes "stay gone C C1"
  shows "C1 f = Some u \<Longrightarrow> \<exists>s. C f = Some s \<and> f \<notin> gone \<and> cs_script u = cs_script s \<and> cs_writer u = cs_writer s \<and>
      cs_busy u = cs_busy s \<and> (cs_closed s \<longrightarrow> cs_closed u)"
    "C f = Some s \<Longrightarrow> f \<notin> gone \<Longrightarrow> \<exists>u. C1 f = Some u \<and> cs_script u = cs_script s \<and> cs_writer u = cs_writer s"
    "f \<in> gone \<Longrightarrow> C f \<noteq> None"
  using assms unfolding stay_def by blast+

lemma scripts_left:
  assumes sc: "scripts_ok C S nx" and st: "stay gone C C1"
  shows "scripts_ok C1 (left gone S) nx"
  unfolding scripts_ok_def left_Some
proof (intro conjI allI impI)
  fix f u assume u: "C1 f = Some u" "cs_script u \<noteq> None"
  from stayD(1) [OF st u(1)] u(2) scripts_okD(1) [OF sc, of f]
  show "\<exists>r. (f \<notin> gone \<and> S f = Some r) \<and> cp_child (ru_proc r)" by auto
next
  fix f r assume r: "f \<notin> gone \<and> S f = Some r"
  with scripts_okD(2) [OF sc, of f r] show "ru_serial r < nx" "cgi_inv (ru_proc r)" by simp_all
  from r scripts_okD(3) [OF sc, of f r] stayD(2) [OF st, of f]
  show "\<exists>u. C1 f = Some u \<and> (cp_child (ru_proc r) \<longrightarrow> cs_script u \<noteq> None)" by fastforce
qed (use scripts_okD(4) [OF sc] in blast)

lemma fds_left:
  assumes fk: "fds_ok L C S" and st: "stay gone C C1"
  shows "fds_ok L C1 (left gone S)"
proof -
  have none: "C1 f = None" if "C f = None" for f using that stayD(1) [OF st, of f] by (cases "C1 f") auto
  show ?thesis
    unfolding fds_ok_def left_Some
  proof (intro conjI allI impI)
    fix f g r q assume "f \<notin> gone \<and> S f = Some r" "g \<notin> gone \<and> S g = Some q"
      "cp_child (ru_proc r)" "cp_child (ru_proc q)" "ru_fd r = ru_fd q"
    with fds_okD(3) [OF fk, of f r g q] show "f = g" by simp
  next
    fix f r assume "f \<notin> gone \<and> S f = Some r" "cp_child (ru_proc r)"
    with fds_okD(2) [OF fk, of f r] none show "\<not> L (ru_fd r)" "C1 (ru_fd r) = None" by simp_all
  qed (use fds_okD(1) [OF fk] none in simp)
qed

lemma freed_only:
  assumes fk: "fds_ok L C S" and st: "stay gone C C1"
  shows "L f \<Longrightarrow> \<not> freed gone S f" "C1 f = Some u \<Longrightarrow> \<not> freed gone S f"
    "left gone S g = Some r \<Longrightarrow> cp_child (ru_proc r) \<Longrightarrow> \<not> freed gone S (ru_fd r)"
proof -
  have freed: "f \<in> gone \<and> C f \<noteq> None \<or> \<not> L f \<and> C f = None" if "freed gone S f" for f
    using that stayD(3) [OF st, of f] fds_okD(2) [OF fk] by (auto simp: freed_def)
  show "\<not> freed gone S f" if "L f" using freed [of f] fds_okD(1) [OF fk that] that by auto
  show "\<not> freed gone S f" if "C1 f = Some u" using freed [of f] stayD(1) [OF st that] by auto
  assume r: "left gone S g = Some r" "cp_child (ru_proc r)"
  then have S: "S g = Some r" "g \<notin> gone" by (simp_all add: left_Some)
  show "\<not> freed gone S (ru_fd r)"
  proof
    assume "freed gone S (ru_fd r)"
    with freed fds_okD(2) [OF fk S(1) r(2)] obtain d q where
      "d \<in> gone" "S d = Some q" "cp_child (ru_proc q)" "ru_fd r = ru_fd q"
      unfolding freed_def by (metis stayD(3) [OF st])
    with fds_okD(3) [OF fk S(1) _ r(2)] S(2) show False by blast
  qed
qed

lemma watched_left:
  assumes wa: "watched L C S ser R W del" and sc: "scripts_ok C S nx" and fk: "fds_ok L C S" and st: "stay gone C C1"
    and del: "\<And>f t. t \<in> {CT_READ, CT_WRITE} \<Longrightarrow> del1 f t \<longleftrightarrow> del f t \<or> freed gone S f"
  shows "watched L C1 (left gone S) ser R W del1"
  unfolding watched_def
proof (intro conjI allI impI)
  fix f assume "L f"
  with watchedD(1) [OF wa] freed_only(1) [OF fk st] del
  show "R f = Some MasterSocketCallback" "\<not> del1 f CT_READ" by simp_all
next
  fix f u assume u: "C1 f = Some u"
  then obtain s where s: "C f = Some s" "cs_writer u = cs_writer s" "cs_busy u = cs_busy s" "cs_closed s \<longrightarrow> cs_closed u"
    using stayD(1) [OF st] by blast
  note free = freed_only(2) [OF fk st u]
  from free del watchedD(2) [OF wa s(1)] s(3,4)
  show "R f = Some (OnReadyToRecvFromClientCb (ser f)) \<and> \<not> del1 f CT_READ \<or> cs_closed u \<and> \<not> cs_busy u" by auto
  assume "cs_writer u \<noteq> None"
  with free del watchedD(3) [OF wa s(1)] s(2)
  show "W f = Some (OnReadyToSendToClientCb (ser f))" "\<not> del1 f CT_WRITE" by simp_all
next
  fix f r assume r: "left gone S f = Some r" "cp_registered (ru_proc r)"
  then have S: "S f = Some r" by (simp add: left_Some)
  have "cp_child (ru_proc r)" using scripts_okD(2) [OF sc S] registered_child r(2) by blast
  from freed_only(3) [OF fk st r(1) this] del watchedD(4) [OF wa S r(2)]
  show "R (ru_fd r) = Some (ReadChildOutputCallback (ru_serial r))" "\<not> del1 (ru_fd r) CT_READ" by simp_all
qed

lemma live_left:
  assumes sc: "scripts_ok C S nx" and st: "stay gone C C1"
  shows "reader_live L C S ser f cb \<Longrightarrow> reader_live L C1 (left gone S) ser f cb \<or> freed gone S f"
    "writer_live C ser f cb \<Longrightarrow> writer_live C1 ser f cb \<or> freed gone S f"
proof -
  show "writer_live C ser f cb \<Longrightarrow> writer_live C1 ser f cb \<or> freed gone S f"
    using stayD(2) [OF st, of f] by (fastforce simp: writer_live_def freed_def)
  assume live: "reader_live L C S ser f cb"
  show "reader_live L C1 (left gone S) ser f cb \<or> freed gone S f"
  proof (cases cb)
    case (OnReadyToRecvFromClientCb n)
    with live stayD(2) [OF st, of f] show ?thesis by (fastforce simp: reader_live_def freed_def)
  next
    case (ReadChildOutputCallback n)
    with live obtain g r where r: "S g = Some r" "ru_serial r = n" "ru_fd r = f" "cp_registered (ru_proc r)"
      by (auto simp: reader_live_def)
    have "cp_child (ru_proc r)" using scripts_okD(2) [OF sc r(1)] registered_child r(4) by blast
    with r ReadChildOutputCallback show ?thesis by (cases "g \<in> gone") (auto simp: reader_live_def freed_def left_Some)
  qed (use live in \<open>simp_all add: reader_live_def\<close>)
qed

lemma check_inv:
  assumes "reactor_inv w"
  shows "reactor_inv (check_reactor now w)"
proof -
  have b: "reactor_base w" using assms by (simp add: reactor_inv_def)
  then have cl: "cluster_inv (rx_cluster w)" and sc: "scripts_ok (client_of w) (script_of w) (rx_next w)"
    and fk: "fds_ok (listener w) (client_of w) (script_of w)" and wa: "all_watched w" and so: "map_sorted (rx_scripts w)"
    and sc_sorted: "map_sorted (cl_clients (rx_cluster w))"
    by (simp_all add: reactor_base_def cluster_inv_def)
  obtain em1 scripts1 where d: "fold drop_session (closed_clients w) (rx_em w, rx_scripts w) = (em1, scripts1)" by fastforce
  note views = drop_all_views [OF d so]
  define v where "v = check_reactor now w"
  define gone where "gone = set (closed_clients w)"
  have v: "rx_em v = em1" "rx_scripts v = scripts1" "rx_serial v = rx_serial w" "rx_next v = rx_next w"
    "rx_cluster v = CheckClients now (rx_cluster w)" "listener v = listener w" "script_of v = left gone (script_of w)"
    using views by (simp_all add: v_def check_reactor_def d listener_def CheckClients_def script_of_def gone_def left_def fun_eq_iff)
  have gone: "f \<in> gone \<longleftrightarrow> (\<exists>s. client_of w f = Some s \<and> cs_closed s)" for f
    using map_find_in_set [OF sc_sorted] by (force simp: gone_def closed_clients_def client_of_def)
  have C: "client_of v f = (case client_of w f of None \<Rightarrow> None | Some s \<Rightarrow> if cs_closed s then None
      else Some (if uint (cl_keep_alive_timeout (rx_cluster w)) < now - cs_last_activity s then CloseConnection s else s))" for f
    using check_clients_find [OF sc_sorted] by (simp add: client_of_def v(5) CheckClients_def)
  have st: "stay gone (client_of w) (client_of v)"
    unfolding stay_def using gone by (auto simp: C CloseConnection_def split: option.splits if_splits)
  have del: "to_delete em1 f t \<longleftrightarrow> to_delete (rx_em w) f t \<or> freed gone (script_of w) f" if "t \<in> {CT_READ, CT_WRITE}" for f t
    using drop_all_deletes [OF d so that] by (simp add: gone_def script_of_def freed_def)
  have "cluster_inv (CheckClients now (rx_cluster w))"
    using cluster_handler [OF cl, of "Check now"] by simp
  then have base: "reactor_base v"
    using b views scripts_left [OF sc st] fds_left [OF fk st] watched_left [OF wa sc fk st del]
    by (simp add: reactor_base_def v)
  have "wanted_reader v f cb \<or> to_delete em1 f CT_READ" if "reader_of em1 f = Some cb" for f cb
    using assms that views del [of CT_READ f] live_left(1) [OF sc st, of "listener w" "rx_serial w" f cb]
    by (auto simp: reactor_inv_def v)
  moreover have "wanted_writer v f cb \<or> to_delete em1 f CT_WRITE" if "writer_of em1 f = Some cb" for f cb
    using assms that views del [of CT_WRITE f] live_left(2) [OF sc st, of "rx_serial w" f cb]
    by (auto simp: reactor_inv_def v)
  ultimately have "reactor_inv v" using base by (simp add: reactor_inv_def v(1))
  then show ?thesis by (simp add: v_def)
qed

lemma reactor_step_inv:
  assumes "reactor_inv w" "turn_guard t w"
  shows "\<exists>v. reactor_step t w = Inr v \<and> reactor_inv v"
proof -
  have can: "can_happen deliver_ready ready_guard (flush (tn_kernel t) w) (tn_ready t)"
    and once: "distinct (map ready_key (tn_ready t))" using assms(2) by (simp_all add: turn_guard_def ready_key_def)
  from all_ready_run [OF flush_inv [OF assms(1)] can once] obtain v D where
    v: "run_events deliver_ready (flush (tn_kernel t) w) (tn_ready t) = Inr v" "ready_inv D v" by auto
  with assms(2) have "can_happen report_exit exit_guard v (tn_exits t)" by (simp add: turn_guard_def)
  from all_exits_run [OF ready_inv_exits [OF v(2)] this] obtain u where
    u: "run_events report_exit v (tn_exits t) = Inr u" "exits_inv u" by blast
  then have "reactor_inv u" by (simp add: exits_inv_def)
  from check_inv [OF this] u(1) v(1) show ?thesis by (simp add: reactor_step_def)
qed

interpretation reactor: guarded_machine reactor_step turn_guard reactor_inv
  by unfold_locales (rule reactor_step_inv)

text \<open>At the start only the listeners are registered.\<close>

lemma reactor_start_inv:
  assumes "cluster_inv c" "cl_clients c = []" "em_sorted em" "fds_to_delete em = []"
    and "\<And>fd. reader_of em fd = (if map_find (cl_sockets c) fd \<noteq> None then Some MasterSocketCallback else None)"
    and "\<And>fd. writer_of em fd = None"
  shows "reactor_inv (reactor_start em c)"
proof -
  let ?w = "reactor_start em c"
  have w: "listener ?w fd \<longleftrightarrow> map_find (cl_sockets c) fd \<noteq> None" "client_of ?w fd = None" "script_of ?w fd = None"
    "rx_em ?w = em" "rx_cluster ?w = c" "rx_scripts ?w = []" for fd
    using assms(2) by (simp_all add: reactor_start_def listener_def client_of_def script_of_def map_find_def)
  have "\<not> to_delete em fd t" for fd t using assms(4) by (simp add: to_delete_def)
  then show ?thesis
    using assms(1,3,5,6)
    by (simp add: reactor_inv_def reactor_base_def scripts_ok_def fds_ok_def watched_def w reader_live_def writer_live_def
        split: if_splits)
qed

text \<open>What the next turn finds registered is wanted.\<close>

lemma reactor_inv_registered:
  assumes "reactor_inv w"
  shows "reader_of (delete_pending k (rx_em w)) fd = Some cb \<Longrightarrow> wanted_reader w fd cb"
    "writer_of (delete_pending k (rx_em w)) fd = Some cb \<Longrightarrow> wanted_writer w fd cb" "all_watched w"
proof -
  have "em_sorted (rx_em w)" using assms by (simp add: reactor_inv_def reactor_base_def)
  note v = delete_pending_views [OF this, of k]
  show "reader_of (delete_pending k (rx_em w)) fd = Some cb \<Longrightarrow> wanted_reader w fd cb"
    "writer_of (delete_pending k (rx_em w)) fd = Some cb \<Longrightarrow> wanted_writer w fd cb"
    using assms by (auto simp: reactor_inv_def v split: if_splits)
  show "all_watched w" using assms by (simp add: reactor_inv_def reactor_base_def)
qed

text \<open>
  What the next turn finds registered belongs to an object that is there, and all that waits for its
  descriptor is registered.
\<close>

definition nothing_dangles :: "reactor \<Rightarrow> bool" where
  "nothing_dangles w \<longleftrightarrow> all_watched w \<and>
     (\<forall>k fd cb. reader_of (delete_pending k (rx_em w)) fd = Some cb \<longrightarrow> wanted_reader w fd cb) \<and>
     (\<forall>k fd cb. writer_of (delete_pending k (rx_em w)) fd = Some cb \<longrightarrow> wanted_writer w fd cb)"

lemma reactor_inv_nothing_dangles: "reactor_inv w \<Longrightarrow> nothing_dangles w"
  using reactor_inv_registered by (simp add: nothing_dangles_def)

end
