(* ===== verification/Program.thy ===== *)
theory Program
  imports ReactorTurn ChildProcesses
begin

text \<open>
  \<open>src/main.cpp\<close> and the static parts of \<open>ServerCluster\<close>, \<open>EventManager\<close> and \<open>ChildProcessesManager\<close>:
  the only instance of each, the flag that the handler of SIGINT clears, the loop of \<open>Run\<close>, and the
  status with which the program ends.  Whether \<open>epoll_create\<close> succeeds is given from outside.
\<close>

section \<open>The only instances\<close>

text \<open>\<open>GetMultiplexer\<close>: an instance of \<open>epoll\<close> may fail, and \<open>LOG(FATAL)\<close> throws.\<close>

definition GetMultiplexer :: "bool \<Rightarrow> multiplex_type \<Rightarrow> 'cb multiplexer outcome" where
  [eval_simps]: "GetMultiplexer epoll_ok t =
     (if t = MT_EPOLL \<and> \<not> epoll_ok then Inl Runtime_error else Inr (multiplexer_init t))"

definition EventManager_init ::
  "bool \<Rightarrow> multiplex_type \<Rightarrow> 'cb event_manager option \<Rightarrow> 'cb event_manager option outcome" where
  [eval_simps]: "EventManager_init epoll_ok t inst =
     (if inst \<noteq> None then Inl Runtime_error
      else bind_outcome (GetMultiplexer epoll_ok t) (\<lambda>mx.
        Inr (Some \<lparr>em_multiplexer = mx, fds_to_delete = []\<rparr>)))"

definition EventManager_get :: "'cb event_manager option \<Rightarrow> 'cb event_manager outcome" where
  [eval_simps]: "EventManager_get inst = (case inst of None \<Rightarrow> Inl Runtime_error | Some em \<Rightarrow> Inr em)"

text \<open>The static functions do nothing before \<open>init\<close>.\<close>

definition EventManager_TryRegisterCallback ::
  "epoll_kernel \<Rightarrow> int \<Rightarrow> callback_type \<Rightarrow> 'cb \<Rightarrow> 'cb event_manager option
     \<Rightarrow> (bool \<times> 'cb event_manager option) outcome" where
  [eval_simps]: "EventManager_TryRegisterCallback k fd t cb inst =
     (case inst of None \<Rightarrow> Inr (False, None)
      | Some em \<Rightarrow> bind_outcome (TryRegisterCallback k fd t cb em) (\<lambda>(ok, em1). Inr (ok, Some em1)))"

definition EventManager_DeleteCallback ::
  "int \<Rightarrow> callback_type \<Rightarrow> 'cb event_manager option \<Rightarrow> 'cb event_manager option" where
  [eval_simps]: "EventManager_DeleteCallback fd t inst = map_option (DeleteCallback fd t) inst"

definition ChildProcessesManager_init :: "'cb children option \<Rightarrow> 'cb children option outcome" where
  [eval_simps]: "ChildProcessesManager_init inst = (if inst \<noteq> None then Inl Runtime_error else Inr (Some []))"

definition ChildProcessesManager_get :: "'cb children option \<Rightarrow> 'cb children outcome" where
  [eval_simps]: "ChildProcessesManager_get inst = (case inst of None \<Rightarrow> Inl Runtime_error | Some c \<Rightarrow> Inr c)"

definition ChildProcessesManager_CheckOnce ::
  "('cb \<Rightarrow> int \<Rightarrow> 's \<Rightarrow> exn option \<times> 's) \<Rightarrow> int \<Rightarrow> (int \<Rightarrow> int option) \<Rightarrow> 'cb children option \<Rightarrow> 's
     \<Rightarrow> int list \<times> exn option \<times> 'cb children option \<times> 's"
where
  [eval_simps]: "ChildProcessesManager_CheckOnce call now wait inst s =
     (case inst of None \<Rightarrow> ([], None, None, s)
      | Some c \<Rightarrow> (case Children_CheckOnce call now wait c s of (killed, thrown, d, t) \<Rightarrow> (killed, thrown, Some d, t)))"

definition ChildProcessesManager_TryRunChildProcess ::
  "bool \<Rightarrow> int \<Rightarrow> int \<Rightarrow> 'cb \<Rightarrow> 'cb children option \<Rightarrow> int option \<times> 'cb children option" where
  [eval_simps]: "ChildProcessesManager_TryRunChildProcess pair_ok fork_result now cb inst =
     (case inst of None \<Rightarrow> (None, None)
      | Some c \<Rightarrow> (case TryRunChildProcess pair_ok fork_result now cb c of (pid, d) \<Rightarrow> (pid, Some d)))"

definition ChildProcessesManager_KillChildProcess ::
  "int \<Rightarrow> 'cb children option \<Rightarrow> int list \<times> 'cb children option" where
  [eval_simps]: "ChildProcessesManager_KillChildProcess pid inst =
     (case inst of None \<Rightarrow> ([], None)
      | Some c \<Rightarrow> (case KillChildProcess pid c of (killed, d) \<Rightarrow> (killed, Some d)))"

section \<open>The state of the process\<close>

record 'cb process =
  pr_threshold :: severity
  pr_event_manager :: "callback event_manager option"
  pr_children :: "'cb children option"
  pr_cluster :: "server_cluster option"
  pr_sigint_handled :: bool
  pr_run :: bool

definition process_start :: "'cb process" where
  [eval_simps]: "process_start =
     \<lparr>pr_threshold = DEBUG, pr_event_manager = None, pr_children = None, pr_cluster = None,
      pr_sigint_handled = False, pr_run = False\<rparr>"

section \<open>Start\<close>

fun register_listeners ::
  "epoll_kernel \<Rightarrow> (int, sockaddr_in) std_map \<Rightarrow> callback event_manager option \<Rightarrow> callback event_manager option outcome"
where
  "register_listeners k [] em = Inr em"
| "register_listeners k ((fd, _) # socks) em =
     bind_outcome (EventManager_TryRegisterCallback k fd CT_READ MasterSocketCallback em) (\<lambda>(ok, em1).
       if \<not> ok then Inl Runtime_error else register_listeners k socks em1)"

text \<open>The constructor of \<open>ServerCluster\<close>, with the event manager it registers its listeners with.\<close>

definition ServerCluster_construct ::
  "listen_kernel \<Rightarrow> bool \<Rightarrow> epoll_kernel \<Rightarrow> config \<Rightarrow> 'cb process \<Rightarrow> (server_cluster \<times> 'cb process) outcome" where
  [eval_simps]: "ServerCluster_construct os epoll_ok k cfg p =
     bind_outcome (EventManager_init epoll_ok (cfg_mx_type cfg) (pr_event_manager p)) (\<lambda>em.
     bind_outcome (ChildProcessesManager_init (pr_children p)) (\<lambda>children.
     bind_outcome (CreateServers os cfg cluster_empty) (\<lambda>c.
     bind_outcome (register_listeners k (cl_sockets c) em) (\<lambda>em1.
       Inr (c, p\<lparr>pr_threshold := cfg_error_log_level cfg, pr_event_manager := em1,
         pr_children := children\<rparr>)))))"

definition ServerCluster_Init ::
  "listen_kernel \<Rightarrow> bool \<Rightarrow> epoll_kernel \<Rightarrow> config \<Rightarrow> 'cb process \<Rightarrow> 'cb process outcome" where
  [eval_simps]: "ServerCluster_Init os epoll_ok k cfg p =
     bind_outcome (ServerCluster_construct os epoll_ok k cfg (p\<lparr>pr_sigint_handled := True\<rparr>))
       (\<lambda>(c, q). Inr (q\<lparr>pr_cluster := Some c\<rparr>))"

section \<open>The loop\<close>

definition StopHandler :: "'cb process \<Rightarrow> 'cb process" where
  [eval_simps]: "StopHandler p = p\<lparr>pr_run := False\<rparr>"

definition SigIntHandler :: "'cb process \<Rightarrow> 'cb process" where
  [eval_simps]: "SigIntHandler p = StopHandler p"

text \<open>
  A turn, and whether SIGINT comes before the flag is looked at again.  When the turns are used up the
  program still runs.  The objects are those that \<open>Init\<close> made.
\<close>

type_synonym turn = "reactor_turn \<times> bool"

fun run_loop :: "turn list \<Rightarrow> 'cb process \<Rightarrow> reactor \<Rightarrow> ('cb process \<times> reactor) outcome" where
  "run_loop [] p w = Inr (p, w)"
| "run_loop ((t, sigint) # rest) p w =
     (if \<not> pr_run p then Inr (p, w)
      else bind_outcome (reactor_step t w) (run_loop rest ((if sigint then SigIntHandler else id) p)))"

definition ServerCluster_Run :: "turn list \<Rightarrow> 'cb process \<Rightarrow> ('cb process \<times> reactor) outcome" where
  [eval_simps]: "ServerCluster_Run ts p =
     (case (pr_cluster p, pr_event_manager p) of
        (Some c, Some em) \<Rightarrow> run_loop ts (p\<lparr>pr_run := True\<rparr>) (reactor_start em c)
      | _ \<Rightarrow> Inl Undefined_behaviour)"

section \<open>The program\<close>

text \<open>
  \<open>early_sigint\<close>: SIGINT came after \<open>Init\<close> and before \<open>Run\<close>.  The end of the handler of \<open>main\<close> is the end
  of \<open>main\<close>, so the status is 0; it is paired with whether the message of an exception was printed.
\<close>

datatype program_end = Exit_status int bool | Still_running | Undefined

definition program_end_of :: "('cb process \<times> reactor) outcome \<Rightarrow> program_end" where
  [eval_simps]: "program_end_of r =
     (case r of Inl e \<Rightarrow> if e = Undefined_behaviour then Undefined else Exit_status 0 True
      | Inr (p, _) \<Rightarrow> if pr_run p then Still_running else Exit_status 0 False)"

definition webserv_main ::
  "string list \<Rightarrow> file_system \<Rightarrow> listen_kernel \<Rightarrow> bool \<Rightarrow> epoll_kernel \<Rightarrow> bool \<Rightarrow> turn list \<Rightarrow> program_end" where
  [eval_simps]: "webserv_main argv fs os epoll_ok k early_sigint ts =
     (if length argv \<noteq> 2 then Exit_status 1 False
      else program_end_of
        (bind_outcome (GetConfigFromConfFile fs (argv ! 1)) (\<lambda>cfg.
         bind_outcome (ServerCluster_Init os epoll_ok k cfg (process_start :: unit process)) (\<lambda>p.
           ServerCluster_Run ts (if early_sigint then SigIntHandler p else p)))))"


section \<open>What the start sets up\<close>

lemma register_listener:
  assumes "EventManager_TryRegisterCallback k fd CT_READ cb (Some em) = Inr (True, em1)"
  shows "\<exists>e. em1 = Some e \<and> mx_type (em_multiplexer e) = mx_type (em_multiplexer em) \<and>
    reader_of e = (reader_of em)(fd \<mapsto> cb) \<and> writer_of e = writer_of em \<and>
    fds_to_delete e = fds_to_delete em \<and> (em_sorted em \<longrightarrow> em_sorted e)"
proof -
  obtain e where e: "TryRegisterCallback k fd CT_READ cb em = Inr (True, e)" "em1 = Some e"
    using assms by (auto simp: EventManager_TryRegisterCallback_def bind_outcome_Inr_iff)
  have "mx_type (em_multiplexer e) = mx_type (em_multiplexer em)"
    using e(1)
    by (auto simp: TryRegisterCallback_def TryRegisterFd_def TryRegisterFdImpl_def Epoll_TryRegisterFdImpl_def
        epoll_ctl_def events_of_type bind_outcome_Inr_iff Let_def split: if_splits prod.splits bool.splits)
  with e register_reader [of k fd cb em] show ?thesis by auto
qed

lemma register_listeners_reads:
  "register_listeners k socks (Some em) = Inr em1 \<Longrightarrow> em_sorted em \<Longrightarrow>
    \<exists>e. em1 = Some e \<and> mx_type (em_multiplexer e) = mx_type (em_multiplexer em) \<and>
      reader_of e = (\<lambda>j. if j \<in> fst ` set socks then Some MasterSocketCallback else reader_of em j) \<and>
      writer_of e = writer_of em \<and> fds_to_delete e = fds_to_delete em \<and> em_sorted e"
proof (induction socks arbitrary: em)
  case (Cons s socks)
  obtain fd a where s: "s = (fd, a)" by (cases s)
  with Cons.prems obtain em2 where em2:
    "EventManager_TryRegisterCallback k fd CT_READ MasterSocketCallback (Some em) = Inr (True, em2)"
    "register_listeners k socks em2 = Inr em1"
    by (auto simp: bind_outcome_Inr_iff split: if_splits)
  from register_listener [OF em2(1)] Cons.prems(2) obtain e where e: "em2 = Some e" "em_sorted e"
    "mx_type (em_multiplexer e) = mx_type (em_multiplexer em)" "reader_of e = (reader_of em)(fd \<mapsto> MasterSocketCallback)"
    "writer_of e = writer_of em" "fds_to_delete e = fds_to_delete em" by blast
  from Cons.IH [OF em2(2) [unfolded e(1)] e(2)] e(3-6) show ?case by (auto simp: s fun_eq_iff)
qed auto

text \<open>The constructor is that of \<open>ServerCluster\<close>, with an event manager that answers.\<close>

lemma Init_constructs:
  assumes "ServerCluster_Init os epoll_ok k cfg p = Inr q"
  shows "\<exists>c. pr_cluster q = Some c \<and> ServerCluster_new os (\<lambda>_. True) cfg = Inr c \<and>
    (\<exists>em. register_listeners k (cl_sockets c) (Some \<lparr>em_multiplexer = multiplexer_init (cfg_mx_type cfg),
       fds_to_delete = []\<rparr>) = Inr em \<and> pr_event_manager q = em)"
  using assms
  by (auto simp: ServerCluster_Init_def ServerCluster_construct_def EventManager_init_def GetMultiplexer_def
      ChildProcessesManager_init_def ServerCluster_new_def bind_outcome_Inr_iff list_all_iff split: if_splits)

text \<open>The listeners are registered for reading, and nothing else is.\<close>

lemma started_em:
  assumes "fresh_fds os" "ServerCluster_new os (\<lambda>_. True) cfg = Inr c"
    and "register_listeners k (cl_sockets c) (Some \<lparr>em_multiplexer = multiplexer_init (cfg_mx_type cfg),
       fds_to_delete = []\<rparr>) = Inr em1"
  shows "\<exists>em. em1 = Some em \<and> mx_type (em_multiplexer em) = cfg_mx_type cfg \<and> em_sorted em \<and> fds_to_delete em = [] \<and>
    (\<forall>fd. reader_of em fd = (if map_find (cl_sockets c) fd \<noteq> None then Some MasterSocketCallback else None)) \<and>
    writer_of em = (\<lambda>_. None)"
proof -
  note li = cluster_listening [OF assms(1,2)]
  have keys: "j \<in> fst ` set (cl_sockets c) \<longleftrightarrow> map_find (cl_sockets c) j \<noteq> None" for j
    using li by (force simp: map_find_in_set [symmetric] dest: map_find_set)
  let ?em = "\<lparr>em_multiplexer = multiplexer_init (cfg_mx_type cfg), fds_to_delete = []\<rparr>"
  have empty: "em_sorted ?em" "reader_of ?em = (\<lambda>_. None)" "writer_of ?em = (\<lambda>_. None)"
    "mx_type (em_multiplexer ?em) = cfg_mx_type cfg"
    by (simp_all add: em_sorted_def multiplexer_init_def reader_of_def writer_of_def map_find_def fun_eq_iff)
  from register_listeners_reads [OF assms(3) empty(1)] show ?thesis
    unfolding empty by (auto simp: keys)
qed

text \<open>C37: after \<open>Init\<close> there is for every address that the configuration names exactly one listener, which
  hands its requests to the servers that name the address, in their order; the descriptors of the listeners
  are watched for reading, and nothing else is watched.\<close>

theorem Init_watches_listeners:
  assumes "fresh_fds os" "ServerCluster_Init os epoll_ok k cfg p = Inr q"
  shows "\<exists>c em. pr_cluster q = Some c \<and> pr_event_manager q = Some em \<and>
    mx_type (em_multiplexer em) = cfg_mx_type cfg \<and>
    (\<forall>w\<in>set (wanted cfg). \<exists>!fd. map_find (cl_sockets c) fd = Some (listener_addr (snd w))) \<and>
    (\<forall>fd a. map_find (cl_sockets c) fd = Some a \<longrightarrow>
       servers_of (cl_sockets_to_servers c) fd = servers_at a (wanted cfg)) \<and>
    (\<forall>fd. is_registered (rd_sockets (em_multiplexer em)) fd \<longleftrightarrow> map_find (cl_sockets c) fd \<noteq> None) \<and>
    (\<forall>fd. \<not> is_registered (wr_sockets (em_multiplexer em)) fd)"
proof -
  obtain c em where c: "pr_cluster q = Some c" "ServerCluster_new os (\<lambda>_. True) cfg = Inr c"
    "register_listeners k (cl_sockets c) (Some \<lparr>em_multiplexer = multiplexer_init (cfg_mx_type cfg),
       fds_to_delete = []\<rparr>) = Inr em" "pr_event_manager q = em"
    using Init_constructs [OF assms(2)] by blast
  note started = started_em [OF assms(1) c(2,3)]
  note li = cluster_listening [OF assms(1) c(2)]
  from started listensD(1,4) [OF conjunct1 [OF li]] show ?thesis
    by (auto simp: c(1,4) is_registered_def reader_of_def writer_of_def fun_eq_iff)
qed

section \<open>What the loop keeps\<close>

abbreviation routes_without_NUL :: "config \<Rightarrow> bool" where
  "routes_without_NUL cfg \<equiv>
     \<forall>sc\<in>set (hc_server_configs (cfg_http_config cfg)). \<forall>lc\<in>set (sc_locations sc). NUL \<notin> set (fst (lc_route lc))"

lemma Init_started:
  assumes "GetConfigFromConfFile fs path = Inr cfg" "fresh_fds os" "ServerCluster_Init os epoll_ok k cfg p = Inr q"
    and "routes_without_NUL cfg"
  shows "\<exists>c em. pr_cluster q = Some c \<and> pr_event_manager q = Some em \<and> reactor_inv (reactor_start em c)"
proof -
  obtain c em where c: "pr_cluster q = Some c" "ServerCluster_new os (\<lambda>_. True) cfg = Inr c"
    "register_listeners k (cl_sockets c) (Some \<lparr>em_multiplexer = multiplexer_init (cfg_mx_type cfg),
       fds_to_delete = []\<rparr>) = Inr em" "pr_event_manager q = em"
    using Init_constructs [OF assms(3)] by blast
  have "cluster_inv c" by (rule cluster_started [OF assms(2) c(2) config_accepted [OF assms(1)] assms(4)])
  moreover have "cl_clients c = []" by (rule no_clients_yet [OF c(2)])
  ultimately show ?thesis
    using started_em [OF assms(2) c(2,3)] c(1,4) by (auto intro!: reactor_start_inv)
qed


section \<open>How the program ends\<close>

lemma run_loop_stopped: "\<not> pr_run p \<Longrightarrow> run_loop ts p w = Inr (p, w)"
  by (cases ts) auto

lemma run_loop_runs:
  assumes "pr_run p" "reactor_inv w" "can_happen reactor_step turn_promise w (map fst ts)"
  shows "(\<exists>q v. run_loop ts p w = Inr (q, v) \<and> (pr_run q \<longleftrightarrow> \<not> (\<exists>t\<in>set ts. snd t))) \<or>
    (\<exists>pre t sigint post v. ts = pre @ (t, sigint) # post \<and> \<not> (\<exists>t\<in>set pre. snd t) \<and>
       run_events reactor_step w (map fst pre) = Inr v \<and> turn_fails t v)"
  using assms
proof (induction ts arbitrary: w)
  case (Cons x ts)
  obtain turn sigint where x: "x = (turn, sigint)" by (cases x)
  with Cons.prems(3) have "turn_promise turn w" by simp
  then consider "turn_guard turn w" | "turn_fails turn w" using turn_promise_or by blast
  then show ?case
  proof cases
    case 1
    from reactor_step_inv [OF Cons.prems(2) this] obtain v where v: "reactor_step turn w = Inr v" "reactor_inv v" by blast
    show ?thesis
    proof (cases sigint)
      case True
      with Cons.prems(1) v(1) show ?thesis
        by (simp add: x SigIntHandler_def StopHandler_def run_loop_stopped)
    next
      case False
      have "can_happen reactor_step turn_promise v (map fst ts)" using Cons.prems(3) v(1) by (simp add: x)
      from Cons.IH [OF Cons.prems(1) v(2) this] show ?thesis
      proof (elim disjE exE conjE)
        fix pre t s post u assume u: "ts = pre @ (t, s) # post" "\<not> (\<exists>t\<in>set pre. snd t)"
          "run_events reactor_step v (map fst pre) = Inr u" "turn_fails t u"
        then have "x # ts = (x # pre) @ (t, s) # post" "\<not> (\<exists>t\<in>set (x # pre). snd t)"
          "run_events reactor_step w (map fst (x # pre)) = Inr u"
          using False v(1) by (simp_all add: x)
        with u(4) show ?thesis by blast
      qed (use False v(1) Cons.prems(1) in \<open>simp add: x\<close>)
    qed
  next
    case 2
    have "x # ts = [] @ (turn, sigint) # ts" "run_events reactor_step w (map fst []) = Inr w" by (simp_all add: x)
    with 2 show ?thesis by fastforce
  qed
qed simp

text \<open>A SIGINT between \<open>Init\<close> and \<open>Run\<close> is forgotten, for \<open>Run\<close> sets the flag it cleared.\<close>

lemma early_sigint_lost: "ServerCluster_Run ts (SigIntHandler p) = ServerCluster_Run ts p"
  by (simp add: ServerCluster_Run_def SigIntHandler_def StopHandler_def split: option.split)


text \<open>A configuration that is refused, or a listener that cannot be opened or watched, ends the program
  with status 0 and a message, just as if it had been stopped.\<close>

lemma failed_start_exits_with_zero:
  assumes "GetConfigFromConfFile fs path = Inl e \<and> e \<noteq> Undefined_behaviour \<or>
    GetConfigFromConfFile fs path = Inr cfg \<and> ServerCluster_Init os epoll_ok k cfg (process_start :: unit process) = Inl e \<and>
      e \<noteq> Undefined_behaviour"
  shows "webserv_main [prog, path] fs os epoll_ok k early_sigint ts = Exit_status 0 True"
  using assms by (auto simp: webserv_main_def program_end_of_def)


section \<open>The properties on concrete input\<close>

definition example_process :: "unit process" where
  [eval_simps]: "example_process =
     \<lparr>pr_threshold = INFO,
      pr_event_manager = Some \<lparr>em_multiplexer = (multiplexer_init MT_POLL)\<lparr>rd_sockets := [(3, MasterSocketCallback)]\<rparr>,
        fds_to_delete = []\<rparr>,
      pr_children = Some [], pr_cluster = Some example_cluster, pr_sigint_handled = True, pr_run = False\<rparr>"

lemma example_started:
  "ServerCluster_Init example_os True willing_kernel example_parsed process_start = Inr example_process"
proof -
  have "CreateServers example_os example_parsed cluster_empty = Inr example_cluster"
    using example_cluster_made(2) by (auto simp: ServerCluster_new_def bind_outcome_Inr_iff split: if_splits)
  moreover have "cl_sockets example_cluster = [(3, GetIPv4SockAddr 0 81)]" by (simp add: example_cluster_def)
  ultimately show ?thesis
    by (simp add: ServerCluster_Init_def ServerCluster_construct_def EventManager_init_def GetMultiplexer_def
        ChildProcessesManager_init_def process_start_def example_process_def EventManager_TryRegisterCallback_def
        TryRegisterCallback_def TryRegisterFd_def TryRegisterFdImpl_def events_of_type multiplexer_init_def
        is_registered_def map_find_def example_parsed_def)
qed

theorem Init_watches_listeners_witness:
  "\<exists>c. pr_cluster example_process = Some c \<and> (\<exists>!fd. map_find (cl_sockets c) fd = Some (GetIPv4SockAddr 0 81))"
  using Init_watches_listeners [OF example_cluster_made(1) example_started]
  by (auto simp: wanted_def example_parsed_def listener_addr_def)

text \<open>A client connects in the first turn, and hangs up and is dropped in the second.\<close>

definition example_start :: reactor where
  [eval_simps]: "example_start =
     reactor_start \<lparr>em_multiplexer = (multiplexer_init MT_POLL)\<lparr>rd_sockets := [(3, MasterSocketCallback)]\<rparr>,
       fds_to_delete = []\<rparr> example_cluster"

definition example_turns :: "reactor_turn list" where
  "example_turns =
     [\<lparr>tn_kernel = willing_kernel, tn_ready = [(3, False, Accepted 1 (Some 7) True)], tn_exits = [],
       tn_now = 1\<rparr>,
      \<lparr>tn_kernel = willing_kernel, tn_ready = [(7, False, Received
         (example_session_env\<lparr>se_servers := cl_sockets_to_servers example_cluster\<rparr>) (Socket_Recv 0 []) 9 True)],
       tn_exits = [], tn_now = 2\<rparr>]"

lemma example_turns_can_happen: "can_happen reactor_step turn_promise example_start example_turns"
proof -
  let ?e = "example_session_env\<lparr>se_servers := cl_sockets_to_servers example_cluster\<rparr>"
  have ok: "\<not> IsDirectory (pe_fs (se_proc ?e)) []" using example_ready(2) by (simp add: system_ok_def)
  show ?thesis
    using ok
    by (simp add: example_turns_def turn_promise_def eval_simps)
qed

text \<open>The only read of the example finds the end of the connection, which no session minds.\<close>

lemma example_turns_survived: "t \<in> set example_turns \<Longrightarrow> \<not> turn_fails t w"
  by (auto simp: example_turns_def turn_fails_def read_fails_def Socket_Recv_def Cons_eq_append_conv)



lemma failed_start_exits_with_zero_example:
  "webserv_main [''webserv'', ''webserv.txt''] (config_fs []) example_os True willing_kernel False [] = Exit_status 0 True"
proof -
  have "GetConfigFromConfFile (config_fs []) ''webserv.txt'' = Inl Invalid_argument" by code_simp
  then show ?thesis by (intro failed_start_exits_with_zero [where e = Invalid_argument]) simp
qed

end
