(* ===== verification/EndToEnd.thy ===== *)
theory EndToEnd
  imports SessionRefinement BuilderLines
begin

text \<open>
  From the bytes of a request to the bytes of its response: what the parser, the choice of server and
  location, the file processor, the dump of the response and the write callback do together.
\<close>

section \<open>The request of a session\<close>

text \<open>The bytes of a request that is routed to a static file build this request, and its destination.\<close>

lemma session_request_built:
  assumes "listener_ready (se_servers e) fd" "system_ok e"
    and "mt \<in> {HTTP_GET, HTTP_DELETE}" "vs \<in> {HTTP_1_0, HTTP_1_1}"
    and "set t \<inter> {SP, CR, NUL} = {}" "RqTarget_of_raw t = Inr u" "Good u" "length t \<le> 8000"
    and "list_all field_ok hs" "length hs \<le> 100"
    and "length (render_request (HttpMethodToStr mt) t (HttpVerToStr vs) hs) \<le> 32768"
    and "header_map hs ''host'' \<noteq> None" "header_map hs ''content-length'' = None"
    and "header_map hs ''transfer-encoding'' = None"
    and "ChooseServer (se_servers e) fd (rendered_request mt u vs hs) = Inr srv"
    and "ChooseLocation srv (rendered_request mt u vs hs) = (Some loc, kind)"
    and "mt \<in> set (loc_allowed_methods loc)"
    and "UpdatePath (loc_alias_dir loc) (fst (loc_route loc)) (get_component (rt_path u)) = Inr path"
    and "routed (se_servers e) fd (builder_init, d)"
  shows "\<exists>c d1. session_Build e fd (builder_init, d) (render_request (HttpMethodToStr mt) t (HttpVerToStr vs) hs)
      = Some (Inr (c, d1)) \<and>
    rb_state c = BS_END \<and> rb_status c = RB_DONE \<and> rb_rq c = rendered_request mt u vs hs \<and>
    Builder_Reset c = builder_init \<and> rd_server d1 = srv \<and> rd_loc d1 = Some loc \<and> rd_updated_path d1 = path"
proof -
  let ?rq = "rendered_request mt u vs hs"
  let ?d = "render_request (HttpMethodToStr mt) t (HttpVerToStr vs) hs"
  have env: "env_ready e fd" using assms(1,2) by (simp add: env_ready_def system_ok_def)
  have kind: "kind \<noteq> NO_LOCATION" using location_chosen [of srv ?rq] assms(16) by auto
  have target: "target_path ?rq = get_component (rt_path u)" by (simp add: target_path_def)
  have "hv_status (headers_ready_cb (plain_env e fd d) ?rq) = HTTP_OK"
    using assms(15-18) kind
    by (simp add: plain_env_def session_callback_def ChooseServerCb_def target Let_def)
  from render_request_built [OF assms(3-14) this] obtain c where
    c: "Build (plain_env e fd d) builder_init ?d = Some (Inr c)" "rb_state c = BS_END" "rb_status c = RB_DONE"
      "rb_rq c = ?rq" "Builder_Reset c = builder_init" by blast
  with session_Build_refines [OF env assms(19), of ?d] obtain d1 where
    sb: "session_Build e fd (builder_init, d) ?d = Some (Inr (c, d1))"
    by (auto simp: map_outcome_Inr_iff)
  from session_Build_runs [OF sb env assms(19)] have "destined (se_servers e) fd ?rq d1"
    using c(2,4) by (simp add: settled_def routed_def in_body_def)
  then have "rd_server d1 = srv" "rd_loc d1 = Some loc" "rd_updated_path d1 = path"
    using assms(15,16,18) by (auto simp: destined_def target)
  with sb c show ?thesis by blast
qed


section \<open>The response on its way\<close>

definition file_response :: "proc_env \<Rightarrow> string \<Rightarrow> response" where
  [eval_simps]: "file_response e path =
     FillResponseHeaders (pe_now e) (Response_file HTTP_OK HTTP_1_1
       (map_assign ''Content-Length'' (NumericToString (int (GetFileSize (pe_fs e) path)))
         (map_assign ''Content-Type'' (GetContentType path) [])) path)"

lemma AddHeader_simps:
  "rs_headers (fst (AddHeader kv rs)) = fst (map_insert (fst kv) (snd kv) (rs_headers rs))"
  "rs_code (fst (AddHeader kv rs)) = rs_code rs" "rs_body_file (fst (AddHeader kv rs)) = rs_body_file rs"
  by (simp_all add: AddHeader_def split: prod.split)

lemma FillResponseHeaders_find:
  "map_find (rs_headers (FillResponseHeaders now rs)) k =
     (if k \<in> {''Server'', ''Date''} \<and> map_find (rs_headers rs) k = None
      then Some (if k = ''Server'' then kServerClusterName else GetFormatedTime now 0)
      else map_find (rs_headers rs) k)"
  by (cases "map_find (rs_headers rs) k") (auto simp: FillResponseHeaders_def AddHeader_simps map_find_insert)

lemma file_response_facts:
  "rs_code (file_response e path) = HTTP_OK" "rs_body_file (file_response e path) = Some path"
  "map_find (rs_headers (file_response e path)) ''Connection'' \<noteq> Some ''Close''"
  "map_find (rs_headers (file_response e path)) ''Content-Length'' =
     Some (NumericToString (int (GetFileSize (pe_fs e) path)))"
  by (simp_all add: file_response_def FillResponseHeaders_find)
    (simp_all add: FillResponseHeaders_def AddHeader_simps Response_file_def map_find_def)

text \<open>The calls of the write callback of a session, with the environment at the time of each.\<close>

definition writable_events :: "(session_env \<times> int \<times> int) list \<Rightarrow> session_event list" where
  "writable_events ws = map (\<lambda>(e, a1, a2). Writable e a1 a2) ws"

lemma Call_close: "OnReadyToSend_Call a1 a2 w wire = (Sending w1, wire1) \<Longrightarrow> wr_close w1 = wr_close w"
  by (auto simp: OnReadyToSend_Call_def send_file_part_def split: prod.splits option.splits if_splits)

lemma no_writer_runs:
  "cs_writer s = None \<Longrightarrow> run_events session_step s (writable_events ws) = Inr s"
  by (induction ws) (auto simp: writable_events_def OnReadyToSend_def)

definition sent_state :: "bool \<Rightarrow> client_session \<Rightarrow> bool" where
  "sent_state close t \<longleftrightarrow> cs_writer t = None \<and> \<not> cs_busy t \<and> cs_script t = None \<and> (cs_closed t \<longleftrightarrow> close)"

text \<open>The events of a session in which a response is on its way are the calls of \<open>send_all\<close>.\<close>

lemma writable_runs:
  assumes "cs_writer s = Some w" "\<not> cs_closed s"
    and "send_all (map snd ws) w (cs_wire s) = (Send_done, wire)"
  shows "\<exists>t. run_events session_step s (writable_events ws) = Inr t \<and> cs_wire t = wire \<and>
    cs_builder t = Builder_Reset (cs_builder s) \<and> cs_master_fd t = cs_master_fd s \<and>
    rd_server (cs_dest t) = rd_server (cs_dest s) \<and> sent_state (wr_close w) t"
  using assms
proof (induction ws arbitrary: s w)
  case (Cons x ws)
  obtain e a1 a2 where x: "x = (e, a1, a2)" by (cases x)
  obtain r wire1 where call: "OnReadyToSend_Call a1 a2 w (cs_wire s) = (r, wire1)" by fastforce
  let ?t = "OnReadyToSend e a1 a2 s"
  have run: "run_events session_step s (writable_events (x # ws)) = run_events session_step ?t (writable_events ws)"
    by (simp add: writable_events_def x)
  show ?case
  proof (cases r)
    case (Sending w1)
    then have t: "?t = s\<lparr>cs_last_activity := pe_now (se_proc e), cs_writer := Some w1, cs_wire := wire1\<rparr>"
      using Cons.prems(1) call by (simp add: OnReadyToSend_def)
    have "send_all (map snd ws) w1 (cs_wire ?t) = (Send_done, wire)"
      using Cons.prems(3) call Sending by (simp add: x t)
    from Cons.IH [OF _ _ this] show ?thesis
      using Cons.prems(2) Call_close [of a1 a2 w "cs_wire s" w1 wire1] call Sending run by (simp add: t)
  next
    case Send_failed
    then show ?thesis using Cons.prems(3) call by (simp add: x)
  next
    case Send_done
    then have t: "?t = ResponseSentCleanup (wr_close w) (s\<lparr>cs_last_activity := pe_now (se_proc e), cs_wire := wire1\<rparr>)"
      using Cons.prems(1) call by (simp add: OnReadyToSend_def)
    have "wire1 = wire" using Cons.prems(3) call Send_done by (simp add: x)
    then show ?thesis
      using no_writer_runs [of ?t ws] run Cons.prems(2)
      by (simp add: t ResponseSentCleanup_def CloseConnection_def sent_state_def Let_def)
  qed
qed simp


section \<open>Request after request on one connection\<close>

text \<open>
  A request for a static file and what the system answers meanwhile: the environment when it is read,
  its target, version and header fields, the location and file it is for, and the calls of the write
  callback that follow, with what \<open>send\<close> answered.
\<close>

record exchange =
  ex_env :: session_env
  ex_target :: string
  ex_version :: http_version
  ex_fields :: "(string \<times> string) list"
  ex_location :: location
  ex_path :: string
  ex_calls :: "(session_env \<times> int \<times> int) list"

abbreviation ex_fs :: "exchange \<Rightarrow> file_system" where
  "ex_fs x \<equiv> pe_fs (se_proc (ex_env x))"

definition exchange_events :: "exchange \<Rightarrow> session_event list" where
  "exchange_events x =
     Readable (ex_env x) \<lparr>rp_status = RS_OK,
       rp_data = render_request ''GET'' (ex_target x) (HttpVerToStr (ex_version x)) (ex_fields x)\<rparr>
     # writable_events (ex_calls x)"

definition exchange_response :: "exchange \<Rightarrow> string" where
  "exchange_response x =
     Dump (pe_descr (se_proc (ex_env x))) (file_response (se_proc (ex_env x)) (ex_path x)) @
     file_content (ex_fs x) (Some (ex_path x))"

text \<open>The request is well formed and within the limits.\<close>

definition request_ok :: "exchange \<Rightarrow> rq_target \<Rightarrow> bool" where
  "request_ok x u \<longleftrightarrow> ex_version x \<in> {HTTP_1_0, HTTP_1_1} \<and> set (ex_target x) \<inter> {SP, CR, NUL} = {} \<and>
     RqTarget_of_raw (ex_target x) = Inr u \<and> Good u \<and> length (ex_target x) \<le> 8000 \<and>
     list_all field_ok (ex_fields x) \<and> length (ex_fields x) \<le> 100 \<and>
     length (render_request ''GET'' (ex_target x) (HttpVerToStr (ex_version x)) (ex_fields x)) \<le> 32768 \<and>
     header_map (ex_fields x) ''host'' \<noteq> None \<and> header_map (ex_fields x) ''content-length'' = None \<and>
     header_map (ex_fields x) ''transfer-encoding'' = None"

text \<open>It is for a static location that allows it, and its path is mapped to a file that can be read.\<close>

definition routed_to_file :: "int \<Rightarrow> exchange \<Rightarrow> rq_target \<Rightarrow> bool" where
  "routed_to_file fd x u \<longleftrightarrow>
     (let rq = rendered_request HTTP_GET u (ex_version x) (ex_fields x); loc = ex_location x in
      (\<exists>srv. ChooseServer (se_servers (ex_env x)) fd rq = Inr srv \<and> ChooseLocation srv rq = (Some loc, STATIC_PATH)) \<and>
      HTTP_GET \<in> set (loc_allowed_methods loc) \<and>
      UpdatePath (loc_alias_dir loc) (fst (loc_route loc)) (get_component (rt_path u)) = Inr (ex_path x) \<and>
      IsRegularFile (ex_fs x) (ex_path x) \<and> IsReadable (ex_fs x) (ex_path x))"

text \<open>The kernel takes at least a byte whenever it is asked, and is asked often enough.\<close>

definition calls_ok :: "exchange \<Rightarrow> bool" where
  "calls_ok x \<longleftrightarrow> se_write_ok (ex_env x) \<and>
     good_answers (map snd (ex_calls x)) (OnReadyToSend_new (ex_fs x)
       (Dump (pe_descr (se_proc (ex_env x))) (file_response (se_proc (ex_env x)) (ex_path x)))
       (Some (ex_path x)) False) [] \<and>
     length (exchange_response x) < length (ex_calls x)"

definition exchange_ok :: "sockets_to_servers \<Rightarrow> int \<Rightarrow> exchange \<Rightarrow> bool" where
  "exchange_ok m fd x \<longleftrightarrow> se_servers (ex_env x) = m \<and> system_ok (ex_env x) \<and> calls_ok x \<and>
     (\<exists>u. request_ok x u \<and> routed_to_file fd x u)"

text \<open>A session between two requests.\<close>

definition idle :: "int \<Rightarrow> client_session \<Rightarrow> bool" where
  "idle fd s \<longleftrightarrow> cs_master_fd s = fd \<and> cs_builder s = builder_init \<and> sent_state False s"

lemma idle_new: "idle fd (ClientSession_new now True fd srv)"
  by (simp add: idle_def ClientSession_new_def sent_state_def)

lemma builder_init_routed: "routed m fd (builder_init, d)"
  by (simp add: routed_def in_body_def builder_init_def builder_inv_cases Request_init_def)

lemma static_file_answered:
  assumes "types_distinct (pe_fs e)" "rd_loc d = Some loc" "location_kind (Some loc) = STATIC_PATH"
    and "rq_status rq = HTTP_OK" "rq_method rq = HTTP_GET"
    and "IsRegularFile (pe_fs e) (rd_updated_path d)" "IsReadable (pe_fs e) (rd_updated_path d)"
  shows "\<exists>r. ProcessRequest e rq d = Some (Inr (Answer r)) \<and>
    FillResponseHeaders (pe_now e) r = file_response e (rd_updated_path d)"
proof -
  have "snd (loc_redirect loc) = []" "\<not> loc_is_cgi loc"
    using assms(3) by (auto simp: location_kind_def split: if_splits)
  moreover have "\<not> IsDirectory (pe_fs e) (rd_updated_path d)"
    using assms(1,6) by (auto simp: types_distinct_def)
  ultimately show ?thesis
    using assms ProcessGet_eq [OF assms(1,2), of rq]
    by (simp add: ProcessRequest_def GetResponseProcessor_def FileProcessor_def serve_file_def
        file_response_def Let_def)
qed


lemma exchange_runs:
  assumes "listener_ready m fd" "exchange_ok m fd x" "idle fd s"
  shows "\<exists>t. run_events session_step s (exchange_events x) = Inr t \<and>
    cs_wire t = exchange_response x \<and> idle fd t"
proof -
  let ?e = "ex_env x" and ?path = "ex_path x"
  let ?data = "render_request ''GET'' (ex_target x) (HttpVerToStr (ex_version x)) (ex_fields x)"
  let ?rs = "file_response (se_proc ?e) ?path"
  let ?head = "Dump (pe_descr (se_proc ?e)) ?rs"
  from assms(2) obtain u where m: "se_servers ?e = m" and sys: "system_ok ?e" and calls: "calls_ok x"
    and req: "request_ok x u" and route: "routed_to_file fd x u"
    by (auto simp: exchange_ok_def)
  let ?rq = "rendered_request HTTP_GET u (ex_version x) (ex_fields x)" and ?loc = "ex_location x"
  from route obtain srv where srv: "ChooseServer (se_servers ?e) fd ?rq = Inr srv"
    "ChooseLocation srv ?rq = (Some ?loc, STATIC_PATH)" by (auto simp: routed_to_file_def Let_def)
  then have kind: "location_kind (Some ?loc) = STATIC_PATH" by (auto simp: ChooseLocation_def Let_def)
  have idle: "cs_builder s = builder_init" "cs_master_fd s = fd" "\<not> cs_busy s" "\<not> cs_closed s"
    "cs_writer s = None" "cs_script s = None" using assms(3) by (simp_all add: idle_def sent_state_def)
  have "\<exists>c d1. session_Build ?e fd (builder_init, cs_dest s) ?data = Some (Inr (c, d1)) \<and>
      rb_state c = BS_END \<and> rb_status c = RB_DONE \<and> rb_rq c = ?rq \<and>
      Builder_Reset c = builder_init \<and> rd_server d1 = srv \<and> rd_loc d1 = Some ?loc \<and> rd_updated_path d1 = ?path"
    using session_request_built [OF _ sys, of fd HTTP_GET "ex_version x" "ex_target x" u "ex_fields x" srv ?loc
        STATIC_PATH ?path "cs_dest s"] assms(1) m req route srv builder_init_routed
    by (simp add: request_ok_def routed_to_file_def Let_def)
  then obtain c d1 where b: "session_Build ?e fd (builder_init, cs_dest s) ?data = Some (Inr (c, d1))"
    "rb_status c = RB_DONE" "rb_rq c = ?rq" "Builder_Reset c = builder_init" "rd_loc d1 = Some ?loc"
    "rd_updated_path d1 = ?path" by blast
  have "types_distinct (pe_fs (se_proc ?e))" using sys by (simp add: system_ok_def)
  from static_file_answered [OF this b(5) kind, of ?rq] b(6) route obtain r where
    r: "ProcessRequest (se_proc ?e) ?rq d1 = Some (Inr (Answer r))" "FillResponseHeaders (pe_now (se_proc ?e)) r = ?rs"
    by (auto simp: routed_to_file_def Let_def)
  let ?w = "OnReadyToSend_new (pe_fs (se_proc ?e)) ?head (Some ?path) False"
  let ?t = "s\<lparr>cs_last_activity := pe_now (se_proc ?e), cs_builder := c, cs_dest := d1, cs_busy := True,
    cs_writer := Some ?w, cs_wire := []\<rparr>"
  have "PrepareResponse ?e r (s\<lparr>cs_last_activity := pe_now (se_proc ?e), cs_builder := c, cs_dest := d1, cs_busy := True\<rparr>) = ?t"
    using calls r(2) file_response_facts(2,3) [of "se_proc ?e" ?path]
    by (simp add: PrepareResponse_def calls_ok_def Let_def)
  then have "session_step (Readable ?e \<lparr>rp_status = RS_OK, rp_data = ?data\<rparr>) s = Inr ?t"
    using idle b r by (simp add: OnReadyToRecv_def ProcessNewData_def take_answer_def Let_def)
  then have run: "run_events session_step s (exchange_events x) = run_events session_step ?t (writable_events (ex_calls x))"
    by (simp add: exchange_events_def)
  have good: "good_answers (map snd (ex_calls x)) ?w []" and many: "length (exchange_response x) < length (map snd (ex_calls x))"
    using calls by (simp_all add: calls_ok_def)
  obtain res wire where sa: "send_all (map snd (ex_calls x)) ?w [] = (res, wire)" by fastforce
  have "res = Send_done \<and> wire = exchange_response x"
    using response_sent [OF good] sa many by (simp add: exchange_response_def)
  with sa writable_runs [of ?t ?w "ex_calls x" "exchange_response x"] idle obtain t where
    "run_events session_step ?t (writable_events (ex_calls x)) = Inr t" "cs_wire t = exchange_response x"
    "cs_builder t = Builder_Reset c" "cs_master_fd t = fd" "sent_state (wr_close ?w) t"
    by auto
  with run b(4) show ?thesis by (simp add: idle_def OnReadyToSend_new_def)
qed

text \<open>The responses that a client reads when it sends one request after the response to the other.\<close>

fun session_wires :: "exchange list \<Rightarrow> client_session \<Rightarrow> string list outcome" where
  "session_wires [] s = Inr []"
| "session_wires (x # xs) s =
     bind_outcome (run_events session_step s (exchange_events x)) (\<lambda>t.
       bind_outcome (session_wires xs t) (\<lambda>wires. Inr (cs_wire t # wires)))"

lemma exchanges_run:
  assumes "listener_ready m fd" "\<forall>x\<in>set xs. exchange_ok m fd x" "idle fd s"
  shows "session_wires xs s = Inr (map exchange_response xs)"
  using assms(2,3)
proof (induction xs arbitrary: s)
  case (Cons x xs)
  with exchange_runs [OF assms(1), of x s] show ?case by auto
qed simp



section \<open>The property on concrete input\<close>

definition served_env :: session_env where
  [eval_simps]: "served_env = example_session_env\<lparr>se_proc := example_proc_env\<lparr>pe_fs :=
     example_fs\<lparr>content_of := (\<lambda>_. Some ''hello'')\<rparr>\<rparr>\<rparr>"

text \<open>The kernel takes the whole head at once, and then the whole file.\<close>

definition served_request :: exchange where
  "served_request = \<lparr>ex_env = served_env, ex_target = ''/a/c'', ex_version = HTTP_1_1, ex_fields = [(''Host'', ''a'')],
     ex_location = plain_location ''/a/'' False, ex_path = ''docs/c'', ex_calls = []\<rparr>"

definition served_head :: string where
  "served_head = Dump (pe_descr (se_proc served_env)) (file_response (se_proc served_env) ''docs/c'')"

definition served_exchange :: exchange where
  "served_exchange = served_request\<lparr>ex_calls := (served_env, int (length served_head), 5)
     # replicate (length (exchange_response served_request)) (served_env, 1, 1)\<rparr>"

lemma served_simps [simp]:
  "ex_env served_exchange = served_env" "ex_target served_exchange = ''/a/c''" "ex_version served_exchange = HTTP_1_1"
  "ex_fields served_exchange = [(''Host'', ''a'')]" "ex_path served_exchange = ''docs/c''"
  "ex_location served_exchange = plain_location ''/a/'' False"
  "exchange_response served_exchange = exchange_response served_request"
  "se_servers served_env = [(3, [example_server])]" "se_write_ok served_env"
  by (simp_all add: served_exchange_def served_request_def exchange_response_def served_env_def example_session_env_def)

lemma head_then_file_good:
  assumes "head \<noteq> []"
  shows "good_answers ((int (length head), 5) # answers)
    (OnReadyToSend_new (pe_fs (se_proc served_env)) head (Some ''docs/c'') False) []"
proof -
  have "Suc 0 \<le> length head" using assms by (cases head) simp_all
  then show ?thesis by (simp add: eval_simps pack_rest_def answer_for_def file_answer_def)
qed

lemma served_calls: "calls_ok served_exchange"
proof -
  have "served_head \<noteq> []" by (simp add: served_head_def Dump_def dump_head_def status_line_def)
  from head_then_file_good [OF this] show ?thesis
    unfolding calls_ok_def served_simps served_head_def [symmetric]
    by (simp add: served_exchange_def)
qed

lemma served_request_ok:
  assumes "RqTarget_of_raw ''/a/c'' = Inr u" "Good u"
  shows "request_ok served_exchange u"
proof -
  have "header_map [(''Host'', ''a'')] = [''host'' \<mapsto> ''a'']" by (simp add: eval_simps str_simps)
  moreover have "field_ok (''Host'', ''a'')" by (simp add: eval_simps)
  ultimately show ?thesis using assms by (simp add: request_ok_def render_request_def render_field_def)
qed

lemma served_routed:
  assumes "get_component (rt_path u) = ''/a/c''"
  shows "routed_to_file 3 served_exchange u"
proof -
  let ?rq = "rendered_request HTTP_GET u HTTP_1_1 [(''Host'', ''a'')]"
  have "map_find (rq_headers ?rq) = [''host'' \<mapsto> ''a'']"
    by (simp add: read_fields_header_map) (simp add: eval_simps str_simps fun_eq_iff)
  then have "ChooseServer [(3, [example_server])] 3 ?rq = Inr example_server"
    by (simp add: eval_simps str_simps)
  moreover have "ChooseLocation example_server ?rq = (Some (plain_location ''/a/'' False), STATIC_PATH)"
    by (simp add: ChooseLocation_def MatchedRoute_def assms) (simp add: eval_simps str_simps)
  moreover have "UpdatePath ''/docs'' ''/a/'' ''/a/c'' = Inr ''docs/c''" by (simp add: eval_simps str_simps)
  moreover have "IsRegularFile (pe_fs (se_proc served_env)) ''docs/c''" "IsReadable (pe_fs (se_proc served_env)) ''docs/c''"
    by (simp_all add: eval_simps)
  ultimately show ?thesis
    using assms by (simp add: routed_to_file_def Let_def) (simp add: plain_location_def)
qed

lemma served_system: "system_ok served_env"
proof -
  have "types_distinct (pe_fs (se_proc served_env)) = types_distinct (pe_fs example_proc_env)"
    "IsDirectory (pe_fs (se_proc served_env)) [] = IsDirectory (pe_fs example_proc_env) []"
    "se_builder served_env = se_builder example_session_env"
    "pe_fs (se_proc example_session_env) = pe_fs example_proc_env"
    by (simp_all add: types_distinct_def IsDirectory_def IsRegularFile_def served_env_def example_session_env_def example_proc_env_def)
  with example_ready(2) show ?thesis by (simp add: system_ok_def)
qed

lemma served_ok: "exchange_ok [(3, [example_server])] 3 served_exchange"
proof -
  have "\<exists>u. RqTarget_of_raw ''/a/c'' = Inr u \<and> Good u \<and> get_component (rt_path u) = ''/a/c''"
    by (simp add: eval_simps str_simps remove_dots.simps)
  then show ?thesis
    using served_calls served_system served_request_ok served_routed by (auto simp: exchange_ok_def)
qed


end
