(* ===== verification/Spec2Isabelle.thy ===== *)
theory Spec2Isabelle
  imports BuilderLines RqTargetProps MultiplexerProps CgiProcess ChildProcesses
    SessionRefinement ServerCluster UniquePtr DebugText Logging Program EndToEnd TestVectors
begin

text \<open>
  A verification library for webserv, an HTTP/1.1 server in C++98 (\<open>src/src\<close>).

  The program.  \<open>main.cpp\<close> reads a configuration file (\<open>config/\<close>), makes a \<open>ServerCluster\<close> from it and
  runs its loop.  The cluster opens a listener for every address, accepts clients and keeps a
  \<open>ClientSession\<close> for each.  The event manager (\<open>c_api/EventManager.cpp\<close>, over \<open>select\<close>, \<open>poll\<close> or \<open>epoll\<close>)
  calls the callbacks of listeners, sessions and scripts.  A session gives the bytes it receives to its
  \<open>RequestBuilder\<close>; when the headers are complete, a callback of the session chooses the virtual server and
  the location, and maps the path; when the request is complete, \<open>Server::ProcessRequest\<close> answers it with a
  file, a listing, a redirect, an error page or a script, which \<open>ChildProcessesManager\<close> runs; the session then
  sends the response in the pieces that the kernel takes.

  Conventions (\<open>Prelude\<close>, \<open>StdMap\<close>, \<open>Maybe\<close>).  A C++ exception is a value of \<open>exn\<close>, and what may throw has a
  result in \<open>'a outcome = exn + 'a\<close>.  \<open>Undefined_behaviour\<close> stands for accesses outside a container or through
  a missing object, so that a theorem that a function returns \<open>Inr\<close> also excludes these.  Objects are
  records that the operations return updated; \<open>std::map\<close> is a sorted association list, \<open>std::string\<close> a list of
  bytes, \<open>size_t\<close> is \<open>64 word\<close> where it can wrap and \<open>nat\<close> where it is the length of a container.  The
  operating system is a parameter: a record of answers (\<open>file_system\<close>), the results of single calls, or a
  function of the state.  A loop that may not end is \<open>while_option\<close> (\<open>Build\<close>) or \<open>partial_function (option)\<close>
  (\<open>ProcessGet\<close>), whose \<open>None\<close> is not returning; all other loops are total functions.  No fuel is used.

  Requests.
    \<^item> \<open>SyntaxChecker\<close>, \<open>Http\<close>, \<open>StrUtils\<close>, \<open>NumericUtils\<close>: character classes, names, percent encoding, numbers.
    \<^item> \<open>RqTarget\<close> (\<open>http/RqTarget.cpp\<close>), \<open>RqTargetProps\<close>: parsing and normalisation of targets; the removal of
      dot segments agrees with a stack machine, and a good target has none left, decoded or not.
    \<^item> \<open>RequestParser\<close>, \<open>RequestBuilder\<close>: the buffer and the state machine.  \<open>Streaming\<close> holds the locale
      \<open>incremental\<close>, a loop over a buffer into which data arrives in pieces; \<open>BuilderStream\<close> interprets it by the
      loop of \<open>Build\<close>: how a request is cut into reads does not matter, and exactly when \<open>Build\<close> does not
      return.  \<open>BuilderBody\<close> (lengths and chunks), \<open>BuilderLines\<close> (request line, headers, a printed request is
      read back), \<open>BuilderSafety\<close> (an invariant of the loop: what a request that is let through guarantees).

  Configuration.  \<open>ParsedConfig\<close> (the tree of blocks; a printed tree is read back), \<open>LocationConfig\<close>,
  \<open>ServerConfig\<close>, \<open>LocationConfigBuilder\<close>, \<open>ServerConfigBuilder\<close>, \<open>ConfigBuilder\<close> (\<open>config/\<close>): every setting, its defaults,
  inheritance and errors; an accepted file gives a valid configuration.

  Answers.  \<open>Location\<close>, \<open>Server\<close> (choice of location and host name: the locale \<open>best_match\<close>, interpreted for
  routes and for names), \<open>Response\<close>, \<open>FileUtils\<close>, \<open>Processors\<close> (\<open>server/response_processors\<close>), \<open>Cgi\<close> (the text of a
  script's output), \<open>CgiProcess\<close> and \<open>ChildProcesses\<close> (the life of a script): every request is answered, an answer
  says how long it is, a script cannot split the response, exactly one response is sent.

  Events and connections.  \<open>Machine\<close> holds the locale \<open>guarded_machine\<close> (handlers that keep an invariant, runs
  of events); it is interpreted for the multiplexer (\<open>MultiplexerProps\<close>), the script processor (\<open>CgiProcess\<close>),
  the session (\<open>ClientSessionProps\<close>), the cluster (\<open>ServerCluster\<close>) and the reactor (\<open>ReactorTurn\<close>).  \<open>Multiplexer\<close>: registration and delivery;
  \<open>Sockets\<close>, \<open>IPv4\<close>: sending in pieces, addresses; \<open>ClientSession\<close>: all callbacks of a connection;
  \<open>SessionRefinement\<close>: what a session does to its builder is \<open>Build\<close>, so the theorems about requests hold of
  sessions; \<open>ServerCluster\<close>: listeners, clients, timeouts, and the composition: from an accepted configuration
  file on, up to the first read that a session does not survive, no event ends the server with an
  exception and no session is stuck.

  The whole program.
    \<^item> \<open>Reactor\<close>, \<open>ReactorInv\<close>, \<open>ReactorProps\<close>, \<open>ReactorTurn\<close>: the cluster, its sessions and its running scripts
      together with the event manager that calls them, one turn of \<open>Run\<close> after the other.  Objects have
      serial numbers, so a callback whose object is gone is undefined behaviour; none is called before a
      read fails, and every object that waits for something has its callback registered.
    \<^item> \<open>Program\<close>: \<open>main.cpp\<close>, the static parts of \<open>ServerCluster\<close>, \<open>EventManager\<close> and \<open>ChildProcessesManager\<close>, the
      loop until SIGINT and the exit status.
    \<^item> \<open>EndToEnd\<close>: a connection over which requests arrive in any pieces, from the bytes received to the bytes
      sent.
    \<^item> \<open>Logging\<close>: the logger, with the lines written as its state, and what the configuration prints; \<open>DebugText\<close>:
      the descriptions that the sources print into messages.  \<open>TestVectors\<close>: the cases of the
      repository's own unit tests, evaluated in the models.

  Smart pointers.  \<open>SharedPtr\<close> and \<open>UniquePtr\<close> (\<open>utils/shared_ptr.h\<close>, \<open>unique_ptr.h\<close>) model the templates over an
  explicit heap, as programs over pointer variables: no object is deleted twice, leaked or used after it is
  deleted.

  Reads that a session does not survive (\<open>read_fails\<close> in \<open>ClientSessionProps\<close>).  There are four: \<open>Build\<close> does
  not return (when is \<open>Build_diverges_iff\<close>), the name of a script is shorter than the test of its extension
  reads, the temporary file cannot be opened, and a file of the system passes the tests for a directory and
  for a regular file.  Nothing excludes them: the theorems about sessions, the cluster, the reactor and the
  program speak of all inputs and say that either all goes well, or it does up to the first such read.

  Assumptions.  Memory suffices, but for \<open>Run_turn\<close>, where a turn may be interrupted at any point by
  \<open>std::bad_alloc\<close> and then drops all clients, and for \<open>Children_CheckOnce\<close>, whose callbacks may throw; routes
  have no NUL; \<open>socket\<close>, \<open>accept\<close> and \<open>socketpair\<close> return descriptors that are not in use; \<open>stat\<close> of an empty
  path fails; a turn of the event manager finds a descriptor ready at most once in each direction; \<open>send\<close>
  takes between one byte and all it is given.

  Not modelled: the lines that single handlers log on their way, since the models of the handlers do not
  thread the logger (\<open>LOG_spec\<close> shows that a line changes nothing else, and the exception at FATAL is in
  the models); \<open>errors.cpp\<close>, which calls \<open>strerror\<close> and \<open>exit\<close>; the phrases of the status codes, which the build
  generates (a parameter).  Where the sources hold a smart pointer, the models hold the value: sessions own their parts,
  and servers and locations are never changed after they are made, so sharing them is not observable.
\<close>

end
